(* ===== verification/Zaino_Primitives.thy ===== *)
theory Zaino_Primitives
  imports Zaino_Prelude
begin

text \<open>
  The scalar quantities of \<^verbatim>\<open>zaino-primitives\<close>: block heights, zatoshi amounts and their
  sums, commitment-tree sizes, and the per-pool activation heights. Each is a one-field
  Rust struct whose private field carries an invariant; the model keeps the field as a
  word of the same width, states the invariant as a predicate, and shows that every
  constructor and operation keeps it and computes the exact mathematical value or refuses.
\<close>

section \<open>Heights\<close>

datatype height = Height (height_u32: u32)

datatype height_overflow = HeightOverflow u32

definition MAX_HEIGHT :: u32 where
  "MAX_HEIGHT = push_bit 31 1 - 1"

definition GENESIS :: height where
  "GENESIS = Height 0"

definition height_from_const :: "u32 \<Rightarrow> height option" where
  "height_from_const v = (if v \<le> MAX_HEIGHT then Some (Height v) else None)"

definition height_checked_add :: "height \<Rightarrow> u32 \<Rightarrow> height option" where
  "height_checked_add h delta =
     (case checked_add (height_u32 h) delta of
        None \<Rightarrow> None
      | Some s \<Rightarrow> if s > MAX_HEIGHT then None else Some (Height s))"

definition height_checked_sub :: "height \<Rightarrow> u32 \<Rightarrow> height option" where
  "height_checked_sub h delta = map_option Height (checked_sub (height_u32 h) delta)"

definition height_saturating_sub :: "height \<Rightarrow> u32 \<Rightarrow> height" where
  "height_saturating_sub h delta = Height (saturating_sub (height_u32 h) delta)"

definition height_abs_diff :: "height \<Rightarrow> height \<Rightarrow> u32" where
  "height_abs_diff h other = abs_diff (height_u32 h) (height_u32 other)"

definition height_try_from :: "u32 \<Rightarrow> height_overflow + height" where
  "height_try_from h = (if h > MAX_HEIGHT then Inl (HeightOverflow h) else Inr (Height h))"

instantiation height :: linorder
begin

definition less_eq_height :: "height \<Rightarrow> height \<Rightarrow> bool" where
  "less_eq_height a b \<longleftrightarrow> height_u32 a \<le> height_u32 b"

definition less_height :: "height \<Rightarrow> height \<Rightarrow> bool" where
  "less_height a b \<longleftrightarrow> height_u32 a < height_u32 b"

instance
  by standard (auto simp: less_eq_height_def less_height_def height.expand)

end

text \<open>The invariant of the type, and the height as a natural number.\<close>

definition height_ok :: "height \<Rightarrow> bool" where
  "height_ok h \<longleftrightarrow> height_u32 h \<le> MAX_HEIGHT"

definition hnat :: "height \<Rightarrow> nat" where
  "hnat h = unat (height_u32 h)"

lemma unat_MAX_HEIGHT [simp]: "unat MAX_HEIGHT = 2 ^ 31 - 1"
  by (simp add: MAX_HEIGHT_def)

lemma height_ok_iff: "height_ok h \<longleftrightarrow> hnat h < 2 ^ 31"
  by (simp add: height_ok_def hnat_def word_le_nat_alt less_eq_Suc_le)

lemma hnat_inject [simp]: "hnat a = hnat b \<longleftrightarrow> a = b"
  by (cases a; cases b) (simp add: hnat_def word_unat_eq_iff [symmetric])

lemma height_le_iff: "a \<le> b \<longleftrightarrow> hnat a \<le> hnat b"
  by (simp add: less_eq_height_def hnat_def word_le_nat_alt)

lemma height_less_iff: "a < b \<longleftrightarrow> hnat a < hnat b"
  by (simp add: less_height_def hnat_def word_less_nat_alt)

lemma hnat_Height [simp]: "hnat (Height w) = unat w"
  by (simp add: hnat_def)

lemma hnat_GENESIS [simp]: "hnat GENESIS = 0" and height_ok_GENESIS [simp]: "height_ok GENESIS"
  by (simp_all add: GENESIS_def height_ok_iff)

lemma GENESIS_least [simp]: "GENESIS \<le> h"
  by (simp add: height_le_iff)

lemma height_try_from_Inr:
  "height_try_from w = Inr h \<longleftrightarrow> hnat h = unat w \<and> height_ok h"
  by (cases h) (auto simp: height_try_from_def height_ok_def word_unat_eq_iff [symmetric])

lemma height_checked_add_Some [rust_arith]:
  "height_checked_add h d = Some h' \<longleftrightarrow> hnat h' = hnat h + unat d \<and> height_ok h'"
proof -
  have "height_checked_add h d = Some h' \<longleftrightarrow>
    checked_add (height_u32 h) d = Some (height_u32 h') \<and> height_u32 h' \<le> MAX_HEIGHT"
    by (cases h') (auto simp: height_checked_add_def split: option.splits)
  then show ?thesis
    by (simp add: checked_add_eq_Some hnat_def height_ok_def)
qed

lemma height_checked_sub_Some [rust_arith]:
  "height_checked_sub h d = Some h' \<longleftrightarrow> unat d \<le> hnat h \<and> hnat h' = hnat h - unat d"
  by (cases h') (auto simp: height_checked_sub_def checked_sub_eq_Some hnat_def)

lemma hnat_saturating_sub [rust_arith]:
  "hnat (height_saturating_sub h d) = hnat h - unat d"
  by (simp add: height_saturating_sub_def unat_saturating_sub) (simp add: hnat_def)

lemma height_ok_saturating_sub [intro]:
  "height_ok h \<Longrightarrow> height_ok (height_saturating_sub h d)"
  by (simp add: height_ok_iff hnat_saturating_sub)

lemma height_checked_add_one:
  "height_checked_add h 1 = Some h' \<longleftrightarrow> hnat h' = Suc (hnat h) \<and> height_ok h'"
  by (simp add: height_checked_add_Some)

lemma height_checked_add_eq:
  "height_checked_add h d =
    (if hnat h + unat d < 2 ^ 31 then Some (Height (height_u32 h + d)) else None)"
proof (cases "hnat h + unat d < 2 ^ 31")
  case True
  then have "hnat (Height (height_u32 h + d)) = hnat h + unat d"
    by (simp add: hnat_def unat_word_ariths)
  with True show ?thesis
    by (simp add: height_checked_add_Some height_ok_iff del: hnat_Height)
next
  case False
  then have "height_checked_add h d \<noteq> Some h'" for h'
    by (auto simp: height_checked_add_Some height_ok_iff)
  with False show ?thesis
    by (cases "height_checked_add h d") auto
qed

lemma height_checked_sub_None: "height_checked_sub h d = None \<longleftrightarrow> hnat h < unat d"
  by (simp add: height_checked_sub_def checked_sub_eq_None hnat_def)

lemma unat_height_abs_diff:
  "unat (height_abs_diff h k) = max (hnat h) (hnat k) - min (hnat h) (hnat k)"
  by (auto simp: height_abs_diff_def unat_abs_diff hnat_def)

text \<open>Heights: every way to make or move a height keeps it within \<open>2^31 - 1\<close>, and
  each computes the exact value or refuses: construction succeeds exactly up to the
  protocol maximum, adding exactly when the sum stays within it, subtracting exactly when
  it does not pass genesis; the saturating form stops at genesis and the distance is the
  absolute difference.\<close>

theorem height_arithmetic:
  assumes "height_ok h"
  shows "(height_try_from w = Inr h' \<longleftrightarrow> h' = Height w \<and> unat w < 2 ^ 31)
    \<and> (height_checked_add h d = Some h' \<longleftrightarrow> h' = Height (height_u32 h + d) \<and> hnat h + unat d < 2 ^ 31)
    \<and> (height_checked_add h d = Some h' \<longrightarrow> height_ok h' \<and> hnat h' = hnat h + unat d)
    \<and> (height_checked_sub h d = Some h' \<longrightarrow> height_ok h' \<and> hnat h' + unat d = hnat h)
    \<and> (height_checked_sub h d = None \<longleftrightarrow> hnat h < unat d)
    \<and> height_ok (height_saturating_sub h d)
    \<and> hnat (height_saturating_sub h d) = hnat h - unat d
    \<and> unat (height_abs_diff h k) = max (hnat h) (hnat k) - min (hnat h) (hnat k)"
proof (intro conjI)
  show "height_try_from w = Inr h' \<longleftrightarrow> h' = Height w \<and> unat w < 2 ^ 31"
    by (auto simp: height_try_from_def word_less_nat_alt)
  show "height_checked_add h d = Some h' \<longleftrightarrow>
      h' = Height (height_u32 h + d) \<and> hnat h + unat d < 2 ^ 31"
    by (auto simp: height_checked_add_eq)
  show "height_checked_add h d = Some h' \<longrightarrow> height_ok h' \<and> hnat h' = hnat h + unat d"
    by (simp add: height_checked_add_Some)
  show "height_checked_sub h d = Some h' \<longrightarrow> height_ok h' \<and> hnat h' + unat d = hnat h"
    using assms by (auto simp: height_checked_sub_Some height_ok_iff)
qed (use assms in \<open>auto simp: height_checked_sub_None hnat_saturating_sub unat_height_abs_diff\<close>)

theorem height_arithmetic_witness:
  "height_ok (Height 10) \<and> hnat (height_saturating_sub (Height 10) 100) = 0
   \<and> height_checked_sub (Height 10) 11 = None"
proof -
  have ok: "height_ok (Height 10)"
    by (simp add: height_ok_iff)
  then show ?thesis
    using height_arithmetic [OF ok, of 0 GENESIS 100 GENESIS]
      height_arithmetic [OF ok, of 0 GENESIS 11 GENESIS] by simp
qed

section \<open>Zatoshis\<close>

datatype zatoshis = Zatoshis (as_u64: u64)

datatype zatoshis_overflow = ZatoshisOverflow u64

definition MAX_ZATOSHIS :: u64 where
  "MAX_ZATOSHIS = 21000000 * 100000000"

definition zatoshis_new :: "u64 \<Rightarrow> zatoshis_overflow + zatoshis" where
  "zatoshis_new amount =
     (if amount > MAX_ZATOSHIS then Inl (ZatoshisOverflow amount) else Inr (Zatoshis amount))"

definition zatoshis_checked_add :: "zatoshis \<Rightarrow> zatoshis \<Rightarrow> zatoshis option" where
  "zatoshis_checked_add z other =
     (case checked_add (as_u64 z) (as_u64 other) of
        None \<Rightarrow> None
      | Some s \<Rightarrow> if s > MAX_ZATOSHIS then None else Some (Zatoshis s))"

definition sum_balances :: "zatoshis list \<Rightarrow> zatoshis option" where
  "sum_balances values = try_fold zatoshis_checked_add (Zatoshis 0) values"

text \<open>A signed value is the \<open>i64\<close> in two's complement, read by \<open>sint\<close>.\<close>

datatype signed_zatoshis = SignedZatoshis (as_i64: "64 word")

datatype signed_zatoshis_overflow = SignedZatoshisOverflow "64 word"

definition unsigned_abs :: "64 word \<Rightarrow> u64" where
  "unsigned_abs v = (if v <s 0 then - v else v)"

definition signed_try_new :: "64 word \<Rightarrow> signed_zatoshis_overflow + signed_zatoshis" where
  "signed_try_new v =
     (if unsigned_abs v \<le> MAX_ZATOSHIS then Inr (SignedZatoshis v)
      else Inl (SignedZatoshisOverflow v))"

definition is_spend :: "signed_zatoshis \<Rightarrow> bool" where
  "is_spend z \<longleftrightarrow> as_i64 z <s 0"

definition is_receive :: "signed_zatoshis \<Rightarrow> bool" where
  "is_receive z \<longleftrightarrow> 0 <s as_i64 z"

datatype flow_sum = FlowSum (as_u128: u128)

definition from_summed :: "u64 \<Rightarrow> flow_sum" where
  "from_summed t = FlowSum (ucast t)"

definition flow_checked_add :: "flow_sum \<Rightarrow> zatoshis \<Rightarrow> flow_sum option" where
  "flow_checked_add s amount = map_option FlowSum (checked_add (as_u128 s) (ucast (as_u64 amount)))"

definition try_accumulate :: "zatoshis list \<Rightarrow> flow_sum option" where
  "try_accumulate values = try_fold flow_checked_add (FlowSum 0) values"

definition checked_join :: "flow_sum \<Rightarrow> flow_sum \<Rightarrow> flow_sum option" where
  "checked_join s other = map_option FlowSum (checked_add (as_u128 s) (as_u128 other))"

text \<open>\<open>i64::try_from\<close> of a \<open>u128\<close>.\<close>

definition i64_try_from :: "u128 \<Rightarrow> 64 word option" where
  "i64_try_from w = (if w < 2 ^ 63 then Some (ucast w) else None)"

definition net :: "flow_sum \<Rightarrow> flow_sum \<Rightarrow> signed_zatoshis option" where
  "net received spent =
     (case i64_try_from (abs_diff (as_u128 received) (as_u128 spent)) of
        None \<Rightarrow> None
      | Some magnitude \<Rightarrow>
          (let difference = (if as_u128 received \<ge> as_u128 spent then magnitude else - magnitude)
           in case signed_try_new difference of Inl e \<Rightarrow> None | Inr z \<Rightarrow> Some z))"

abbreviation zec_supply :: nat where
  "zec_supply \<equiv> 2100000000000000"

abbreviation zsum :: "zatoshis list \<Rightarrow> nat" where
  "zsum zs \<equiv> (\<Sum>z\<leftarrow>zs. unat (as_u64 z))"

lemma unat_MAX_ZATOSHIS [simp]: "unat MAX_ZATOSHIS = zec_supply"
  by (simp add: MAX_ZATOSHIS_def)

lemma zatoshis_eqI: "unat (as_u64 a) = unat (as_u64 b) \<Longrightarrow> a = b"
  by (cases a; cases b) (simp add: word_unat_eq_iff)

lemma flow_sum_eqI: "unat (as_u128 a) = unat (as_u128 b) \<Longrightarrow> a = b"
  by (cases a; cases b) (simp add: word_unat_eq_iff)

lemma zatoshis_checked_add_Some [rust_arith]:
  "zatoshis_checked_add a b = Some c \<longleftrightarrow>
    unat (as_u64 c) = unat (as_u64 a) + unat (as_u64 b) \<and> unat (as_u64 a) + unat (as_u64 b) \<le> zec_supply"
proof -
  have "zatoshis_checked_add a b = Some c \<longleftrightarrow>
    checked_add (as_u64 a) (as_u64 b) = Some (as_u64 c) \<and> as_u64 c \<le> MAX_ZATOSHIS"
    by (cases c) (auto simp: zatoshis_checked_add_def split: option.splits)
  then show ?thesis
    by (auto simp: checked_add_eq_Some word_le_nat_alt)
qed

lemma flow_checked_add_Some [rust_arith]:
  "flow_checked_add a b = Some c \<longleftrightarrow>
    unat (as_u128 c) = unat (as_u128 a) + unat (as_u64 b)
    \<and> unat (as_u128 a) + unat (as_u64 b) \<le> 2 ^ 128 - 1"
proof -
  have ucast: "unat (ucast (as_u64 b) :: u128) = unat (as_u64 b)"
    by (simp add: unat_ucast_up)
  have "flow_checked_add a b = Some c \<longleftrightarrow>
    checked_add (as_u128 a) (ucast (as_u64 b)) = Some (as_u128 c)"
    by (cases c) (auto simp: flow_checked_add_def)
  then show ?thesis
    using unat_less_exp [of "as_u128 c"] by (auto simp: checked_add_eq_Some ucast)
qed

text \<open>Summing coexisting balances gives exactly their sum when it is within the money
  zec_supply, and is refused exactly when it is not, whatever the order and number of terms.\<close>

theorem sum_balances_exact:
  "sum_balances zs = Some r \<longleftrightarrow>
    unat (as_u64 r) = zsum zs \<and> zsum zs \<le> zec_supply"
proof -
  have ex: "\<exists>r. unat (as_u64 r) = n" if "n \<le> zec_supply" for n
    using that by (intro exI [of _ "Zatoshis (of_nat n)"]) (simp add: unat_of_nat)
  show ?thesis
    unfolding sum_balances_def
    by (subst try_fold_checked_sum [where val = "\<lambda>z. unat (as_u64 z)" and B = zec_supply])
      (auto simp: zatoshis_checked_add_Some intro: zatoshis_eqI ex)
qed

lemma try_fold_flow:
  "try_fold flow_checked_add acc zs = Some r \<longleftrightarrow>
    unat (as_u128 r) = unat (as_u128 acc) + zsum zs
    \<and> unat (as_u128 acc) + zsum zs \<le> 2 ^ 128 - 1"
proof -
  have ex: "\<exists>r. unat (as_u128 r) = n" if "n \<le> 2 ^ 128 - 1" for n
    using that by (intro exI [of _ "FlowSum (of_nat n)"]) (simp add: unat_of_nat)
  show ?thesis
    using unat_less_exp [of "as_u128 acc"]
    by (subst try_fold_checked_sum [where val = "\<lambda>s. unat (as_u128 s)" and B = "2 ^ 128 - 1"])
      (auto simp: flow_checked_add_Some intro: flow_sum_eqI ex)
qed

lemma try_accumulate_Some:
  "try_accumulate zs = Some r \<longleftrightarrow>
    unat (as_u128 r) = zsum zs \<and> zsum zs < 2 ^ 128"
  by (auto simp: try_accumulate_def try_fold_flow)

lemma checked_join_Some [rust_arith]:
  "checked_join a b = Some c \<longleftrightarrow> unat (as_u128 c) = unat (as_u128 a) + unat (as_u128 b)"
proof -
  have "checked_join a b = Some c \<longleftrightarrow> checked_add (as_u128 a) (as_u128 b) = Some (as_u128 c)"
    by (cases c) (auto simp: checked_join_def)
  then show ?thesis by (simp add: checked_add_eq_Some)
qed

lemma signed_take_bit_63:
  "n < 2 ^ 63 \<Longrightarrow> signed_take_bit 63 (int n) = int n"
  "n < 2 ^ 63 \<Longrightarrow> signed_take_bit 63 (- int n) = - int n"
  by (rule signed_take_bit_int_eq_self; simp)+

lemma sint_plus_minus:
  fixes v :: "64 word"
  assumes "unat v = n" and "n < 2 ^ 63"
  shows "sint v = int n" and "sint (- v) = - int n"
proof -
  have "v = word_of_int (int n)" and "- v = word_of_int (- int n)"
    using assms(1) by auto
  then show "sint v = int n" and "sint (- v) = - int n"
    using assms(2) signed_take_bit_63 [of n] sint_sbintrunc' [where 'a = 64, of "int n"]
      sint_sbintrunc' [where 'a = 64, of "- int n"] by simp_all
qed

lemma signed_try_new_plus_minus:
  fixes v :: "64 word"
  assumes "unat v = n" and "n < 2 ^ 63"
  shows "signed_try_new v = Inr z \<longleftrightarrow> n \<le> zec_supply \<and> z = SignedZatoshis v"
    and "signed_try_new (- v) = Inr z \<longleftrightarrow> n \<le> zec_supply \<and> z = SignedZatoshis (- v)"
proof -
  have "unsigned_abs v = v"
    using sint_plus_minus(1) [OF assms] by (simp add: unsigned_abs_def word_sless_alt)
  moreover have "unsigned_abs (- v) = v"
    using sint_plus_minus(2) [OF assms] assms(1)
    by (cases "n = 0") (auto simp: unsigned_abs_def word_sless_alt unat_0_iff)
  ultimately show "signed_try_new v = Inr z \<longleftrightarrow> n \<le> zec_supply \<and> z = SignedZatoshis v"
    and "signed_try_new (- v) = Inr z \<longleftrightarrow> n \<le> zec_supply \<and> z = SignedZatoshis (- v)"
    using assms(1) by (auto simp: signed_try_new_def word_le_nat_alt)
qed

lemma net_Some:
  "net r s = Some z \<longleftrightarrow>
    \<bar>int (unat (as_u128 r)) - int (unat (as_u128 s))\<bar> \<le> int zec_supply
    \<and> sint (as_i64 z) = int (unat (as_u128 r)) - int (unat (as_u128 s))"
proof -
  define a b where "a = unat (as_u128 r)" and "b = unat (as_u128 s)"
  define m where "m = abs_diff (as_u128 r) (as_u128 s)"
  have m: "unat m = (if b \<le> a then a - b else b - a)"
    by (simp add: m_def a_def b_def unat_abs_diff)
  have ge: "as_u128 r \<ge> as_u128 s \<longleftrightarrow> b \<le> a"
    by (simp add: a_def b_def word_le_nat_alt)
  have inj: "z = SignedZatoshis v \<longleftrightarrow> sint (as_i64 z) = sint v" for v
    by (cases z) (simp add: word_eq_iff_signed)
  show ?thesis
  proof (cases "unat m < 2 ^ 63")
    case False
    then have "i64_try_from m = None"
      by (simp add: i64_try_from_def word_less_nat_alt)
    moreover have "\<not> \<bar>int a - int b\<bar> \<le> int zec_supply"
      using False m by (auto split: if_splits)
    ultimately show ?thesis
      by (simp add: net_def m_def a_def b_def)
  next
    case True
    define v :: "64 word" where "v = ucast m"
    have v: "unat v = unat m"
      using True by (simp add: v_def unat_ucast_down)
    have "i64_try_from m = Some v"
      using True by (simp add: i64_try_from_def word_less_nat_alt v_def)
    then have "net r s = Some z \<longleftrightarrow> signed_try_new (if b \<le> a then v else - v) = Inr z"
      by (auto simp: net_def ge simp flip: m_def split: sum.splits)
    also have "\<dots> \<longleftrightarrow> unat m \<le> zec_supply \<and> sint (as_i64 z) = int a - int b"
      using signed_try_new_plus_minus [OF v True] sint_plus_minus [OF v True] m
      by (simp add: inj)
    finally show ?thesis
      using m unfolding a_def [symmetric] b_def [symmetric] by auto
  qed
qed

text \<open>Netting two accumulated flows is exact: splitting the movements at any point and
  joining the two totals gives the total of the whole run, and the net of received over
  spent is the exact signed difference, present exactly when its magnitude fits the money
  supply and never truncated or wrapped.\<close>

theorem flow_net_exact:
  assumes "try_accumulate (rs @ rs') = Some r" and "try_accumulate ss = Some s"
  shows "(\<exists>r1 r2. try_accumulate rs = Some r1 \<and> try_accumulate rs' = Some r2
            \<and> checked_join r1 r2 = Some r)
    \<and> (net r s = Some z \<longleftrightarrow>
         \<bar>int (zsum (rs @ rs')) - int (zsum ss)\<bar> \<le> int zec_supply
         \<and> sint (as_i64 z) = int (zsum (rs @ rs')) - int (zsum ss))
    \<and> (net r s = Some z \<longrightarrow> is_spend z = (unat (as_u128 r) < unat (as_u128 s)))"
proof -
  have ex: "\<exists>f. try_accumulate xs = Some f" if "zsum xs < 2 ^ 128" for xs
    using that by (intro exI [of _ "FlowSum (of_nat (zsum xs))"])
      (simp add: try_accumulate_Some unat_of_nat)
  from assms(1) have r: "unat (as_u128 r) = zsum (rs @ rs')"
    and lt: "zsum (rs @ rs') < 2 ^ 128"
    by (simp_all add: try_accumulate_Some del: map_append sum_list_append)
  from lt obtain r1 r2 where r12: "try_accumulate rs = Some r1" "try_accumulate rs' = Some r2"
    using ex [of rs] ex [of rs'] by auto
  then have join: "checked_join r1 r2 = Some r"
    using r by (simp add: checked_join_Some try_accumulate_Some)
  have spend: "is_spend z \<longleftrightarrow> unat (as_u128 r) < unat (as_u128 s)" if "net r s = Some z"
    using that by (simp add: is_spend_def word_sless_alt net_Some del: of_nat_unat)
  from assms(2) have s: "unat (as_u128 s) = zsum ss"
    by (simp add: try_accumulate_Some)
  show ?thesis
    using r12 join spend unfolding net_Some r s by blast
qed

theorem flow_net_exact_witness:
  "net (FlowSum 180) (FlowSum 60) = Some (SignedZatoshis 120)"
proof -
  have a: "try_accumulate ([Zatoshis 100, Zatoshis 50] @ [Zatoshis 30]) = Some (FlowSum 180)"
    and b: "try_accumulate [Zatoshis 60] = Some (FlowSum 60)"
    by (simp_all add: try_accumulate_Some)
  show ?thesis
    using flow_net_exact [OF a b, of "SignedZatoshis 120"] by simp
qed

section \<open>Commitment-tree sizes\<close>

datatype tree_size = TreeSize (tree_size_get: u32)

datatype tree_size_out_of_range = TreeSizeOutOfRange u64

definition tree_size_try_from :: "u64 \<Rightarrow> tree_size_out_of_range + tree_size" where
  "tree_size_try_from count =
     (if count < 2 ^ 32 then Inr (TreeSize (ucast count)) else Inl (TreeSizeOutOfRange count))"

definition tree_size_checked_add :: "tree_size \<Rightarrow> u64 \<Rightarrow> tree_size_out_of_range + tree_size" where
  "tree_size_checked_add sz count =
     bindE (ok_or (checked_add (ucast (tree_size_get sz)) count) (TreeSizeOutOfRange count))
       tree_size_try_from"

lemma tree_size_try_from_Inr:
  "tree_size_try_from w = Inr t \<longleftrightarrow> unat (tree_size_get t) = unat w"
proof
  assume "tree_size_try_from w = Inr t"
  then show "unat (tree_size_get t) = unat w"
    by (auto simp: tree_size_try_from_def word_less_nat_alt unat_ucast_down split: if_splits)
next
  assume eq: "unat (tree_size_get t) = unat w"
  then have "unat w < 2 ^ 32"
    using unat_less_exp [of "tree_size_get t"] by simp
  moreover from this eq have "t = TreeSize (ucast w)"
    by (cases t) (simp add: word_unat_eq_iff unat_ucast_down)
  ultimately show "tree_size_try_from w = Inr t"
    by (simp add: tree_size_try_from_def word_less_nat_alt)
qed

text \<open>Growing a commitment tree by a block's notes gives exactly the old size plus the
  count when that fits 32 bits, and an error otherwise: a full tree of \<open>2^32\<close> notes is
  refused, never recorded as an empty one. The error carries the offending total, except
  when the total does not even fit 64 bits, where it carries the count.\<close>

theorem tree_size_growth:
  "(tree_size_checked_add t c = Inr t' \<longleftrightarrow>
      unat (tree_size_get t') = unat (tree_size_get t) + unat c)
   \<and> (tree_size_checked_add t c = Inl (TreeSizeOutOfRange g) \<longleftrightarrow>
      2 ^ 32 \<le> unat (tree_size_get t) + unat c
      \<and> g = (if unat (tree_size_get t) + unat c < 2 ^ 64 then ucast (tree_size_get t) + c else c))"
proof -
  let ?n = "unat (tree_size_get t) + unat c"
  have up: "unat (ucast (tree_size_get t) :: u64) = unat (tree_size_get t)"
    by (simp add: unat_ucast_up)
  have t': "unat (tree_size_get t') < 2 ^ 32"
    using unat_less_exp [of "tree_size_get t'"] by simp
  show ?thesis
  proof (cases "?n < 2 ^ 64")
    case True
    define s where "s = ucast (tree_size_get t) + c"
    have s: "unat s = ?n"
      using True up by (simp add: s_def unat_word_ariths)
    have "tree_size_checked_add t c = tree_size_try_from s"
      using True up by (simp add: tree_size_checked_add_def checked_add_def s_def)
    moreover have "tree_size_try_from s = Inl (TreeSizeOutOfRange g) \<longleftrightarrow> 2 ^ 32 \<le> unat s \<and> g = s"
      by (auto simp: tree_size_try_from_def word_less_nat_alt)
    ultimately show ?thesis
      using True s t' by (auto simp: tree_size_try_from_Inr s_def [symmetric])
  next
    case False
    then show ?thesis
      using up t' by (auto simp: tree_size_checked_add_def checked_add_def)
  qed
qed

section \<open>Pool activations\<close>

datatype shielded_pool = Sapling | Orchard | Ironwood

record pool_activations =
  sapling :: "height option"
  orchard :: "height option"
  ironwood :: "height option"

definition SAPLING_BRANCH_ID :: u32 where "SAPLING_BRANCH_ID = 0x76b809bb"
definition NU5_BRANCH_ID :: u32 where "NU5_BRANCH_ID = 0xc2d6d0b4"
definition NU6_3_BRANCH_ID :: u32 where "NU6_3_BRANCH_ID = 0x37a5165b"

definition activations_unknown :: pool_activations where
  "activations_unknown = \<lparr>sapling = None, orchard = None, ironwood = None\<rparr>"

definition record_activation :: "pool_activations \<Rightarrow> u32 \<times> height \<Rightarrow> pool_activations" where
  "record_activation a e =
     (case e of (branch_id, h) \<Rightarrow>
        if branch_id = SAPLING_BRANCH_ID then a\<lparr>sapling := Some h\<rparr>
        else if branch_id = NU5_BRANCH_ID then a\<lparr>orchard := Some h\<rparr>
        else if branch_id = NU6_3_BRANCH_ID then a\<lparr>ironwood := Some h\<rparr>
        else a)"

definition from_branch_activations :: "(u32 \<times> height) list \<Rightarrow> pool_activations" where
  "from_branch_activations entries = foldl record_activation activations_unknown entries"

fun activation :: "pool_activations \<Rightarrow> shielded_pool \<Rightarrow> height option" where
  "activation a Sapling = sapling a"
| "activation a Orchard = orchard a"
| "activation a Ironwood = ironwood a"

definition is_active :: "pool_activations \<Rightarrow> shielded_pool \<Rightarrow> height \<Rightarrow> bool" where
  "is_active a pool h = (case activation a pool of None \<Rightarrow> False | Some act \<Rightarrow> h \<ge> act)"

fun pool_branch_id :: "shielded_pool \<Rightarrow> u32" where
  "pool_branch_id Sapling = SAPLING_BRANCH_ID"
| "pool_branch_id Orchard = NU5_BRANCH_ID"
| "pool_branch_id Ironwood = NU6_3_BRANCH_ID"

lemmas branch_id_defs = SAPLING_BRANCH_ID_def NU5_BRANCH_ID_def NU6_3_BRANCH_ID_def

lemma activation_record:
  "activation (record_activation a (b, h)) pool =
    (if b = pool_branch_id pool then Some h else activation a pool)"
  by (cases pool) (auto simp: record_activation_def branch_id_defs)

text \<open>The activation heights built from a validator's upgrade schedule: each pool
  activates at the last height the schedule gives its branch id, upgrades that activate no
  pool are ignored, a pool whose branch id is absent never activates, and the pool is active
  at exactly the heights from its activation on.\<close>

theorem from_branch_activations_spec:
  "activation (from_branch_activations entries) pool = map_of (rev entries) (pool_branch_id pool)
   \<and> (is_active (from_branch_activations entries) pool h \<longleftrightarrow>
        (\<exists>act. map_of (rev entries) (pool_branch_id pool) = Some act \<and> act \<le> h))"
proof -
  have act: "activation (foldl record_activation a entries) pool =
    (case map_of (rev entries) (pool_branch_id pool) of Some h \<Rightarrow> Some h | None \<Rightarrow> activation a pool)"
    for a
    by (induction entries arbitrary: a)
      (auto simp: activation_record map_add_def split: option.splits)
  have none: "activation activations_unknown pool = None"
    by (cases pool) (simp_all add: activations_unknown_def)
  have "activation (from_branch_activations entries) pool =
    map_of (rev entries) (pool_branch_id pool)"
    by (simp add: from_branch_activations_def act none split: option.splits)
  then show ?thesis
    by (simp add: is_active_def split: option.splits)
qed

end
