(* ===== verification/Zaino_U256.thy ===== *)
theory Zaino_U256
  imports Zaino_Prelude
begin

text \<open>
  The 256-bit helper of the difficulty pipeline, \<^verbatim>\<open>compact_difficulty/u256.rs\<close>. A
  \<open>U256\<close> is a pair of 128-bit halves, as in the source; \<open>val256\<close> reads it as a natural
  number and \<open>word256\<close> as one word, and every operation is shown to compute the arithmetic
  function it is named after, the bit-by-bit long division included.
\<close>

section \<open>256-bit arithmetic\<close>

record u256 =
  hi :: u128
  lo :: u128

definition u256_ZERO :: u256 where
  "u256_ZERO = \<lparr>hi = 0, lo = 0\<rparr>"

definition u256_shl :: "u256 \<Rightarrow> nat \<Rightarrow> u256" where
  "u256_shl x n =
     (if n = 0 then x
      else if n \<le> 127 then
        \<lparr>hi = push_bit n (hi x) OR drop_bit (128 - n) (lo x), lo = push_bit n (lo x)\<rparr>
      else if n = 128 then \<lparr>hi = lo x, lo = 0\<rparr>
      else if n \<le> 255 then \<lparr>hi = push_bit (n - 128) (lo x), lo = 0\<rparr>
      else u256_ZERO)"

definition u256_bit :: "u256 \<Rightarrow> nat \<Rightarrow> bool" where
  "u256_bit x i =
     (if i < 128 then drop_bit i (lo x) AND 1 = 1 else drop_bit (i - 128) (hi x) AND 1 = 1)"

definition u256_set_bit :: "u256 \<Rightarrow> nat \<Rightarrow> u256" where
  "u256_set_bit x i =
     (if i < 128 then x\<lparr>lo := lo x OR push_bit i 1\<rparr> else x\<lparr>hi := hi x OR push_bit (i - 128) 1\<rparr>)"

text \<open>The derived \<open>Ord\<close>: lexicographic on \<open>(hi, lo)\<close>.\<close>

definition u256_ge :: "u256 \<Rightarrow> u256 \<Rightarrow> bool" where
  "u256_ge x y \<longleftrightarrow> hi x > hi y \<or> hi x = hi y \<and> lo x \<ge> lo y"

definition u256_wrapping_sub :: "u256 \<Rightarrow> u256 \<Rightarrow> u256" where
  "u256_wrapping_sub x rhs =
     (let borrow = lo x < lo rhs
      in \<lparr>hi = hi x - hi rhs - of_bool borrow, lo = lo x - lo rhs\<rparr>)"

definition u256_complement :: "u256 \<Rightarrow> u256" where
  "u256_complement x = \<lparr>hi = NOT (hi x), lo = NOT (lo x)\<rparr>"

definition u256_checked_add_one :: "u256 \<Rightarrow> u256 option" where
  "u256_checked_add_one x =
     (let l = lo x + 1; carry = (lo x = - 1)
      in if carry then map_option (\<lambda>h. \<lparr>hi = h, lo = l\<rparr>) (checked_add (hi x) 1)
         else Some \<lparr>hi = hi x, lo = l\<rparr>)"

definition u256_is_zero :: "u256 \<Rightarrow> bool" where
  "u256_is_zero x \<longleftrightarrow> hi x = 0 \<and> lo x = 0"

text \<open>One iteration of the long division, on \<open>(quotient, remainder)\<close>.\<close>

definition u256_div_step :: "u256 \<Rightarrow> u256 \<Rightarrow> nat \<Rightarrow> u256 \<times> u256 \<Rightarrow> u256 \<times> u256" where
  "u256_div_step x divisor i qr =
     (case qr of (q, remainder) \<Rightarrow>
        let carry = drop_bit 127 (hi remainder) \<noteq> 0;
            r = u256_shl remainder 1;
            r = (if u256_bit x i then r\<lparr>lo := lo r OR 1\<rparr> else r)
        in if carry \<or> u256_ge r divisor
           then (u256_set_bit q i, u256_wrapping_sub r divisor)
           else (q, r))"

definition u256_div :: "u256 \<Rightarrow> u256 \<Rightarrow> u256" where
  "u256_div x divisor = fst (fold (u256_div_step x divisor) (rev [0..<256]) (u256_ZERO, u256_ZERO))"

definition u256_target :: "u32 \<Rightarrow> u32 \<Rightarrow> u256" where
  "u256_target mantissa exponent = u256_shl \<lparr>hi = 0, lo = ucast mantissa\<rparr> (unat (8 * exponent))"

text \<open>\<open>Option<NonZeroU128>\<close> is an option whose value is shown to be non-zero.\<close>

definition u256_work :: "u256 \<Rightarrow> u128 option" where
  "u256_work x =
     (case u256_checked_add_one x of
        None \<Rightarrow> None
      | Some divisor \<Rightarrow>
          (let q = u256_div (u256_complement x) divisor
           in if hi q \<noteq> 0 then None else checked_add 1 (lo q)))"

subsection \<open>Values\<close>

definition val256 :: "u256 \<Rightarrow> nat" where
  "val256 x = unat (hi x) * 2 ^ 128 + unat (lo x)"

text \<open>The two halves as one 256-bit word, for bitwise arguments.\<close>

definition word256 :: "u256 \<Rightarrow> 256 word" where
  "word256 x = push_bit 128 (ucast (hi x)) OR ucast (lo x)"

lemma bit_word256:
  "bit (word256 x) k \<longleftrightarrow> (if k < 128 then bit (lo x) k else bit (hi x) (k - 128))"
  by (auto simp: word256_def bit_or_iff bit_push_bit_iff bit_ucast_iff
      dest: bit_imp_le_length)

lemma unat_word256: "unat (word256 x) = val256 x"
proof -
  have "push_bit 128 (ucast (hi x) :: 256 word) AND ucast (lo x) = 0"
    by (rule bit_word_eqI)
      (auto simp: bit_and_iff bit_push_bit_iff bit_ucast_iff dest: bit_imp_le_length)
  then have "word256 x = push_bit 128 (ucast (hi x)) + ucast (lo x)"
    by (simp add: word256_def disjunctive_add_eq_or)
  moreover have "unat (push_bit 128 (ucast (hi x)) :: 256 word) = unat (hi x) * 2 ^ 128"
    using unat_less_exp [of "hi x"]
    by (simp add: push_bit_eq_mult unat_word_ariths unat_ucast_up mult.commute)
  moreover have "unat (hi x) * 2 ^ 128 + unat (lo x) < 2 ^ 256"
    using unat_less_exp [of "hi x"] unat_less_exp [of "lo x"] by simp
  ultimately show ?thesis
    by (simp add: val256_def unat_word_ariths unat_ucast_up)
qed

lemma val256_less: "val256 x < 2 ^ 256"
  using unat_less_exp [of "word256 x"] by (simp add: unat_word256)

lemma word256_inject: "word256 x = word256 y \<longleftrightarrow> x = y"
proof
  assume eq: "word256 x = word256 y"
  have "lo x = lo y"
  proof (rule bit_word_eqI)
    fix n
    assume "n < LENGTH(128)"
    then show "bit (lo x) n = bit (lo y) n"
      using bit_word256 [of x n] bit_word256 [of y n] eq by simp
  qed
  moreover have "hi x = hi y"
  proof (rule bit_word_eqI)
    fix n
    show "bit (hi x) n = bit (hi y) n"
      using bit_word256 [of x "n + 128"] bit_word256 [of y "n + 128"] eq by simp
  qed
  ultimately show "x = y" by simp
qed simp

lemma val256_inject [simp]: "val256 x = val256 y \<longleftrightarrow> x = y"
  by (metis unat_word256 word256_inject word_unat_eq_iff)

lemma val256_ZERO [simp]: "val256 u256_ZERO = 0"
  by (simp add: val256_def u256_ZERO_def)

lemma word256_shl: "word256 (u256_shl x n) = push_bit n (word256 x)"
proof (rule bit_word_eqI)
  fix k
  assume "k < LENGTH(256)"
  then have k: "k < 256" by simp
  have lo_out: "\<not> bit (lo x) m" if "128 \<le> m" for m
    using that bit_imp_le_length [of "lo x" m] by auto
  consider "n = 0" | "0 < n" "n \<le> 127" | "n = 128" | "128 < n" "n \<le> 255" | "255 < n"
    by linarith
  then show "bit (word256 (u256_shl x n)) k = bit (push_bit n (word256 x)) k"
  proof cases
    case 2
    then have "u256_shl x n =
      \<lparr>hi = push_bit n (hi x) OR drop_bit (128 - n) (lo x), lo = push_bit n (lo x)\<rparr>"
      by (simp add: u256_shl_def)
    then have "bit (word256 (u256_shl x n)) k \<longleftrightarrow>
        (if k < 128 then n \<le> k \<and> bit (lo x) (k - n)
         else n \<le> k - 128 \<and> bit (hi x) (k - 128 - n) \<or> bit (lo x) (k - n))"
      using k 2 by (auto simp: bit_word256 bit_or_iff bit_push_bit_iff bit_drop_bit_eq)
    also have "\<dots> \<longleftrightarrow> n \<le> k \<and> bit (word256 x) (k - n)"
      using 2 lo_out [of "k - n"] by (auto simp: bit_word256 add.commute [of n 128])
    finally show ?thesis
      using k by (simp add: bit_push_bit_iff)
  next
    case 4
    then have "u256_shl x n = \<lparr>hi = push_bit (n - 128) (lo x), lo = 0\<rparr>"
      by (simp add: u256_shl_def)
    then show ?thesis
      using k 4 lo_out by (auto simp: bit_word256 bit_push_bit_iff)
  qed (use k lo_out in \<open>auto simp: u256_shl_def u256_ZERO_def bit_word256 bit_push_bit_iff\<close>)
qed

lemma val256_shl: "val256 (u256_shl x n) = (val256 x * 2 ^ n) mod 2 ^ 256"
proof -
  have "val256 (u256_shl x n) = unat (push_bit n (word256 x))"
    by (simp add: word256_shl flip: unat_word256)
  also have "\<dots> = (val256 x * 2 ^ n) mod 2 ^ 256"
    by (simp only: unsigned_push_bit_eq unat_word256 take_bit_eq_mod push_bit_nat_def) simp
  finally show ?thesis .
qed

lemma u256_bit_word: "u256_bit x i \<longleftrightarrow> bit (word256 x) i"
  by (simp add: u256_bit_def bit_word256 flip: bit_iff_and_drop_bit_eq_1)

lemma u256_bit_iff: "u256_bit x i \<longleftrightarrow> odd (val256 x div 2 ^ i)"
proof -
  have "u256_bit x i \<longleftrightarrow> bit (val256 x) i"
    unfolding u256_bit_word
    by (simp add: bit_unsigned_iff flip: unat_word256)
  then show ?thesis
    by (simp add: bit_iff_odd)
qed

lemma dvd_less_power:
  fixes v :: nat
  assumes "2 ^ j dvd v" and "v < 2 ^ m" and "j \<le> m"
  shows "v + 2 ^ j \<le> 2 ^ m"
proof -
  obtain k where k: "v = 2 ^ j * k"
    using assms(1) by (auto elim: dvdE)
  have m: "(2::nat) ^ m = 2 ^ j * 2 ^ (m - j)"
    using assms(3) by (simp flip: power_add)
  with assms(2) k have "k < 2 ^ (m - j)"
    by simp
  then have "2 ^ j * (k + 1) \<le> 2 ^ j * 2 ^ (m - j)"
    by (intro mult_le_mono2) simp
  then show ?thesis
    by (simp add: k m)
qed

lemma val256_set_bit:
  assumes i: "i < 256" and dvd: "2 ^ Suc i dvd val256 x"
  shows "val256 (u256_set_bit x i) = val256 x + 2 ^ i"
proof -
  have "word256 (u256_set_bit x i) = word256 x OR push_bit i 1"
    by (rule bit_word_eqI)
      (use i in \<open>auto simp: u256_set_bit_def bit_word256 bit_or_iff bit_exp_iff\<close>)
  moreover have "\<not> bit (word256 x) i"
  proof -
    from dvd have "even (val256 x div 2 ^ i)"
      by (metis dvd_mult_imp_div power_Suc)
    then show ?thesis
      by (simp add: u256_bit_iff flip: u256_bit_word)
  qed
  then have "word256 x AND push_bit i 1 = 0"
    by (auto intro!: bit_word_eqI simp: bit_and_iff bit_exp_iff)
  ultimately have "word256 (u256_set_bit x i) = word256 x + push_bit i 1"
    by (simp add: disjunctive_add_eq_or)
  moreover have "val256 x + 2 ^ i < 2 ^ 256"
  proof -
    have "val256 x + 2 ^ i < val256 x + 2 ^ Suc i" by simp
    also have "\<dots> \<le> 2 ^ 256"
      using i by (intro dvd_less_power [OF dvd val256_less]) simp
    finally show ?thesis .
  qed
  moreover have "unat (push_bit i 1 :: 256 word) = 2 ^ i"
    using i power_strict_increasing [of i 256 "2::nat"]
    by (subst unsigned_push_bit_eq) (simp add: take_bit_nat_eq_self)
  ultimately show ?thesis
    by (simp add: unat_word_ariths flip: unat_word256)
qed

lemma u256_ge_iff: "u256_ge x y \<longleftrightarrow> val256 y \<le> val256 x"
proof -
  have "unat (lo x) < 2 ^ 128" "unat (lo y) < 2 ^ 128"
    using unat_less_exp [of "lo x"] unat_less_exp [of "lo y"] by simp_all
  then show ?thesis
    unfolding u256_ge_def val256_def word_less_nat_alt word_le_nat_alt word_unat_eq_iff
    by auto
qed


lemma uint_eq_int: "uint w = int (unat w)"
  by simp

lemma int_val256: "int (val256 x) = uint (hi x) * 2 ^ 128 + uint (lo x)"
  by (simp add: val256_def)

lemma val256_wrapping_sub:
  assumes "val256 y \<le> n" and "n < val256 y + 2 ^ 256" and "val256 x = n mod 2 ^ 256"
  shows "val256 (u256_wrapping_sub x y) = n - val256 y"
proof -
  let ?z = "u256_wrapping_sub x y"
  define b :: int where "b = of_bool (lo x < lo y)"
  define h where "h = uint (hi x) - uint (hi y) - b"
  have lo: "uint (lo ?z) = uint (lo x) - uint (lo y) + b * 2 ^ 128"
    by (auto simp: u256_wrapping_sub_def Let_def b_def uint_sub_if' word_less_def)
  have hi: "uint (hi ?z) = h mod 2 ^ 128"
    by (auto simp: u256_wrapping_sub_def Let_def b_def h_def uint_word_ariths mod_simps)
  have "(h mod 2 ^ 128) * 2 ^ 128 = (h * 2 ^ 128) mod 2 ^ 256"
    using mult_mod_left [of h "2 ^ 128" "2 ^ 128"] by simp
  then have "int (val256 ?z) mod 2 ^ 256 = (h * 2 ^ 128 + uint (lo ?z)) mod 2 ^ 256"
    by (simp add: int_val256 hi mod_simps)
  also have "h * 2 ^ 128 + uint (lo ?z) = int (val256 x) - int (val256 y)"
    by (simp add: int_val256 lo h_def algebra_simps)
  also have "\<dots> mod 2 ^ 256 = (int n - int (val256 y)) mod 2 ^ 256"
    using assms(3) by (simp add: zmod_int mod_simps)
  finally have eq: "int (val256 ?z) mod 2 ^ 256 = (int n - int (val256 y)) mod 2 ^ 256" .
  have "int (val256 ?z) mod 2 ^ 256 = int (val256 ?z)"
    by (intro mod_pos_pos_trivial) (use val256_less [of ?z] in simp_all)
  moreover have "(int n - int (val256 y)) mod 2 ^ 256 = int n - int (val256 y)"
    using assms(1,2) by (intro mod_pos_pos_trivial) auto
  ultimately show ?thesis
    using assms(1) eq by linarith
qed

lemma even_unat_iff: "even (unat w) \<longleftrightarrow> even w" for w :: "'a::len word"
  using bit_unsigned_iff [of w 0, where 'a = nat] by (simp add: bit_0)

lemma val256_or_one:
  assumes "even (val256 x)"
  shows "val256 (x\<lparr>lo := lo x OR 1\<rparr>) = val256 x + 1"
proof -
  have "even (unat (lo x))"
    using assms by (simp add: val256_def)
  then have "even (lo x)"
    by (simp add: even_unat_iff)
  have "unat (lo x) + 1 \<noteq> 2 ^ 128"
  proof
    assume "unat (lo x) + 1 = 2 ^ 128"
    then have "even (unat (lo x) + 1)" by simp
    with \<open>even (unat (lo x))\<close> show False by simp
  qed
  then have "unat (lo x) + 1 < 2 ^ 128"
    using unat_less_exp [of "lo x"] by simp
  then have "unat (lo x OR 1) = unat (lo x) + 1"
    using \<open>even (lo x)\<close> by (simp add: or_one_eq unat_word_ariths)
  then show ?thesis
    by (simp add: val256_def)
qed

lemma div_mod_double:
  fixes a D c :: nat
  assumes "0 < D" and "c \<le> 1"
  defines "n \<equiv> 2 * (a mod D) + c"
  shows "(2 * a + c) div D = 2 * (a div D) + of_bool (D \<le> n)"
    and "(2 * a + c) mod D = (if D \<le> n then n - D else n)"
proof -
  have "a mod D < D"
    using assms(1) by simp
  then have n: "n < 2 * D"
    using assms(2) unfolding n_def by linarith
  have nd: "n div D = of_bool (D \<le> n)" and nm: "n mod D = (if D \<le> n then n - D else n)"
    using n assms(1) by (auto simp: div_eq_0_iff le_div_geq le_mod_geq)
  have eq: "2 * a + c = n + 2 * (a div D) * D"
  proof -
    have "2 * a = 2 * (a div D * D + a mod D)" by simp
    then show ?thesis by (simp only: n_def distrib_left mult.assoc add.commute add.left_commute)
  qed
  show "(2 * a + c) div D = 2 * (a div D) + of_bool (D \<le> n)"
    unfolding eq using assms(1) nd by simp
  show "(2 * a + c) mod D = (if D \<le> n then n - D else n)"
    unfolding eq using nm by simp
qed

lemma top_bit_iff: "drop_bit 127 (hi x) \<noteq> 0 \<longleftrightarrow> 2 ^ 255 \<le> val256 x"
proof -
  have "unat (drop_bit 127 (hi x)) = unat (hi x) div 2 ^ 127"
    by (subst unat_drop_bit_eq) (simp add: drop_bit_eq_div)
  then have "drop_bit 127 (hi x) \<noteq> 0 \<longleftrightarrow> unat (hi x) div 2 ^ 127 \<noteq> 0"
    by (metis unat_0_iff)
  also have "\<dots> \<longleftrightarrow> 2 ^ 127 \<le> unat (hi x)"
    by (simp add: div_eq_0_iff linorder_not_less)
  also have "\<dots> \<longleftrightarrow> 2 ^ 255 \<le> val256 x"
    using unat_less_exp [of "lo x"] by (auto simp: val256_def)
  finally show ?thesis .
qed

lemma u256_div_step_inv:
  assumes D: "0 < val256 d" and i: "i < 256"
    and q: "val256 q = val256 x div 2 ^ Suc i div val256 d * 2 ^ Suc i"
    and r: "val256 r = val256 x div 2 ^ Suc i mod val256 d"
    and step: "u256_div_step x d i (q, r) = (q', r')"
  shows "val256 q' = val256 x div 2 ^ i div val256 d * 2 ^ i
    \<and> val256 r' = val256 x div 2 ^ i mod val256 d"
proof -
  let ?D = "val256 d" and ?a = "val256 x div 2 ^ Suc i"
  define c :: nat where "c = of_bool (u256_bit x i)"
  define n where "n = 2 * (?a mod ?D) + c"
  define r1 where "r1 = u256_shl r 1"
  define r2 where "r2 = (if u256_bit x i then r1\<lparr>lo := lo r1 OR 1\<rparr> else r1)"
  have c: "c \<le> 1" by (simp add: c_def)
  have "y = 2 * (y div 2) + of_bool (odd y)" for y :: nat
    by (cases "even y") (auto simp: odd_two_times_div_two_succ)
  then have half: "val256 x div 2 ^ i = 2 * ?a + c"
    by (simp add: c_def u256_bit_iff power_Suc2 div_mult2_eq del: power_Suc)
  have r1: "val256 r1 = 2 * (?a mod ?D) mod 2 ^ 256"
    by (simp add: r1_def val256_shl r mult.commute)
  then have "even (val256 r1)"
    by (simp add: dvd_mod)
  have r2: "val256 r2 = n mod 2 ^ 256"
  proof (cases "u256_bit x i")
    case True
    have "Suc (2 * (?a mod ?D) mod 2 ^ 256) \<noteq> 2 ^ 256"
    proof
      assume "Suc (2 * (?a mod ?D) mod 2 ^ 256) = 2 ^ 256"
      then have "even (Suc (val256 r1))" by (simp add: r1)
      with \<open>even (val256 r1)\<close> show False by simp
    qed
    moreover have "val256 r2 = 2 * (?a mod ?D) mod 2 ^ 256 + 1"
      using True r1 val256_or_one [OF \<open>even (val256 r1)\<close>] by (simp add: r2_def)
    ultimately show ?thesis
      using True by (simp add: n_def c_def mod_Suc)
  next
    case False
    then show ?thesis using r1 by (simp add: r2_def n_def c_def)
  qed
  have lt: "n < 2 * ?D"
    using mod_less_divisor [OF D, of ?a] c unfolding n_def by linarith
  have carry: "drop_bit 127 (hi r) \<noteq> 0 \<longleftrightarrow> 2 ^ 256 \<le> n"
    using c unfolding top_bit_iff r n_def by auto
  have ge: "(drop_bit 127 (hi r) \<noteq> 0 \<or> u256_ge r2 d) \<longleftrightarrow> ?D \<le> n"
    using carry r2 val256_less [of d] by (cases "2 ^ 256 \<le> n") (auto simp: u256_ge_iff)
  have qr: "(q', r') = (if ?D \<le> n then (u256_set_bit q i, u256_wrapping_sub r2 d) else (q, r2))"
    using step [unfolded u256_div_step_def Let_def prod.case, folded r1_def, folded r2_def] ge
    by (auto split: if_splits)
  note dm = div_mod_double [OF D c, of ?a, folded n_def half]
  show ?thesis
  proof (cases "?D \<le> n")
    case True
    have "val256 (u256_wrapping_sub r2 d) = n - ?D"
      using True lt val256_less [of d] by (intro val256_wrapping_sub r2) simp_all
    moreover have "val256 (u256_set_bit q i) = val256 q + 2 ^ i"
      using q i by (intro val256_set_bit) simp_all
    ultimately show ?thesis
      using True qr q dm by (simp add: algebra_simps)
  next
    case False
    then have "n < 2 ^ 256"
      using val256_less [of d] by simp
    then show ?thesis
      using False qr q dm r2 by simp
  qed
qed

lemma u256_div_loop_inv:
  assumes D: "0 < val256 d" and "n \<le> 256"
  shows "\<exists>q r. fold (u256_div_step x d) (rev [n..<256]) (u256_ZERO, u256_ZERO) = (q, r)
    \<and> val256 q = val256 x div 2 ^ n div val256 d * 2 ^ n
    \<and> val256 r = val256 x div 2 ^ n mod val256 d"
  using assms(2)
proof (induction "256 - n" arbitrary: n)
  case 0
  then have "n = 256" by simp
  then show ?case
    using val256_less [of x] by simp
next
  case (Suc m)
  then have n: "n < 256" and m: "m = 256 - Suc n" by simp_all
  from Suc.hyps(1) [OF m] n obtain q r where
    loop: "fold (u256_div_step x d) (rev [Suc n..<256]) (u256_ZERO, u256_ZERO) = (q, r)"
    and q: "val256 q = val256 x div 2 ^ Suc n div val256 d * 2 ^ Suc n"
    and r: "val256 r = val256 x div 2 ^ Suc n mod val256 d"
    by auto
  obtain q' r' where step: "u256_div_step x d n (q, r) = (q', r')"
    by fastforce
  have "rev [n..<256] = rev [Suc n..<256] @ [n]"
    using n by (subst upt_rec) simp
  then have "fold (u256_div_step x d) (rev [n..<256]) (u256_ZERO, u256_ZERO) = (q', r')"
    by (simp only: fold_append comp_apply loop fold.simps id_apply step)
  then show ?case
    using u256_div_step_inv [OF D n q r step] by blast
qed

lemma val256_div: "val256 d \<noteq> 0 \<Longrightarrow> val256 (u256_div x d) = val256 x div val256 d"
  using u256_div_loop_inv [of d 0 x] by (auto simp: u256_div_def)

text \<open>C8. The restoring long division over two 128-bit halves is exact division: for every
  dividend and every non-zero divisor the 256-iteration loop returns the floor of the
  quotient, including divisors above \<open>2^255\<close>, where the doubled remainder does not fit 256
  bits.\<close>

theorem u256_div_correct:
  assumes "val256 d \<noteq> 0"
  shows "val256 (u256_div x d) = val256 x div val256 d"
  using assms by (rule val256_div)

theorem u256_div_correct_witness:
  "val256 (u256_div \<lparr>hi = - 1, lo = - 1\<rparr> \<lparr>hi = 2 ^ 127, lo = 1\<rparr>) = 1"
  using u256_div_correct [of "\<lparr>hi = 2 ^ 127, lo = 1\<rparr>" "\<lparr>hi = - 1, lo = - 1\<rparr>"]
  by (simp add: val256_def unsigned_minus_1_eq_mask mask_eq_exp_minus_1)

lemma unat_not: "unat (NOT w) = 2 ^ LENGTH('a) - 1 - unat w" for w :: "'a::len word"
proof -
  have "NOT w = - 1 - w"
    by (simp add: not_eq_complement)
  then show ?thesis
    using unat_sub [of w "- 1"] by (simp add: unsigned_minus_1_eq_mask mask_eq_exp_minus_1)
qed

lemma val256_complement: "val256 (u256_complement x) = 2 ^ 256 - 1 - val256 x"
  using unat_less_exp [of "hi x"] unat_less_exp [of "lo x"]
  by (simp add: val256_def u256_complement_def unat_not)

lemma val256_lo: "unat (lo x) = val256 x mod 2 ^ 128"
  and val256_hi: "unat (hi x) = val256 x div 2 ^ 128"
  using unat_less_exp [of "lo x"] by (simp_all add: val256_def)

lemma val256_surj: "n < 2 ^ 256 \<Longrightarrow> \<exists>x. val256 x = n"
  by (rule exI [of _ "\<lparr>hi = of_nat (n div 2 ^ 128), lo = of_nat (n mod 2 ^ 128)\<rparr>"])
    (simp add: val256_def unat_of_nat less_mult_imp_div_less)

lemma u256_checked_add_one_Some:
  "u256_checked_add_one x = Some y \<longleftrightarrow> val256 y = val256 x + 1"
proof (cases "lo x = - 1")
  case True
  then have lo: "unat (lo x) = 2 ^ 128 - 1"
    by (simp add: unsigned_minus_1_eq_mask mask_eq_exp_minus_1)
  have x: "val256 x + 1 = (unat (hi x) + 1) * 2 ^ 128"
    by (simp add: val256_def lo)
  have "unat (hi y) = unat (hi x) + 1 \<and> unat (lo y) = 0 \<longleftrightarrow> val256 y = val256 x + 1"
  proof
    assume "val256 y = val256 x + 1"
    then have "val256 y = (unat (hi x) + 1) * 2 ^ 128" by (simp only: x)
    then show "unat (hi y) = unat (hi x) + 1 \<and> unat (lo y) = 0"
      by (simp add: val256_lo val256_hi [of y])
  next
    assume "unat (hi y) = unat (hi x) + 1 \<and> unat (lo y) = 0"
    then have "val256 y = (unat (hi x) + 1) * 2 ^ 128" by (simp add: val256_def)
    then show "val256 y = val256 x + 1" by (simp only: x)
  qed
  moreover have "u256_checked_add_one x = Some y \<longleftrightarrow> checked_add (hi x) 1 = Some (hi y) \<and> lo y = 0"
    using True by (cases y) (auto simp: u256_checked_add_one_def)
  ultimately show ?thesis
    by (simp add: checked_add_eq_Some unat_0_iff)
next
  case False
  then have "unat (lo x) \<noteq> unat (- 1 :: u128)"
    by (simp add: word_unat_eq_iff)
  then have "unat (lo x) + 1 < 2 ^ 128"
    using unat_less_exp [of "lo x"] by (simp add: unsigned_minus_1_eq_mask mask_eq_exp_minus_1)
  then have "val256 \<lparr>hi = hi x, lo = lo x + 1\<rparr> = val256 x + 1"
    by (simp add: val256_def unat_word_ariths)
  then show ?thesis
    using False by (auto simp: u256_checked_add_one_def simp flip: val256_inject)
qed

lemma div_exp_pred:
  fixes n :: nat
  assumes "n + 1 \<le> M"
  shows "M div (n + 1) = (M - 1 - n) div (n + 1) + 1"
  using assms le_div_geq [of "n + 1" M] by simp

lemma u256_work_Some:
  "u256_work x = Some w \<longleftrightarrow> val256 x + 1 < 2 ^ 256 \<and> unat w = 2 ^ 256 div (val256 x + 1)"
proof (cases "u256_checked_add_one x")
  case None
  have "\<not> val256 x + 1 < 2 ^ 256"
  proof
    assume "val256 x + 1 < 2 ^ 256"
    then obtain y where "val256 y = val256 x + 1"
      using val256_surj by blast
    with None show False
      by (metis option.distinct(1) u256_checked_add_one_Some)
  qed
  with None show ?thesis
    by (simp add: u256_work_def)
next
  case (Some d)
  then have d: "val256 d = val256 x + 1" and lt: "val256 x + 1 < 2 ^ 256"
    using val256_less [of d] by (simp_all add: u256_checked_add_one_Some)
  define q where "q = u256_div (u256_complement x) d"
  have q: "val256 q + 1 = 2 ^ 256 div (val256 x + 1)"
    using div_exp_pred [of "val256 x" "2 ^ 256"] lt
    by (simp add: q_def val256_div d val256_complement)
  have "hi q \<noteq> 0 \<longleftrightarrow> 2 ^ 128 \<le> val256 q"
    using unat_less_exp [of "lo q"] by (auto simp: val256_def unat_0_iff [symmetric])
  moreover have "unat w < 2 ^ 128"
    using unat_less_exp [of w] by simp
  moreover have "hi q = 0 \<Longrightarrow> val256 q = unat (lo q)"
    by (simp add: val256_def)
  ultimately show ?thesis
    using Some lt q by (auto simp: u256_work_def checked_add_eq_Some simp flip: q_def)
qed

end
