(* ===== verification/Zaino_Difficulty.thy ===== *)
theory Zaino_Difficulty
  imports Zaino_Primitives Zaino_U256
begin

text \<open>
  The proof-of-work pipeline of \<^verbatim>\<open>zaino-primitives\<close> on top of the 256-bit helper: the
  compact \<open>nBits\<close> encoding (\<^verbatim>\<open>compact_difficulty.rs\<close>) and the two work quantities
  (\<^verbatim>\<open>work/\<close>). The acceptance rules are stated against the protocol's own reading of
  \<open>nBits\<close> as \<open>mantissa * 256^(exponent - 3)\<close>.
\<close>

section \<open>Compact difficulty\<close>

datatype single_block_work = SingleBlockWork (sbw_raw: u128)

datatype compact_difficulty_error =
    NegativeTarget u32 | ZeroTarget u32 | OverflowTarget u32 | WorkOverWidth u32

record compact_difficulty =
  cd_bits :: u32
  cd_work :: single_block_work

definition PRECISION :: nat where "PRECISION = 24"
definition SIGN_BIT :: u32 where "SIGN_BIT = push_bit (PRECISION - 1) 1"
definition UNSIGNED_MANTISSA_MASK :: u32 where "UNSIGNED_MANTISSA_MASK = SIGN_BIT - 1"
definition EXPONENT_OFFSET :: u32 where "EXPONENT_OFFSET = 3"

text \<open>The normalisation of \<open>expand\<close>: the mantissa and exponent the target is built from.\<close>

definition normalise :: "u32 \<Rightarrow> u32 \<Rightarrow> u32 \<Rightarrow> compact_difficulty_error + u32 \<times> u32" where
  "normalise bits mantissa raw_exponent =
     (if raw_exponent \<ge> EXPONENT_OFFSET + 32 then Inl (OverflowTarget bits)
      else if raw_exponent = EXPONENT_OFFSET + 31 then
        (if mantissa > 0xff then Inl (OverflowTarget bits) else Inr (push_bit 16 mantissa, 29))
      else if raw_exponent = EXPONENT_OFFSET + 30 then
        (if mantissa > 0xffff then Inl (OverflowTarget bits) else Inr (push_bit 8 mantissa, 29))
      else if raw_exponent < EXPONENT_OFFSET then
        Inr (drop_bit (unat (8 * (EXPONENT_OFFSET - raw_exponent))) mantissa, 0)
      else Inr (mantissa, raw_exponent - EXPONENT_OFFSET))"

definition expand :: "u32 \<Rightarrow> compact_difficulty_error + u256" where
  "expand bits =
     (if bits AND SIGN_BIT = SIGN_BIT then Inl (NegativeTarget bits)
      else bindE (normalise bits (bits AND UNSIGNED_MANTISSA_MASK) (drop_bit PRECISION bits))
        (\<lambda>(mantissa, exponent).
           let target = u256_target mantissa exponent
           in if u256_is_zero target then Inl (ZeroTarget bits) else Inr target))"

definition try_from_bits :: "u32 \<Rightarrow> compact_difficulty_error + compact_difficulty" where
  "try_from_bits bits =
     bindE (expand bits) (\<lambda>target.
       bindE (ok_or (u256_work target) (WorkOverWidth bits)) (\<lambda>work.
         Inr \<lparr>cd_bits = bits, cd_work = SingleBlockWork work\<rparr>))"

definition try_from_be_bytes :: "u8 list \<Rightarrow> compact_difficulty_error + compact_difficulty" where
  "try_from_be_bytes bytes = try_from_bits (from_be bytes)"

text \<open>
  The reading of \<open>nBits\<close> in the protocol specification: a sign bit, a 23-bit magnitude and
  an exponent over base 256 offset by three.
\<close>

definition nbits_negative :: "u32 \<Rightarrow> bool" where
  "nbits_negative bits \<longleftrightarrow> bit bits 23"

definition nbits_exponent :: "u32 \<Rightarrow> nat" where
  "nbits_exponent bits = unat bits div 2 ^ 24"

definition to_target :: "u32 \<Rightarrow> nat" where
  "to_target bits =
     (let m = unat bits mod 2 ^ 23; e = nbits_exponent bits
      in if e < 3 then m div 256 ^ (3 - e) else m * 256 ^ (e - 3))"

lemma sign_bit_iff: "bits AND SIGN_BIT = SIGN_BIT \<longleftrightarrow> nbits_negative bits"
proof -
  have "bits AND push_bit k 1 = push_bit k 1 \<longleftrightarrow> bit bits k" if "k < 32" for k
    using that by (auto simp: bit_eq_iff [where ?'a = u32] bit_simps)
  from this [of 23] show ?thesis
    by (simp add: SIGN_BIT_def PRECISION_def nbits_negative_def)
qed

lemma unat_mantissa: "unat (bits AND UNSIGNED_MANTISSA_MASK) = unat bits mod 2 ^ 23"
proof -
  have "UNSIGNED_MANTISSA_MASK = mask 23"
    by (simp add: UNSIGNED_MANTISSA_MASK_def SIGN_BIT_def PRECISION_def mask_eq_exp_minus_1)
  then have eq: "bits AND UNSIGNED_MANTISSA_MASK = take_bit 23 bits"
    by (simp only: take_bit_eq_mask)
  have "unat (bits AND UNSIGNED_MANTISSA_MASK) = take_bit 23 (unat bits)"
    unfolding eq by (rule unsigned_take_bit_eq)
  then show ?thesis
    by (simp add: take_bit_nat_def)
qed

lemma unat_exponent: "unat (drop_bit PRECISION bits) = nbits_exponent bits" for bits :: u32
  by (subst unat_drop_bit_eq) (simp add: nbits_exponent_def PRECISION_def drop_bit_eq_div)

lemma val256_target:
  assumes "unat e \<le> 29" and "unat m * 256 ^ unat e < 2 ^ 256"
  shows "val256 (u256_target m e) = unat m * 256 ^ unat e"
proof -
  have "unat (8 * e) = 8 * unat e"
    using assms(1) by (simp add: unat_word_ariths)
  moreover have "(2::nat) ^ (8 * unat e) = 256 ^ unat e"
    by (simp add: power_mult)
  moreover have "val256 \<lparr>hi = 0, lo = ucast m\<rparr> = unat m"
    by (simp add: val256_def unat_ucast_up)
  ultimately show ?thesis
    using assms(2) by (simp add: u256_target_def val256_shl)
qed

lemma normalise_Inr:
  fixes m e :: u32
  assumes m: "unat m < 2 ^ 23"
  defines "T \<equiv> (if unat e < 3 then unat m div 256 ^ (3 - unat e) else unat m * 256 ^ (unat e - 3))"
  shows "(\<exists>m' e'. normalise bits m e = Inr (m', e') \<and> unat e' \<le> 29
            \<and> unat m' * 256 ^ unat e' = T) \<and> unat e < 35 \<and> T < 2 ^ 256
         \<or> normalise bits m e = Inl (OverflowTarget bits) \<and> (35 \<le> unat e \<or> 2 ^ 256 \<le> T)"
proof -
  have unat_eq: "e = w \<longleftrightarrow> unat e = unat w" for w by (simp add: word_unat_eq_iff)
  consider "35 \<le> unat e" | "unat e = 34" | "unat e = 33" | "unat e < 3" | "3 \<le> unat e" "unat e \<le> 32"
    by linarith
  then show ?thesis
  proof cases
    case 1
    then show ?thesis
      by (simp add: normalise_def EXPONENT_OFFSET_def word_le_nat_alt)
  next
    case 2
    then have e: "e = 34" by (simp add: unat_eq)
    show ?thesis
    proof (cases "unat m \<le> 255")
      case True
      then have "unat (push_bit 16 m) = unat m * 2 ^ 16"
        by (simp add: push_bit_eq_mult unat_word_ariths)
      with True show ?thesis
        by (simp add: normalise_def EXPONENT_OFFSET_def e T_def word_less_nat_alt)
    next
      case False
      then show ?thesis
        by (simp add: normalise_def EXPONENT_OFFSET_def e T_def word_less_nat_alt)
    qed
  next
    case 3
    then have e: "e = 33" by (simp add: unat_eq)
    show ?thesis
    proof (cases "unat m \<le> 65535")
      case True
      then have "unat (push_bit 8 m) = unat m * 2 ^ 8"
        by (simp add: push_bit_eq_mult unat_word_ariths)
      with True show ?thesis
        by (simp add: normalise_def EXPONENT_OFFSET_def e T_def word_less_nat_alt)
    next
      case False
      then show ?thesis
        by (simp add: normalise_def EXPONENT_OFFSET_def e T_def word_less_nat_alt)
    qed
  next
    case 4
    then have "unat (8 * (3 - e)) = 8 * (3 - unat e)"
      by (subst unat_word_ariths) (simp add: unat_sub word_le_nat_alt)
    moreover have "unat (drop_bit (8 * (3 - unat e)) m) = unat m div 256 ^ (3 - unat e)"
      by (subst unat_drop_bit_eq) (simp add: drop_bit_eq_div power_mult)
    moreover have "unat m div 256 ^ (3 - unat e) < 2 ^ 256"
      using m by (intro le_less_trans [OF div_le_dividend]) simp
    ultimately show ?thesis
      using 4 by (simp add: normalise_def EXPONENT_OFFSET_def T_def word_less_nat_alt
          word_le_nat_alt unat_eq)
  next
    case 5
    then have "unat (e - 3) = unat e - 3"
      by (subst unat_sub) (simp_all add: word_le_nat_alt)
    moreover have "unat m * 256 ^ (unat e - 3) \<le> 2 ^ 23 * 256 ^ 29"
      using m 5 by (intro mult_le_mono power_increasing) simp_all
    then have "unat m * 256 ^ (unat e - 3) < 2 ^ 256"
      by (rule le_less_trans) simp
    moreover have "unat e - 3 \<le> 29"
      using 5 by simp
    ultimately show ?thesis
      using 5 by (simp add: normalise_def EXPONENT_OFFSET_def T_def word_less_nat_alt
          word_le_nat_alt unat_eq)
  qed
qed

lemma expand_cases:
  assumes "\<not> nbits_negative bits"
  shows "35 \<le> nbits_exponent bits \<or> 2 ^ 256 \<le> to_target bits \<Longrightarrow> expand bits = Inl (OverflowTarget bits)"
    and "nbits_exponent bits < 35 \<Longrightarrow> to_target bits = 0 \<Longrightarrow> expand bits = Inl (ZeroTarget bits)"
    and "0 < to_target bits \<Longrightarrow> to_target bits < 2 ^ 256 \<Longrightarrow>
      \<exists>t. expand bits = Inr t \<and> val256 t = to_target bits"
proof -
  let ?m = "bits AND UNSIGNED_MANTISSA_MASK" and ?e = "drop_bit PRECISION bits"
  have T: "to_target bits =
    (if unat ?e < 3 then unat ?m div 256 ^ (3 - unat ?e) else unat ?m * 256 ^ (unat ?e - 3))"
    by (simp add: to_target_def Let_def unat_mantissa unat_exponent)
  have exp: "expand bits = bindE (normalise bits ?m ?e) (\<lambda>(mantissa, exponent).
      let target = u256_target mantissa exponent
      in if u256_is_zero target then Inl (ZeroTarget bits) else Inr target)"
    using assms by (simp add: expand_def sign_bit_iff)
  have zero: "u256_is_zero t \<longleftrightarrow> val256 t = 0" for t
    by (simp add: u256_is_zero_def val256_def unat_0_iff)
  have "unat ?m < 2 ^ 23"
    by (simp add: unat_mantissa)
  from normalise_Inr [OF this, of bits ?e, folded T]
  consider m' e' where "normalise bits ?m ?e = Inr (m', e')" "val256 (u256_target m' e') = to_target bits"
      "nbits_exponent bits < 35" "to_target bits < 2 ^ 256"
    | "normalise bits ?m ?e = Inl (OverflowTarget bits)"
      "35 \<le> nbits_exponent bits \<or> 2 ^ 256 \<le> to_target bits"
    by (auto simp: val256_target unat_exponent)
  note cases = this
  have over: "0 < to_target bits \<Longrightarrow> 35 \<le> nbits_exponent bits \<Longrightarrow> 2 ^ 256 \<le> to_target bits"
  proof -
    assume "0 < to_target bits" and e: "35 \<le> nbits_exponent bits"
    then have "(1::nat) * 256 ^ 32 \<le> unat bits mod 2 ^ 23 * 256 ^ (nbits_exponent bits - 3)"
      by (intro mult_le_mono power_increasing) (auto simp: to_target_def Let_def)
    then show ?thesis
      using e by (simp add: to_target_def Let_def)
  qed
  show "expand bits = Inl (OverflowTarget bits)"
    if "35 \<le> nbits_exponent bits \<or> 2 ^ 256 \<le> to_target bits"
    using that by (cases rule: cases) (auto simp: exp)
  show "expand bits = Inl (ZeroTarget bits)" if "nbits_exponent bits < 35" "to_target bits = 0"
    using that by (cases rule: cases) (auto simp: exp zero Let_def)
  show "\<exists>t. expand bits = Inr t \<and> val256 t = to_target bits"
    if "0 < to_target bits" "to_target bits < 2 ^ 256"
    using that over by (cases rule: cases) (auto simp: exp zero Let_def)
qed

lemma to_target_not_all_ones: "to_target bits + 1 \<noteq> 2 ^ 256"
proof (cases "nbits_exponent bits \<le> 3")
  case True
  then have "to_target bits \<le> unat bits mod 2 ^ 23"
    by (cases "nbits_exponent bits = 3") (simp_all add: to_target_def Let_def)
  also have "\<dots> < 2 ^ 23" by simp
  finally show ?thesis by simp
next
  case False
  then obtain k where "nbits_exponent bits - 3 = Suc k"
    by (cases "nbits_exponent bits - 3") simp_all
  then have "even (to_target bits)"
    using False by (simp add: to_target_def Let_def)
  show ?thesis
  proof
    assume "to_target bits + 1 = 2 ^ 256"
    then have "even (to_target bits + 1)" by simp
    with \<open>even (to_target bits)\<close> show False by simp
  qed
qed

lemma work_fits_iff: "(2::nat) ^ 256 div (n + 1) < 2 ^ 128 \<longleftrightarrow> 2 ^ 128 \<le> n"
proof -
  have "(2::nat) ^ 256 div (n + 1) < 2 ^ 128 \<longleftrightarrow> 2 ^ 256 < 2 ^ 128 * (n + 1)"
    by (rule div_less_iff_less_mult) simp
  also have "\<dots> \<longleftrightarrow> 2 ^ 128 \<le> n" by auto
  finally show ?thesis .
qed

lemma expand_work:
  assumes "\<not> nbits_negative bits" "0 < to_target bits" "to_target bits < 2 ^ 256"
  obtains t where "expand bits = Inr t" "\<And>w. u256_work t = Some w \<longleftrightarrow> unat w = 2 ^ 256 div (to_target bits + 1)"
  using expand_cases(3) [OF assms] assms(3) to_target_not_all_ones [of bits] by (auto simp: u256_work_Some)

lemma try_from_bits_accepts:
  assumes bits: "\<not> nbits_negative bits" "2 ^ 128 \<le> to_target bits" "to_target bits < 2 ^ 256"
  shows "try_from_bits bits =
    Inr \<lparr>cd_bits = bits, cd_work = SingleBlockWork (of_nat (2 ^ 256 div (to_target bits + 1)))\<rparr>"
proof -
  let ?W = "2 ^ 256 div (to_target bits + 1) :: nat"
  have "0 < to_target bits" using bits(2) less_le_trans [of 0 "2 ^ 128"] by simp
  from expand_work [OF bits(1) this bits(3)] obtain t
    where t: "expand bits = Inr t" "\<And>w. u256_work t = Some w \<longleftrightarrow> unat w = ?W" by blast
  have "unat (of_nat ?W :: u128) = ?W" using work_fits_iff bits(2) by (simp add: unat_of_nat)
  then have "u256_work t = Some (of_nat ?W)" unfolding t(2) .
  with t(1) show ?thesis by (simp add: try_from_bits_def)
qed

lemma try_from_bits_over_width:
  assumes bits: "\<not> nbits_negative bits" "0 < to_target bits" "to_target bits < 2 ^ 128"
  shows "try_from_bits bits = Inl (WorkOverWidth bits)"
proof -
  let ?W = "2 ^ 256 div (to_target bits + 1) :: nat"
  have "to_target bits < 2 ^ 256" using bits(3) by (rule less_trans) simp
  from expand_work [OF bits(1,2) this] obtain t
    where t: "expand bits = Inr t" "\<And>w. u256_work t = Some w \<longleftrightarrow> unat w = ?W" by blast
  have "unat w \<noteq> ?W" for w :: u128
    using unat_less_exp [of w] work_fits_iff [of "to_target bits"] bits(3) by auto
  then have "u256_work t = None"
    using t(2) by (cases "u256_work t") auto
  with t(1) show ?thesis by (simp add: try_from_bits_def)
qed

text \<open>C16. Validating \<open>nBits\<close>: a value is accepted exactly when its sign bit is clear and its
  expanded target \<open>m * 256^(e - 3)\<close> lies in \<open>[2^128, 2^256)\<close>, and the recorded work is then
  exactly \<open>floor(2^256 / (target + 1))\<close>, never zero; every rejection names the first rule
  broken in the validator's order: negative, overflowing, zero, or work over 128 bits.\<close>

theorem try_from_bits_spec:
  "try_from_bits bits =
    (if nbits_negative bits then Inl (NegativeTarget bits)
     else if 35 \<le> nbits_exponent bits \<or> 2 ^ 256 \<le> to_target bits then Inl (OverflowTarget bits)
     else if to_target bits = 0 then Inl (ZeroTarget bits)
     else if to_target bits < 2 ^ 128 then Inl (WorkOverWidth bits)
     else Inr \<lparr>cd_bits = bits,
       cd_work = SingleBlockWork (of_nat (2 ^ 256 div (to_target bits + 1)))\<rparr>)
   \<and> (\<forall>cd. try_from_bits bits = Inr cd \<longrightarrow>
        unat (sbw_raw (cd_work cd)) = 2 ^ 256 div (to_target bits + 1)
        \<and> sbw_raw (cd_work cd) \<noteq> 0)"
proof -
  define W where "W = 2 ^ 256 div (to_target bits + 1)"
  have pos: "0 < W" if "to_target bits < 2 ^ 256"
    using that by (simp add: W_def div_greater_zero_iff)
  have fits: "W < 2 ^ 128 \<longleftrightarrow> 2 ^ 128 \<le> to_target bits"
    unfolding W_def by (rule work_fits_iff)
  have unat_W: "unat (of_nat W :: u128) = W" if "W < 2 ^ 128"
    using that by (simp add: unat_of_nat)
  have fine: "try_from_bits bits = Inr \<lparr>cd_bits = bits, cd_work = SingleBlockWork (of_nat W)\<rparr>"
    if "\<not> nbits_negative bits" "2 ^ 128 \<le> to_target bits" "to_target bits < 2 ^ 256"
    unfolding W_def using that by (rule try_from_bits_accepts)
  have neg: "try_from_bits bits = Inl (NegativeTarget bits)" if "nbits_negative bits"
    using that by (simp add: try_from_bits_def expand_def sign_bit_iff)
  have rest: "try_from_bits bits = Inl e" if "expand bits = Inl e" for e
    using that by (simp add: try_from_bits_def)
  have eq: "try_from_bits bits =
    (if nbits_negative bits then Inl (NegativeTarget bits)
     else if 35 \<le> nbits_exponent bits \<or> 2 ^ 256 \<le> to_target bits then Inl (OverflowTarget bits)
     else if to_target bits = 0 then Inl (ZeroTarget bits)
     else if to_target bits < 2 ^ 128 then Inl (WorkOverWidth bits)
     else Inr \<lparr>cd_bits = bits, cd_work = SingleBlockWork (of_nat W)\<rparr>)"
    using fine try_from_bits_over_width neg rest [OF expand_cases(1)] rest [OF expand_cases(2)]
    by (auto simp: not_less not_le)
  have "unat (sbw_raw (cd_work cd)) = W \<and> sbw_raw (cd_work cd) \<noteq> 0" if "try_from_bits bits = Inr cd" for cd
  proof -
    from that have "sbw_raw (cd_work cd) = of_nat W" "2 ^ 128 \<le> to_target bits" "to_target bits < 2 ^ 256"
      unfolding eq by (auto split: if_splits)
    then show ?thesis
      using unat_W fits pos by (simp flip: unat_0_iff)
  qed
  with eq show ?thesis
    unfolding W_def by blast
qed

theorem try_from_bits_spec_witness:
  "unat (sbw_raw (cd_work \<lparr>cd_bits = 0x1f07ffff, cd_work = SingleBlockWork 8192\<rparr>)) = 8192
   \<and> try_from_bits 0x1f07ffff = Inr \<lparr>cd_bits = 0x1f07ffff, cd_work = SingleBlockWork 8192\<rparr>"
  using try_from_bits_spec [of "0x1f07ffff"]
  by (simp add: nbits_negative_def nbits_exponent_def to_target_def)

section \<open>Work\<close>

text \<open>
  \<open>SingleBlockWork\<close> and \<open>AbsoluteChainWork\<close> wrap a \<open>NonZeroU128\<close>; the model keeps the
  \<open>u128\<close> and states non-zeroness as the invariants \<open>sbw_ok\<close> and \<open>acw_ok\<close>.
\<close>

datatype zero_work = ZeroWork

datatype absolute_chain_work = AbsoluteChainWork (acw_raw: u128)

datatype chain_work_over_width = ChainWorkOverWidth u128

datatype work_overflow = WorkOverflow

datatype work_underflow = WorkUnderflow

definition nonzero_new :: "u128 \<Rightarrow> u128 option" where
  "nonzero_new v = (if v = 0 then None else Some v)"

definition sbw_try_new :: "u128 \<Rightarrow> zero_work + single_block_work" where
  "sbw_try_new v = ok_or (map_option SingleBlockWork (nonzero_new v)) ZeroWork"

definition split_bytes :: "u8 list \<Rightarrow> u128 \<times> u128" where
  "split_bytes bytes = (from_be (take 16 bytes), from_be (drop 16 bytes))"

definition acw_try_from_reported :: "u8 list \<Rightarrow> chain_work_over_width + absolute_chain_work option" where
  "acw_try_from_reported bytes =
     (let (high, low) = split_bytes bytes
      in if high \<noteq> 0 then Inl (ChainWorkOverWidth high)
         else Inr (map_option AbsoluteChainWork (nonzero_new low)))"

definition acw_to_be_bytes :: "absolute_chain_work \<Rightarrow> u8 list" where
  "acw_to_be_bytes c = replicate 16 0 @ to_be 16 (acw_raw c)"

definition acw_genesis :: "single_block_work \<Rightarrow> absolute_chain_work" where
  "acw_genesis w = AbsoluteChainWork (sbw_raw w)"

definition accumulate :: "absolute_chain_work \<Rightarrow> single_block_work \<Rightarrow> work_overflow + absolute_chain_work" where
  "accumulate c w = ok_or (map_option AbsoluteChainWork (checked_add (acw_raw c) (sbw_raw w))) WorkOverflow"

definition rollback :: "absolute_chain_work \<Rightarrow> single_block_work \<Rightarrow> work_underflow + absolute_chain_work" where
  "rollback c w =
     ok_or (map_option AbsoluteChainWork (Option.bind (checked_sub (acw_raw c) (sbw_raw w)) nonzero_new))
       WorkUnderflow"

definition sbw_ok :: "single_block_work \<Rightarrow> bool" where
  "sbw_ok w \<longleftrightarrow> sbw_raw w \<noteq> 0"

definition acw_ok :: "absolute_chain_work \<Rightarrow> bool" where
  "acw_ok c \<longleftrightarrow> acw_raw c \<noteq> 0"

abbreviation wnat :: "single_block_work \<Rightarrow> nat" where "wnat w \<equiv> unat (sbw_raw w)"
abbreviation cnat :: "absolute_chain_work \<Rightarrow> nat" where "cnat c \<equiv> unat (acw_raw c)"

lemma accumulate_Inr: "accumulate c w = Inr c' \<longleftrightarrow> cnat c' = cnat c + wnat w"
  by (cases c') (auto simp: accumulate_def ok_or_eq_Inr checked_add_eq_Some)

lemma rollback_Inr: "rollback c w = Inr c' \<longleftrightarrow> wnat w < cnat c \<and> cnat c' = cnat c - wnat w"
proof -
  have "rollback c w = Inr c' \<longleftrightarrow>
    (\<exists>v. checked_sub (acw_raw c) (sbw_raw w) = Some v \<and> v \<noteq> 0 \<and> acw_raw c' = v)"
    by (cases c') (auto simp: rollback_def ok_or_eq_Inr nonzero_new_def bind_eq_Some_conv split: if_splits)
  then show ?thesis
    by (auto simp: checked_sub_eq_Some unat_0_iff [symmetric])
qed

fun accumulate_all :: "absolute_chain_work \<Rightarrow> single_block_work list \<Rightarrow> work_overflow + absolute_chain_work" where
  "accumulate_all c [] = Inr c"
| "accumulate_all c (w # ws) = bindE (accumulate c w) (\<lambda>c'. accumulate_all c' ws)"

fun rollback_all :: "absolute_chain_work \<Rightarrow> single_block_work list \<Rightarrow> work_underflow + absolute_chain_work" where
  "rollback_all c [] = Inr c"
| "rollback_all c (w # ws) = bindE (rollback c w) (\<lambda>c'. rollback_all c' ws)"

lemma rollback_all_append:
  "rollback_all c (xs @ ys) = bindE (rollback_all c xs) (\<lambda>c'. rollback_all c' ys)"
  by (induction xs arbitrary: c) (auto simp: bindE_def split: sum.splits)

lemma acw_eqI: "cnat c = cnat c' \<Longrightarrow> c = c'"
  by (cases c; cases c') (simp add: word_unat_eq_iff)

lemma rollback_accumulate:
  "accumulate c w = Inr c' \<Longrightarrow> acw_ok c \<Longrightarrow> rollback c' w = Inr c"
  by (simp add: accumulate_Inr rollback_Inr acw_ok_def flip: unat_0_iff)

text \<open>C37. Chain work: extending a chain block by block adds exactly each block's work or
  reports overflow, the total stays strictly positive and strictly grows, and unwinding
  the same blocks in reverse order restores the total the chain started from.\<close>

theorem accumulate_rollback_roundtrip:
  assumes "acw_ok c" and "list_all sbw_ok ws" and "accumulate_all c ws = Inr c'"
  shows "rollback_all c' (rev ws) = Inr c \<and> acw_ok c'
    \<and> cnat c' = cnat c + (\<Sum>w\<leftarrow>ws. wnat w) \<and> (ws \<noteq> [] \<longrightarrow> cnat c < cnat c')"
  using assms
proof (induction ws arbitrary: c)
  case Nil
  then show ?case by simp
next
  case (Cons w ws)
  from Cons.prems(3) obtain c1 where step: "accumulate c w = Inr c1"
    and rest: "accumulate_all c1 ws = Inr c'"
    by (auto simp: bindE_eq_Inr)
  from step have c1: "cnat c1 = cnat c + wnat w"
    by (simp add: accumulate_Inr)
  with Cons.prems(1,2) have "acw_ok c1" and pos: "0 < wnat w"
    by (simp_all add: acw_ok_def sbw_ok_def flip: unat_0_iff)
  with Cons.IH [of c1] Cons.prems(2) rest
  have ih: "rollback_all c' (rev ws) = Inr c1" "acw_ok c'" "cnat c' = cnat c1 + (\<Sum>w\<leftarrow>ws. wnat w)"
    by simp_all
  then show ?case
    using c1 pos rollback_accumulate [OF step Cons.prems(1)] by (simp add: rollback_all_append)
qed

theorem accumulate_rollback_roundtrip_witness:
  "rollback_all (AbsoluteChainWork 1305) [SingleBlockWork 5, SingleBlockWork 300] = Inr (AbsoluteChainWork 1000)"
proof -
  have a: "acw_ok (AbsoluteChainWork 1000)"
    and b: "list_all sbw_ok [SingleBlockWork 300, SingleBlockWork 5]"
    and c: "accumulate_all (AbsoluteChainWork 1000) [SingleBlockWork 300, SingleBlockWork 5]
      = Inr (AbsoluteChainWork 1305)"
    by (simp_all add: acw_ok_def sbw_ok_def accumulate_def checked_add_def)
  show ?thesis
    using accumulate_rollback_roundtrip [OF a b c] by simp
qed

lemma from_be_replicate_zero [simp]: "from_be (replicate n 0) = (0 :: 'a::len word)"
  by (rule bit_word_eqI) (simp add: from_be_def bit_from_le)

lemma take_16_zero:
  assumes "length bytes = 32" and "from_be (take 16 bytes) = (0 :: u128)"
  shows "take 16 bytes = replicate 16 0"
proof -
  have "take 16 bytes = to_be 16 (from_be (take 16 bytes) :: u128)"
    using assms(1) by simp
  also have "\<dots> = to_be 16 (0 :: u128)" by (simp only: assms(2))
  also have "\<dots> = to_be 16 (from_be (replicate 16 0) :: u128)" by simp
  also have "\<dots> = replicate 16 0" by (rule to_be_from_be) simp_all
  finally show ?thesis .
qed

text \<open>C38. Chain work on the wire: a total renders as 32 big-endian bytes and reads back as
  itself; reading 32 bytes yields a total exactly when they are such a rendering of a
  non-zero total, reads the all-zero field as absent, and refuses, rather than truncates,
  exactly the values above 128 bits.\<close>

theorem chain_work_wire_roundtrip:
  assumes "length bytes = 32"
  shows "(acw_try_from_reported bytes = Inr (Some c) \<longleftrightarrow> acw_ok c \<and> bytes = acw_to_be_bytes c)
    \<and> (acw_try_from_reported bytes = Inr None \<longleftrightarrow> bytes = replicate 32 0)
    \<and> ((\<exists>e. acw_try_from_reported bytes = Inl e) \<longleftrightarrow> take 16 bytes \<noteq> replicate 16 0)"
proof -
  let ?h = "from_be (take 16 bytes) :: u128" and ?l = "from_be (drop 16 bytes) :: u128"
  have high: "?h = 0 \<longleftrightarrow> take 16 bytes = replicate 16 0"
    using take_16_zero [OF assms] by (metis from_be_replicate_zero)
  have low: "drop 16 bytes = to_be 16 ?l"
    using assms by simp
  have split: "bytes = replicate 16 0 @ to_be 16 ?l" if "?h = 0"
    using that high low by (metis append_take_drop_id)
  have "acw_try_from_reported bytes = Inr (Some c) \<longleftrightarrow> ?h = 0 \<and> ?l = acw_raw c \<and> acw_ok c"
    by (cases c) (auto simp: acw_try_from_reported_def split_bytes_def nonzero_new_def acw_ok_def)
  also have "\<dots> \<longleftrightarrow> acw_ok c \<and> bytes = acw_to_be_bytes c"
    using split by (auto simp: acw_to_be_bytes_def)
  finally have 1: "acw_try_from_reported bytes = Inr (Some c) \<longleftrightarrow> acw_ok c \<and> bytes = acw_to_be_bytes c" .
  have zero: "to_be 16 (0 :: u128) = replicate 16 0"
    using to_be_from_be [of "replicate 16 0" 16, where 'a = 128] by simp
  have "acw_try_from_reported bytes = Inr None \<longleftrightarrow> ?h = 0 \<and> ?l = 0"
    by (auto simp: acw_try_from_reported_def split_bytes_def nonzero_new_def)
  also have "\<dots> \<longleftrightarrow> bytes = replicate 32 0"
    using split zero by (auto simp flip: replicate_add)
  finally have 2: "acw_try_from_reported bytes = Inr None \<longleftrightarrow> bytes = replicate 32 0" .
  have 3: "(\<exists>e. acw_try_from_reported bytes = Inl e) \<longleftrightarrow> take 16 bytes \<noteq> replicate 16 0"
    using high by (simp add: acw_try_from_reported_def split_bytes_def)
  show ?thesis
    using 1 2 3 by blast
qed

theorem chain_work_wire_roundtrip_witness:
  "acw_try_from_reported (acw_to_be_bytes (AbsoluteChainWork 1305)) = Inr (Some (AbsoluteChainWork 1305))"
proof -
  have l: "length (acw_to_be_bytes (AbsoluteChainWork 1305)) = 32"
    by (simp add: acw_to_be_bytes_def)
  have "acw_ok (AbsoluteChainWork 1305)"
    by (simp add: acw_ok_def)
  then show ?thesis
    using chain_work_wire_roundtrip [OF l, of "AbsoluteChainWork 1305"] by blast
qed

end
