(* ===== verification/Zaino_Chain_Types.thy ===== *)
theory Zaino_Chain_Types
  imports Zaino_Primitives
begin

text \<open>
  The names the components exchange for blocks, transactions and outputs: 32-byte hashes,
  the \<open>BlockRef\<close> pair of a hash and a height, the published \<open>ChainStateEpoch\<close> and the
  position and location of a transaction. A hash is the byte list the Rust array holds; no
  operation of the program depends on its length, only on equality.
\<close>

datatype block_hash = BlockHash "u8 list"

definition block_hash_ZERO :: block_hash where
  "block_hash_ZERO = BlockHash (replicate 32 0)"

datatype transaction_id = TransactionId "u8 list"

type_synonym output_index = u32
type_synonym tx_index = u32

record block_ref =
  br_hash :: block_hash
  br_height :: height

definition from_tip :: "block_hash \<times> height \<Rightarrow> block_ref" where
  "from_tip tip = (case tip of (hash, h) \<Rightarrow> \<lparr>br_hash = hash, br_height = h\<rparr>)"

datatype block_selector = SelectHeight height | SelectHash block_hash

record height_range =
  hr_start :: height
  hr_end :: height

record chain_state_epoch =
  cse_generation :: u64
  cse_best_tip :: block_ref

record outpoint =
  op_txid :: transaction_id
  op_index :: output_index

datatype transaction_location = BestChain height | NonBestChain | InMempool

record block_tx_position =
  btp_height :: height
  btp_tx_index :: tx_index

definition btp_is_coinbase :: "block_tx_position \<Rightarrow> bool" where
  "btp_is_coinbase p \<longleftrightarrow> btp_tx_index p = 0"

record address_balance =
  ab_balance :: zatoshis
  ab_received :: flow_sum

end
