(* ===== verification/Zaino_Finality.thy ===== *)
theory Zaino_Finality
  imports Zaino_Chain_Types "HOL-Library.Option_ord"
begin

text \<open>
  \<^verbatim>\<open>zaino-finality\<close>: the seam between the durable tier (the store) and the volatile
  tier (the chain head). The seam holds two quantities, the reorg horizon \<open>r\<close> published by
  the volatile tier and the durable watermark \<open>w\<close> published by the durable tier, and its
  contract is the chain of inequalities in \<^verbatim>\<open>zaino-finality/src/lib.rs\<close>.

  A \<^verbatim>\<open>watch\<close> channel is modelled by the value it currently holds: \<^verbatim>\<open>borrow\<close> reads it and
  \<^verbatim>\<open>send_replace\<close> overwrites it. The two halves share one \<open>seam_state\<close>; each half's
  publish is a function of that state returning a fault or the published value together
  with the new state.
\<close>

section \<open>The seam and its two halves\<close>

definition DEFAULT_RETENTION_MARGIN :: u32 where "DEFAULT_RETENTION_MARGIN = 10"

record released =
  released_height :: height
  released_hash :: block_hash

record committed =
  committed_height :: height

record depths =
  reorg :: u32
  retention_margin :: u32

record seam_state =
  seam_depths :: depths
  seam_released :: "released option"
  seam_committed :: "committed option"

datatype seam_fault =
    RegressedHorizon height height
  | RegressedWatermark height height
  | WatermarkPastHorizon height height

definition seam_new :: "u32 \<Rightarrow> u32 \<Rightarrow> seam_state" where
  "seam_new reorg_depth margin =
     \<lparr>seam_depths = \<lparr>reorg = reorg_depth, retention_margin = margin\<rparr>,
      seam_released = None, seam_committed = None\<rparr>"

definition horizon_reorg_depth :: "seam_state \<Rightarrow> u32" where
  "horizon_reorg_depth s = reorg (seam_depths s)"

definition horizon_advance :: "height \<Rightarrow> block_hash \<Rightarrow> seam_state \<Rightarrow> seam_fault + released \<times> seam_state" where
  "horizon_advance tip hash_at_horizon s =
     (let to = height_saturating_sub tip (reorg (seam_depths s));
          rel = \<lparr>released_height = to, released_hash = hash_at_horizon\<rparr>
      in case seam_released s of
           Some held \<Rightarrow>
             if height_u32 to < height_u32 (released_height held)
             then Inl (RegressedHorizon to (released_height held))
             else Inr (rel, s\<lparr>seam_released := Some rel\<rparr>)
         | None \<Rightarrow> Inr (rel, s\<lparr>seam_released := Some rel\<rparr>))"

definition horizon_durable :: "seam_state \<Rightarrow> committed option" where
  "horizon_durable s = seam_committed s"

definition retention_floor :: "seam_state \<Rightarrow> height option" where
  "retention_floor s =
     map_option (\<lambda>c. height_saturating_sub (committed_height c) (retention_margin (seam_depths s)))
       (horizon_durable s)"

definition watermark_released :: "seam_state \<Rightarrow> released option" where
  "watermark_released s = seam_released s"

definition watermark_advance :: "released \<Rightarrow> height \<Rightarrow> seam_state \<Rightarrow> seam_fault + committed \<times> seam_state" where
  "watermark_advance authorised_by to s =
     (if height_u32 to > height_u32 (released_height authorised_by)
      then Inl (WatermarkPastHorizon to (released_height authorised_by))
      else case seam_committed s of
        Some held \<Rightarrow>
          if height_u32 to < height_u32 (committed_height held)
          then Inl (RegressedWatermark to (committed_height held))
          else Inr (\<lparr>committed_height = to\<rparr>, s\<lparr>seam_committed := Some \<lparr>committed_height = to\<rparr>\<rparr>)
      | None \<Rightarrow> Inr (\<lparr>committed_height = to\<rparr>, s\<lparr>seam_committed := Some \<lparr>committed_height = to\<rparr>\<rparr>))"

section \<open>Executions\<close>

text \<open>
  An execution is any sequence of publishes by the two halves. \<open>Released\<close> has no public
  constructor, so the authorisation of a watermark publish is one the seam has issued:
  \<open>issued\<close> is the history of the horizons handed out. \<open>last_tip\<close> is a ghost: the tip of the
  last accepted horizon publish. A refused publish leaves the seam as it was.
\<close>

record seam_world =
  seam :: seam_state
  issued :: "released list"
  last_tip :: "height option"

definition init_world :: "u32 \<Rightarrow> u32 \<Rightarrow> seam_world" where
  "init_world d m = \<lparr>seam = seam_new d m, issued = [], last_tip = None\<rparr>"

inductive seam_step :: "seam_world \<Rightarrow> seam_world \<Rightarrow> bool" where
  horizon: "height_ok tip \<Longrightarrow> horizon_advance tip hash (seam s) = Inr (rel, s')
    \<Longrightarrow> seam_step s \<lparr>seam = s', issued = rel # issued s, last_tip = Some tip\<rparr>"
| horizon_fault: "height_ok tip \<Longrightarrow> horizon_advance tip hash (seam s) = Inl e \<Longrightarrow> seam_step s s"
| watermark: "height_ok to \<Longrightarrow> rel \<in> set (issued s) \<Longrightarrow> watermark_advance rel to (seam s) = Inr (c, s')
    \<Longrightarrow> seam_step s \<lparr>seam = s', issued = issued s, last_tip = last_tip s\<rparr>"
| watermark_fault: "height_ok to \<Longrightarrow> rel \<in> set (issued s) \<Longrightarrow> watermark_advance rel to (seam s) = Inl e
    \<Longrightarrow> seam_step s s"

inductive_cases seam_stepE: "seam_step s s'"

definition seam_reachable :: "u32 \<Rightarrow> u32 \<Rightarrow> seam_world \<Rightarrow> bool" where
  "seam_reachable d m = seam_step\<^sup>*\<^sup>* (init_world d m)"

section \<open>The ratchet contract\<close>

text \<open>
  Each leg of the seam is a ratchet: a publish names a target level, an accepted publish
  sets the level to the target, and no publish below the held level is accepted.
\<close>

definition attempt :: "('i \<Rightarrow> 's \<Rightarrow> 'e + 'a \<times> 's) \<Rightarrow> 'i \<Rightarrow> 's \<Rightarrow> 's" where
  "attempt publish i s = (case publish i s of Inl _ \<Rightarrow> s | Inr (_, s') \<Rightarrow> s')"

locale ratchet =
  fixes level :: "'s \<Rightarrow> height option"
    and publish :: "'i \<Rightarrow> 's \<Rightarrow> 'e + 'a \<times> 's"
    and target :: "'i \<Rightarrow> 's \<Rightarrow> height"
  assumes publish_sets: "publish i s = Inr (a, s') \<Longrightarrow> level s' = Some (target i s)"
    and publish_holds: "publish i s = Inr (a, s') \<Longrightarrow> level s \<le> Some (target i s)"
begin

lemma publish_mono: "publish i s = Inr (a, s') \<Longrightarrow> level s \<le> level s'"
  using publish_sets publish_holds by metis

lemma attempt_mono: "level s \<le> level (attempt publish i s)"
  using publish_mono by (auto simp: attempt_def split: sum.split)

lemma attempts_mono: "level s \<le> level (fold (attempt publish) is s)"
proof (induction "is" arbitrary: s)
  case Nil
  show ?case by simp
next
  case (Cons i "is")
  show ?case
    using order_trans [OF attempt_mono Cons.IH] by simp
qed

end

abbreviation horizon_level :: "seam_state \<Rightarrow> height option" where
  "horizon_level s \<equiv> map_option released_height (seam_released s)"

abbreviation watermark_level :: "seam_state \<Rightarrow> height option" where
  "watermark_level s \<equiv> map_option committed_height (seam_committed s)"

lemma horizon_advance_Inr:
  "horizon_advance tip hash s = Inr (rel, s') \<longleftrightarrow>
     rel = \<lparr>released_height = height_saturating_sub tip (reorg (seam_depths s)), released_hash = hash\<rparr>
     \<and> s' = s\<lparr>seam_released := Some rel\<rparr>
     \<and> (\<forall>held. seam_released s = Some held \<longrightarrow> released_height held \<le> released_height rel)"
  by (auto simp: horizon_advance_def Let_def less_eq_height_def split: option.splits if_splits)

lemma watermark_advance_Inr:
  "watermark_advance rel to s = Inr (c, s') \<longleftrightarrow>
     c = \<lparr>committed_height = to\<rparr> \<and> s' = s\<lparr>seam_committed := Some c\<rparr> \<and> to \<le> released_height rel
     \<and> (\<forall>held. seam_committed s = Some held \<longrightarrow> committed_height held \<le> to)"
  by (auto simp: watermark_advance_def Let_def less_eq_height_def split: option.splits if_splits)

interpretation hz: ratchet horizon_level "\<lambda>(tip, hash). horizon_advance tip hash"
  "\<lambda>(tip, hash) s. height_saturating_sub tip (reorg (seam_depths s))"
  by unfold_locales (auto simp: horizon_advance_Inr less_eq_option_def split: option.split)

interpretation wm: ratchet watermark_level "\<lambda>(rel, to). watermark_advance rel to" "\<lambda>(rel, to) s. to"
  by unfold_locales (auto simp: watermark_advance_Inr less_eq_option_def split: option.split)

section \<open>The seam invariant\<close>

definition seam_inv :: "u32 \<Rightarrow> u32 \<Rightarrow> seam_world \<Rightarrow> bool" where
  "seam_inv d m s \<longleftrightarrow>
     seam_depths (seam s) = \<lparr>reorg = d, retention_margin = m\<rparr>
     \<and> horizon_level (seam s) = map_option (\<lambda>t. height_saturating_sub t d) (last_tip s)
     \<and> (\<forall>rel \<in> set (issued s). \<exists>r. seam_released (seam s) = Some r \<and> released_height rel \<le> released_height r)
     \<and> (\<forall>r. seam_released (seam s) = Some r \<longrightarrow> r \<in> set (issued s))
     \<and> (\<forall>w. seam_committed (seam s) = Some w \<longrightarrow>
          (\<exists>r. seam_released (seam s) = Some r \<and> committed_height w \<le> released_height r))
     \<and> (\<forall>t. last_tip s = Some t \<longrightarrow> height_ok t)"

lemma seam_inv_init: "seam_inv d m (init_world d m)"
  by (simp add: seam_inv_def init_world_def seam_new_def)

lemma seam_inv_step:
  assumes "seam_step s s'" and "seam_inv d m s"
  shows "seam_inv d m s'"
  using assms
proof cases
  case (horizon tip hash rel t)
  with assms(2) show ?thesis
    by (fastforce simp: seam_inv_def horizon_advance_Inr)
next
  case (watermark to rel c t)
  with assms(2) show ?thesis
    by (fastforce simp: seam_inv_def watermark_advance_Inr)
qed auto

lemma seam_inv_reachable: "seam_reachable d m s \<Longrightarrow> seam_inv d m s"
  unfolding seam_reachable_def
  by (induction rule: rtranclp_induct) (auto intro: seam_inv_init seam_inv_step)

lemma seam_step_mono:
  assumes "seam_step s s'"
  shows "horizon_level (seam s) \<le> horizon_level (seam s') \<and> watermark_level (seam s) \<le> watermark_level (seam s')"
  using assms
proof cases
  case (horizon tip hash rel t)
  then have "watermark_level (seam s') = watermark_level (seam s)"
    by (simp add: horizon_advance_Inr)
  with horizon hz.publish_mono [of "(tip, hash)" "seam s" rel t] show ?thesis
    by simp
next
  case (watermark to rel c t)
  then have "horizon_level (seam s') = horizon_level (seam s)"
    by (simp add: watermark_advance_Inr)
  with watermark wm.publish_mono [of "(rel, to)" "seam s" c t] show ?thesis
    by simp
qed simp_all

text \<open>
  A concrete execution over the default depths: a horizon published for tip 300, then a
  watermark published at 150 under it.
\<close>

definition example_horizon :: released where
  "example_horizon = \<lparr>released_height = Height 200, released_hash = block_hash_ZERO\<rparr>"

definition example_released :: seam_world where
  "example_released =
     \<lparr>seam = (seam_new 100 10)\<lparr>seam_released := Some example_horizon\<rparr>,
      issued = [example_horizon], last_tip = Some (Height 300)\<rparr>"

definition example_committed :: seam_world where
  "example_committed =
     \<lparr>seam = (seam example_released)\<lparr>seam_committed := Some \<lparr>committed_height = Height 150\<rparr>\<rparr>,
      issued = [example_horizon], last_tip = Some (Height 300)\<rparr>"

lemma example_step_released: "seam_step (init_world 100 10) example_released"
proof -
  have "horizon_advance (Height 300) block_hash_ZERO (seam (init_world 100 10))
    = Inr (example_horizon, seam example_released)"
    by (simp add: horizon_advance_def init_world_def seam_new_def example_horizon_def example_released_def
        height_saturating_sub_def saturating_sub_def Let_def)
  from seam_step.horizon [OF _ this] show ?thesis
    by (simp add: height_ok_def MAX_HEIGHT_def init_world_def example_released_def)
qed

lemma example_step_committed: "seam_step example_released example_committed"
proof -
  have "watermark_advance example_horizon (Height 150) (seam example_released)
    = Inr (\<lparr>committed_height = Height 150\<rparr>, seam example_committed)"
    by (simp add: watermark_advance_def seam_new_def example_horizon_def example_released_def
        example_committed_def)
  from seam_step.watermark [OF _ _ this] show ?thesis
    by (simp add: height_ok_def MAX_HEIGHT_def example_released_def example_committed_def)
qed

lemma example_reachable: "seam_reachable 100 10 example_released" "seam_reachable 100 10 example_committed"
  using example_step_released example_step_committed
  by (auto simp: seam_reachable_def intro: rtranclp.rtrancl_into_rtrancl)

text \<open>C7. The seam's chain of inequalities: in every reachable state in which the durable
  tier holds something, the watermark is at or below the horizon, the horizon is exactly the
  reorg depth below the tip it was published for (saturating at genesis), the retention
  floor is exactly the margin below the watermark (saturating at genesis), and so the
  durable range up to the watermark and the volatile range from the floor to the tip cover
  every height from genesis to the tip.\<close>

theorem seam_inequality_chain:
  assumes "seam_reachable d m s" and "seam_committed (seam s) = Some w"
  shows "\<exists>r t f. seam_released (seam s) = Some r \<and> last_tip s = Some t \<and> retention_floor (seam s) = Some f
    \<and> hnat f = hnat (committed_height w) - unat m
    \<and> hnat (committed_height w) \<le> hnat (released_height r)
    \<and> hnat (released_height r) = hnat t - unat d
    \<and> {0..hnat (committed_height w)} \<union> {hnat f..hnat t} = {0..hnat t}"
proof -
  have inv: "seam_inv d m s"
    using assms(1) by (rule seam_inv_reachable)
  with assms(2) obtain r where r: "seam_released (seam s) = Some r"
    and wr: "committed_height w \<le> released_height r"
    by (auto simp: seam_inv_def)
  with inv obtain t where t: "last_tip s = Some t" "released_height r = height_saturating_sub t d"
    by (cases "last_tip s") (auto simp: seam_inv_def)
  let ?f = "height_saturating_sub (committed_height w) m"
  have f: "retention_floor (seam s) = Some ?f"
    using inv assms(2) by (simp add: seam_inv_def retention_floor_def horizon_durable_def)
  have *: "hnat (committed_height w) \<le> hnat t - unat d"
    using wr t by (simp add: height_le_iff hnat_saturating_sub)
  then have "{0..hnat (committed_height w)} \<union> {hnat ?f..hnat t} = {0..hnat t}"
    by (auto simp: hnat_saturating_sub)
  with r t f * show ?thesis
    by (simp add: hnat_saturating_sub)
qed

theorem seam_inequality_chain_witness:
  "seam_reachable 100 10 example_committed \<and> retention_floor (seam example_committed) = Some (Height 140)
   \<and> {0..150} \<union> {140..300} = {0..300 :: nat}"
proof -
  have w: "seam_committed (seam example_committed) = Some \<lparr>committed_height = Height 150\<rparr>"
    by (simp add: example_committed_def)
  have t: "last_tip example_committed = Some (Height 300)"
    by (simp add: example_committed_def)
  have "f = Height 140" if "hnat f = 140" for f
    using that by (subst hnat_inject [symmetric]) simp
  with seam_inequality_chain [OF example_reachable(2) w] t example_reachable(2) show ?thesis
    by auto
qed

text \<open>C34. The two ratchets: along every execution of the seam neither the horizon nor the
  watermark ever moves down (an absent value is below every height).\<close>

theorem seam_ratchets:
  assumes "seam_step\<^sup>*\<^sup>* s s'"
  shows "horizon_level (seam s) \<le> horizon_level (seam s') \<and> watermark_level (seam s) \<le> watermark_level (seam s')"
  using assms by (induction rule: rtranclp_induct) (auto dest: seam_step_mono intro: order_trans)

theorem seam_ratchets_witness:
  "horizon_level (seam example_released) \<le> horizon_level (seam example_committed)
   \<and> watermark_level (seam example_released) = None \<and> watermark_level (seam example_committed) = Some (Height 150)"
  using seam_ratchets [OF r_into_rtranclp [where r = seam_step, OF example_step_committed]]
  by (simp add: example_released_def example_committed_def seam_new_def)

text \<open>C35. Publishing decides exactly the link it guards: a horizon publish is refused exactly
  when the horizon derived from the tip is below the held one; a watermark publish is refused
  as past the horizon exactly when it exceeds its authorisation, and otherwise as a
  regression exactly when it is below the held watermark. An accepted publish changes only
  its own leg of the seam.\<close>

theorem seam_publish_exact:
  "(horizon_advance tip hash s = Inl e \<longleftrightarrow>
      (\<exists>held. seam_released s = Some held \<and> hnat tip - unat (reorg (seam_depths s)) < hnat (released_height held)
        \<and> e = RegressedHorizon (height_saturating_sub tip (reorg (seam_depths s))) (released_height held)))
   \<and> (horizon_advance tip hash s = Inr (rel, s') \<longleftrightarrow>
      (\<nexists>held. seam_released s = Some held \<and> hnat tip - unat (reorg (seam_depths s)) < hnat (released_height held))
      \<and> released_hash rel = hash \<and> hnat (released_height rel) = hnat tip - unat (reorg (seam_depths s))
      \<and> s' = s\<lparr>seam_released := Some rel\<rparr>)
   \<and> (watermark_advance auth to s = Inl e \<longleftrightarrow>
      (if hnat (released_height auth) < hnat to then e = WatermarkPastHorizon to (released_height auth)
       else \<exists>held. seam_committed s = Some held \<and> hnat to < hnat (committed_height held)
         \<and> e = RegressedWatermark to (committed_height held)))
   \<and> (watermark_advance auth to s = Inr (c, s') \<longleftrightarrow>
      hnat to \<le> hnat (released_height auth)
      \<and> (\<nexists>held. seam_committed s = Some held \<and> hnat to < hnat (committed_height held))
      \<and> c = \<lparr>committed_height = to\<rparr> \<and> s' = s\<lparr>seam_committed := Some c\<rparr>)"
proof (intro conjI)
  let ?to = "height_saturating_sub tip (reorg (seam_depths s))"
  have to: "hnat tip - unat (reorg (seam_depths s)) = hnat ?to"
    by (simp add: hnat_saturating_sub)
  show "horizon_advance tip hash s = Inl e \<longleftrightarrow>
      (\<exists>held. seam_released s = Some held \<and> hnat tip - unat (reorg (seam_depths s)) < hnat (released_height held)
        \<and> e = RegressedHorizon ?to (released_height held))"
    unfolding to
    by (auto simp: horizon_advance_def Let_def hnat_def word_less_nat_alt split: option.split)
  show "horizon_advance tip hash s = Inr (rel, s') \<longleftrightarrow>
      (\<nexists>held. seam_released s = Some held \<and> hnat tip - unat (reorg (seam_depths s)) < hnat (released_height held))
      \<and> released_hash rel = hash \<and> hnat (released_height rel) = hnat tip - unat (reorg (seam_depths s))
      \<and> s' = s\<lparr>seam_released := Some rel\<rparr>"
    unfolding to horizon_advance_Inr height_le_iff
    by (cases rel) (auto simp: not_less)
  show "watermark_advance auth to s = Inl e \<longleftrightarrow>
      (if hnat (released_height auth) < hnat to then e = WatermarkPastHorizon to (released_height auth)
       else \<exists>held. seam_committed s = Some held \<and> hnat to < hnat (committed_height held)
         \<and> e = RegressedWatermark to (committed_height held))"
    by (auto simp: watermark_advance_def hnat_def word_less_nat_alt split: option.split)
  show "watermark_advance auth to s = Inr (c, s') \<longleftrightarrow>
      hnat to \<le> hnat (released_height auth)
      \<and> (\<nexists>held. seam_committed s = Some held \<and> hnat to < hnat (committed_height held))
      \<and> c = \<lparr>committed_height = to\<rparr> \<and> s' = s\<lparr>seam_committed := Some c\<rparr>"
    unfolding watermark_advance_Inr height_le_iff by (auto simp: not_less)
qed

text \<open>C36. The durable tier can always catch up: in every reachable state with a published
  horizon, publishing the watermark at that horizon is accepted.\<close>

theorem watermark_catches_up:
  assumes "seam_reachable d m s" and "watermark_released (seam s) = Some r"
  shows "\<exists>c s'. watermark_advance r (released_height r) (seam s) = Inr (c, s')
    \<and> watermark_level s' = Some (released_height r) \<and> watermark_released s' = Some r"
  using seam_inv_reachable [OF assms(1)] assms(2)
  by (auto simp: seam_inv_def watermark_released_def watermark_advance_Inr)

theorem watermark_catches_up_witness:
  "\<exists>c s'. watermark_advance example_horizon (Height 200) (seam example_committed) = Inr (c, s')
    \<and> watermark_level s' = Some (Height 200)"
proof -
  have "watermark_released (seam example_committed) = Some example_horizon"
    by (simp add: watermark_released_def example_committed_def example_released_def)
  from watermark_catches_up [OF example_reachable(2) this] show ?thesis
    by (auto simp: example_horizon_def)
qed

end
