(* ===== verification/Zaino_Status.thy ===== *)
theory Zaino_Status
  imports Zaino_Prelude
begin

text \<open>
  \<^verbatim>\<open>zaino-status\<close>: the status vocabulary every component reports in, the combination of
  two statuses, the liveness and readiness probes derived from a status, and the shared
  atomic cell a status is published through. The cell holds the discriminant as a machine
  word, so reading it back is a total decoding.
\<close>

datatype status_type =
    Spawning | Syncing | Ready | Busy | Closing | Offline | RecoverableError | CriticalError

definition status_from_usize :: "u64 \<Rightarrow> status_type" where
  "status_from_usize v =
     (if v = 0 then Spawning else if v = 1 then Syncing else if v = 2 then Ready
      else if v = 3 then Busy else if v = 4 then Closing else if v = 5 then Offline
      else if v = 6 then RecoverableError else CriticalError)"

fun usize_from_status :: "status_type \<Rightarrow> u64" where
  "usize_from_status Spawning = 0"
| "usize_from_status Syncing = 1"
| "usize_from_status Ready = 2"
| "usize_from_status Busy = 3"
| "usize_from_status Closing = 4"
| "usize_from_status Offline = 5"
| "usize_from_status RecoverableError = 6"
| "usize_from_status CriticalError = 7"

definition status_combine :: "status_type \<Rightarrow> status_type \<Rightarrow> status_type" where
  "status_combine a b =
     (if a = Closing \<or> b = Closing then Closing
      else if a = Offline \<or> b = Offline \<or> a = CriticalError \<or> b = CriticalError then CriticalError
      else if a = RecoverableError \<or> b = RecoverableError then RecoverableError
      else if a = Spawning \<or> b = Spawning then Spawning
      else if a = Syncing \<or> b = Syncing then Syncing
      else Ready)"

definition is_live :: "status_type \<Rightarrow> bool" where
  "is_live s \<longleftrightarrow> s \<notin> {Offline, CriticalError}"

definition is_ready :: "status_type \<Rightarrow> bool" where
  "is_ready s \<longleftrightarrow> s \<in> {Ready, Busy}"

record named_atomic_status =
  nas_name :: string
  nas_inner :: u64

definition nas_new :: "string \<Rightarrow> status_type \<Rightarrow> named_atomic_status" where
  "nas_new name status = \<lparr>nas_name = name, nas_inner = usize_from_status status\<rparr>"

definition nas_load :: "named_atomic_status \<Rightarrow> status_type" where
  "nas_load c = status_from_usize (nas_inner c)"

definition nas_apply :: "(status_type \<Rightarrow> status_type) \<Rightarrow> named_atomic_status \<Rightarrow> status_type \<times> named_atomic_status" where
  "nas_apply f c =
     (let old = status_from_usize (nas_inner c)
      in (f old, c\<lparr>nas_inner := usize_from_status (f old)\<rparr>))"

definition nas_store :: "status_type \<Rightarrow> named_atomic_status \<Rightarrow> named_atomic_status" where
  "nas_store s c = snd (nas_apply (\<lambda>_. s) c)"

lemma status_usize_roundtrip [simp]: "status_from_usize (usize_from_status s) = s"
  by (cases s) (simp_all add: status_from_usize_def)

lemma nas_load_new [simp]: "nas_load (nas_new n s) = s"
  by (simp add: nas_load_def nas_new_def)

lemma nas_load_apply [simp]: "nas_load (snd (nas_apply f c)) = f (nas_load c)"
  by (simp add: nas_load_def nas_apply_def Let_def)

lemma nas_load_store [simp]: "nas_load (nas_store s c) = s"
  by (simp add: nas_store_def)

text \<open>The status algebra: combining statuses is commutative and associative, so a
  tree of components has one combined status however it is folded; the combination is ready
  exactly when every part is ready; and it is live exactly when some part is closing or every
  part is live. A discriminant read back from the atomic cell is the status last stored.\<close>

theorem status_algebra:
  "status_combine a b = status_combine b a
   \<and> status_combine (status_combine a b) c = status_combine a (status_combine b c)
   \<and> (is_ready (status_combine a b) \<longleftrightarrow> is_ready a \<and> is_ready b)
   \<and> (is_live (status_combine a b) \<longleftrightarrow> a = Closing \<or> b = Closing \<or> is_live a \<and> is_live b)
   \<and> nas_load (nas_store a cell) = a
   \<and> nas_apply f cell = (f (nas_load cell), nas_store (f (nas_load cell)) cell)"
proof (intro conjI)
  show "status_combine a b = status_combine b a"
    by (auto simp: status_combine_def)
  show "status_combine (status_combine a b) c = status_combine a (status_combine b c)"
    by (cases a; cases b; cases c) (simp_all add: status_combine_def)
  show "is_ready (status_combine a b) \<longleftrightarrow> is_ready a \<and> is_ready b"
    by (cases a; cases b) (simp_all add: status_combine_def is_ready_def)
  show "is_live (status_combine a b) \<longleftrightarrow> a = Closing \<or> b = Closing \<or> is_live a \<and> is_live b"
    by (cases a; cases b) (simp_all add: status_combine_def is_live_def)
  show "nas_load (nas_store a cell) = a"
    by simp
  show "nas_apply f cell = (f (nas_load cell), nas_store (f (nas_load cell)) cell)"
    by (simp add: nas_apply_def nas_store_def nas_load_def Let_def)
qed

end
