(* ===== verification/Zaino_Block.thy ===== *)
theory Zaino_Block
  imports Zaino_Chain_Types Zaino_Difficulty
begin

text \<open>
  The domain block of \<^verbatim>\<open>zaino-primitives\<close>: headers, transactions with their transparent
  and shielded parts, commitment-tree metadata, and the classification of a transparent
  output script into the 20-byte key the indexes use. Byte arrays and byte vectors are
  lists of bytes.
\<close>

section \<open>Transactions\<close>

datatype script = Script (script_bytes: "u8 list")
datatype nullifier = Nullifier "u8 list"
datatype note_commitment = NoteCommitment "u8 list"
datatype ephemeral_key = EphemeralKey "u8 list"
datatype compact_ciphertext = CompactCiphertext "u8 list"

record transparent_input =
  ti_prev_txid :: transaction_id
  ti_prev_index :: output_index

record transparent_output =
  to_value :: zatoshis
  to_script :: script

record transparent_data =
  td_inputs :: "transparent_input list"
  td_outputs :: "transparent_output list"

record sapling_spend =
  ss_nullifier :: nullifier

record sapling_output =
  so_cmu :: note_commitment
  so_ephemeral_key :: ephemeral_key
  so_enc_ciphertext :: compact_ciphertext

record sapling_data =
  sd_spends :: "sapling_spend list"
  sd_outputs :: "sapling_output list"
  sd_value_balance :: signed_zatoshis

record orchard_action =
  oa_nullifier :: nullifier
  oa_cmx :: note_commitment
  oa_ephemeral_key :: ephemeral_key
  oa_enc_ciphertext :: compact_ciphertext

record orchard_data =
  od_actions :: "orchard_action list"
  od_value_balance :: signed_zatoshis

record transaction =
  tx_txid :: transaction_id
  tx_transparent :: transparent_data
  tx_sapling :: sapling_data
  tx_orchard :: orchard_data
  tx_ironwood :: orchard_data

section \<open>Blocks\<close>

datatype merkle_root = MerkleRoot "u8 list"
datatype block_commitments = BlockCommitments "u8 list"
datatype equihash_solution = Standard "u8 list" | Regtest "u8 list"

record block_header =
  bh_hash :: block_hash
  bh_version :: u32
  bh_prev_hash :: block_hash
  bh_height :: height
  bh_time :: u32
  bh_merkle_root :: merkle_root
  bh_block_commitments :: block_commitments
  bh_bits :: compact_difficulty
  bh_nonce :: "u8 list"
  bh_solution :: equihash_solution

record chain_metadata =
  cm_sapling_tree_size :: tree_size
  cm_orchard_tree_size :: tree_size
  cm_ironwood_tree_size :: tree_size

record block =
  blk_header :: block_header
  blk_transactions :: "transaction list"
  blk_chain_metadata :: chain_metadata

datatype block_error = NoTransactions

definition block_try_new :: "block_header \<Rightarrow> transaction list \<Rightarrow> chain_metadata \<Rightarrow> block_error + block" where
  "block_try_new hdr txs metadata =
     (if txs = [] then Inl NoTransactions
      else Inr \<lparr>blk_header = hdr, blk_transactions = txs, blk_chain_metadata = metadata\<rparr>)"

definition coinbase :: "block \<Rightarrow> transaction option" where
  "coinbase b = (case blk_transactions b of [] \<Rightarrow> None | tx # _ \<Rightarrow> Some tx)"

datatype tree_root = TreeRoot "u8 list"

record tree_root_info =
  tri_root :: tree_root
  tri_size :: tree_size

record tree_roots =
  tr_sapling :: "tree_root_info option"
  tr_orchard :: "tree_root_info option"
  tr_ironwood :: "tree_root_info option"

definition tree_size_ZERO :: tree_size where "tree_size_ZERO = TreeSize 0"

definition chain_metadata_ZERO :: chain_metadata where
  "chain_metadata_ZERO =
     \<lparr>cm_sapling_tree_size = tree_size_ZERO, cm_orchard_tree_size = tree_size_ZERO,
      cm_ironwood_tree_size = tree_size_ZERO\<rparr>"

definition from_tree_roots :: "tree_roots \<Rightarrow> chain_metadata" where
  "from_tree_roots roots =
     \<lparr>cm_sapling_tree_size = (case tr_sapling roots of None \<Rightarrow> tree_size_ZERO | Some i \<Rightarrow> tri_size i),
      cm_orchard_tree_size = (case tr_orchard roots of None \<Rightarrow> tree_size_ZERO | Some i \<Rightarrow> tri_size i),
      cm_ironwood_tree_size = (case tr_ironwood roots of None \<Rightarrow> tree_size_ZERO | Some i \<Rightarrow> tri_size i)\<rparr>"

section \<open>Script classification\<close>

datatype script_type = P2PKH | P2SH | NonStandard

definition starts_with :: "'a list \<Rightarrow> 'a list \<Rightarrow> bool" where
  "starts_with p xs \<longleftrightarrow> take (length p) xs = p"

definition ends_with :: "'a list \<Rightarrow> 'a list \<Rightarrow> bool" where
  "ends_with p xs \<longleftrightarrow> length p \<le> length xs \<and> drop (length xs - length p) xs = p"

definition P2PKH_PREFIX :: "u8 list" where "P2PKH_PREFIX = [0x76, 0xa9, 0x14]"
definition P2PKH_SUFFIX :: "u8 list" where "P2PKH_SUFFIX = [0x88, 0xac]"
definition P2SH_PREFIX :: "u8 list" where "P2SH_PREFIX = [0xa9, 0x14]"
definition P2SH_SUFFIX :: "u8 list" where "P2SH_SUFFIX = [0x87]"

definition classify_script :: "u8 list \<Rightarrow> u8 list \<times> script_type" where
  "classify_script s =
     (if length s = 25 \<and> starts_with P2PKH_PREFIX s \<and> ends_with P2PKH_SUFFIX s
      then (take 20 (drop 3 s), P2PKH)
      else if length s = 23 \<and> starts_with P2SH_PREFIX s \<and> ends_with P2SH_SUFFIX s
      then (take 20 (drop 2 s), P2SH)
      else if length s = 21
      then (take 20 (drop 1 s), if s ! 0 = 0 then P2PKH else if s ! 0 = 1 then P2SH else NonStandard)
      else let usable = min (length s) 20
           in (take usable s @ replicate (20 - usable) 0, NonStandard))"

end
