(* ===== verification/Zaino_Chain_Graph.thy ===== *)
theory Zaino_Chain_Graph
  imports Zaino_Block "HOL-Library.List_Lexorder"
begin

text \<open>
  The retained block graph of the chain head: \<^verbatim>\<open>MapBackedSnapshot\<close> of
  \<^verbatim>\<open>zaino-chain-head-service/src/snapshot.rs\<close>, the moves of its \<^verbatim>\<open>ChainGraph\<close> contract
  (\<^verbatim>\<open>graph.rs\<close>) and the queries of its \<^verbatim>\<open>ChainHeadSnapshot\<close> port. The contract is the
  locale \<open>canonical_chain\<close>: the graph is abstracted to its list of canonical blocks, and
  every move is a list operation. The map-backed graph is shown to implement it.
\<close>

section \<open>Retained blocks\<close>

datatype chain_head_work = ChainHeadWork (chw_raw: u128)

instantiation chain_head_work :: linorder
begin

definition less_eq_chain_head_work :: "chain_head_work \<Rightarrow> chain_head_work \<Rightarrow> bool" where
  "less_eq_chain_head_work a b \<longleftrightarrow> chw_raw a \<le> chw_raw b"

definition less_chain_head_work :: "chain_head_work \<Rightarrow> chain_head_work \<Rightarrow> bool" where
  "less_chain_head_work a b \<longleftrightarrow> chw_raw a < chw_raw b"

instance
  by standard (auto simp: less_eq_chain_head_work_def less_chain_head_work_def chain_head_work.expand)

end

definition anchored_at :: "u128 \<Rightarrow> chain_head_work" where
  "anchored_at block_work = ChainHeadWork block_work"

definition chw_checked_add :: "chain_head_work \<Rightarrow> u128 \<Rightarrow> chain_head_work option" where
  "chw_checked_add w block_work = map_option ChainHeadWork (checked_add (chw_raw w) block_work)"

record chain_head_block =
  chb_reference :: block_ref
  chb_parent_hash :: block_hash
  chb_work :: chain_head_work
  chb_block :: block
  chb_tree_roots :: tree_roots

definition chb_hash :: "chain_head_block \<Rightarrow> block_hash" where
  "chb_hash b = br_hash (chb_reference b)"

definition chb_height :: "chain_head_block \<Rightarrow> height" where
  "chb_height b = br_height (chb_reference b)"

section \<open>The map-backed graph\<close>

record map_backed_snapshot =
  mbs_tip :: chain_head_block
  mbs_others :: "(block_hash, chain_head_block) hmap"
  mbs_heights :: "(height, block_hash) hmap"
  mbs_generation :: u64

datatype not_on_best_chain = NotOnBestChain

record not_child_of_tip =
  nct_tip :: block_ref
  nct_block :: block_ref

definition mbs_blocks :: "map_backed_snapshot \<Rightarrow> chain_head_block list" where
  "mbs_blocks g = mbs_tip g # hm_values (mbs_others g)"

definition retained_block_count :: "map_backed_snapshot \<Rightarrow> nat" where
  "retained_block_count g = length (mbs_blocks g)"

definition replace_tip :: "chain_head_block \<Rightarrow> map_backed_snapshot \<Rightarrow> map_backed_snapshot" where
  "replace_tip block g =
     (let others = hm_remove (chb_hash block) (mbs_others g);
          old_tip = mbs_tip g
      in g\<lparr>mbs_tip := block,
           mbs_others := (if chb_hash old_tip \<noteq> chb_hash block then hm_insert (chb_hash old_tip) old_tip others
                          else others)\<rparr>)"

definition best_tip :: "map_backed_snapshot \<Rightarrow> block_ref" where
  "best_tip g = chb_reference (mbs_tip g)"

definition epoch :: "map_backed_snapshot \<Rightarrow> chain_state_epoch" where
  "epoch g = \<lparr>cse_generation = mbs_generation g, cse_best_tip = chb_reference (mbs_tip g)\<rparr>"

definition block_by_hash :: "map_backed_snapshot \<Rightarrow> block_hash \<Rightarrow> chain_head_block option" where
  "block_by_hash g hash =
     (if chb_hash (mbs_tip g) = hash then Some (mbs_tip g) else hm_get (mbs_others g) hash)"

definition best_block_by_height :: "map_backed_snapshot \<Rightarrow> height \<Rightarrow> chain_head_block option" where
  "best_block_by_height g h = Option.bind (hm_get (mbs_heights g) h) (block_by_hash g)"

definition is_on_best_chain :: "map_backed_snapshot \<Rightarrow> block_ref \<Rightarrow> bool" where
  "is_on_best_chain g r \<longleftrightarrow> hm_get (mbs_heights g) (br_height r) = Some (br_hash r)"

definition from_initial_block :: "chain_head_block \<Rightarrow> map_backed_snapshot" where
  "from_initial_block block =
     \<lparr>mbs_tip = block, mbs_others = [], mbs_heights = hm_insert (chb_height block) (chb_hash block) [],
      mbs_generation = 0\<rparr>"

definition tip_block :: "map_backed_snapshot \<Rightarrow> chain_head_block" where
  "tip_block g = mbs_tip g"

definition heaviest_block :: "map_backed_snapshot \<Rightarrow> chain_head_block" where
  "heaviest_block g =
     foldl (\<lambda>heaviest b. if chb_work b > chb_work heaviest then b else heaviest) (mbs_tip g)
       (hm_values (mbs_others g))"

definition graph_extend :: "chain_head_block \<Rightarrow> map_backed_snapshot \<Rightarrow> not_child_of_tip + map_backed_snapshot" where
  "graph_extend block g =
     (let extends_tip = chb_parent_hash block = chb_hash (mbs_tip g)
            \<and> height_checked_add (chb_height (mbs_tip g)) 1 = Some (chb_height block)
      in if \<not> extends_tip
         then Inl \<lparr>nct_tip = chb_reference (mbs_tip g), nct_block = chb_reference block\<rparr>
         else Inr (replace_tip block
                (g\<lparr>mbs_heights := hm_insert (chb_height block) (chb_hash block) (mbs_heights g)\<rparr>)))"

definition rewind_to :: "block_ref \<Rightarrow> map_backed_snapshot \<Rightarrow> not_on_best_chain + map_backed_snapshot" where
  "rewind_to r g =
     (if r = chb_reference (mbs_tip g) then Inr g
      else if \<not> is_on_best_chain g r then Inl NotOnBestChain
      else case hm_get (mbs_others g) (br_hash r) of
        None \<Rightarrow> Inl NotOnBestChain
      | Some new_tip \<Rightarrow>
          Inr (replace_tip new_tip
            (g\<lparr>mbs_heights := hm_retain (\<lambda>h _. h \<le> br_height r) (mbs_heights g)\<rparr>)))"

definition remove_finalised_blocks :: "height \<Rightarrow> map_backed_snapshot \<Rightarrow> map_backed_snapshot" where
  "remove_finalised_blocks floor g =
     (let tip_hash = chb_hash (mbs_tip g)
      in g\<lparr>mbs_others := hm_retain (\<lambda>_ b. chb_height b \<ge> floor) (mbs_others g),
           mbs_heights := hm_retain (\<lambda>h hash. h \<ge> floor \<or> hash = tip_hash) (mbs_heights g)\<rparr>)"

definition stamp_generation :: "map_backed_snapshot \<Rightarrow> u64 \<Rightarrow> map_backed_snapshot \<Rightarrow> map_backed_snapshot" where
  "stamp_generation previous highest_published g =
     g\<lparr>mbs_generation :=
         (if best_tip g = best_tip previous then mbs_generation previous
          else saturating_add highest_published 1)\<rparr>"

definition best_chain :: "map_backed_snapshot \<Rightarrow> chain_head_block list" where
  "best_chain g = List.map_filter (best_block_by_height g) (sort (hm_keys (mbs_heights g)))"

datatype chain_head_error = InvalidRange height height

definition best_chain_blocks ::
  "height \<Rightarrow> height \<Rightarrow> map_backed_snapshot \<Rightarrow> chain_head_error + chain_head_block list" where
  "best_chain_blocks start end g =
     (if start > end then Inl (InvalidRange start end)
      else Inr (List.map_filter
        (\<lambda>h. case height_try_from (word_of_nat h) of Inl _ \<Rightarrow> None | Inr h \<Rightarrow> best_block_by_height g h)
        [unat (height_u32 start)..<Suc (unat (height_u32 end))]))"

section \<open>The contract: a canonical chain\<close>

text \<open>One block sits directly above another: it names it as its parent, one height up.\<close>

definition child_of :: "chain_head_block \<Rightarrow> chain_head_block \<Rightarrow> bool" where
  "child_of p b \<longleftrightarrow>
     chb_parent_hash b = chb_hash p \<and> height_checked_add (chb_height p) 1 = Some (chb_height b)"

lemma child_of_height: "child_of p b \<Longrightarrow> hnat (chb_height b) = Suc (hnat (chb_height p))"
  by (simp add: child_of_def height_checked_add_one)

text \<open>
  The contract of \<^verbatim>\<open>ChainGraph\<close>. A representation promises that its canonical blocks form
  a non-empty chain, parent-linked and without height gaps, that ends in the tip, and what
  each move does to that chain. A refused move returns no new graph, so it leaves the graph
  unchanged. \<open>fresh\<close> is what a representation needs of a block laid on top.
\<close>

locale canonical_chain =
  fixes inv :: "'g \<Rightarrow> bool"
    and chain :: "'g \<Rightarrow> chain_head_block list"
    and tip :: "'g \<Rightarrow> chain_head_block"
    and fresh :: "'g \<Rightarrow> chain_head_block \<Rightarrow> bool"
    and initial :: "chain_head_block \<Rightarrow> 'g"
    and lay :: "chain_head_block \<Rightarrow> 'g \<Rightarrow> 'e + 'g"
    and rewind :: "block_ref \<Rightarrow> 'g \<Rightarrow> 'r + 'g"
    and trim :: "height \<Rightarrow> 'g \<Rightarrow> 'g"
  assumes chain_tip: "inv g \<Longrightarrow> chain g \<noteq> [] \<and> last (chain g) = tip g"
    and chain_linked: "inv g \<Longrightarrow> successively child_of (chain g)"
    and initial_chain: "inv (initial b) \<and> chain (initial b) = [b]"
    and lay_accepted: "inv g \<Longrightarrow> child_of (tip g) b \<Longrightarrow> fresh g b
      \<Longrightarrow> \<exists>g'. lay b g = Inr g' \<and> inv g' \<and> chain g' = chain g @ [b]"
    and lay_refused: "\<not> child_of (tip g) b \<Longrightarrow> \<exists>e. lay b g = Inl e"
    and rewind_accepted: "inv g \<Longrightarrow> b \<in> set (chain g)
      \<Longrightarrow> \<exists>g'. rewind (chb_reference b) g = Inr g' \<and> inv g'
          \<and> chain g' = takeWhile (\<lambda>c. chb_height c \<le> chb_height b) (chain g)"
    and rewind_refused: "inv g \<Longrightarrow> r \<notin> chb_reference ` set (chain g) \<Longrightarrow> \<exists>e. rewind r g = Inl e"
    and trim_chain: "inv g \<Longrightarrow> inv (trim floor g) \<and> tip (trim floor g) = tip g
      \<and> chain (trim floor g) = filter (\<lambda>c. floor \<le> chb_height c \<or> c = tip g) (chain g)"
begin

lemma tip_in_chain: "inv g \<Longrightarrow> tip g \<in> set (chain g)"
  using chain_tip last_in_set by metis

lemma chain_heights_nth:
  assumes "inv g" and "i < length (chain g)"
  shows "hnat (chb_height (chain g ! i)) = hnat (chb_height (hd (chain g))) + i"
  using assms(2)
proof (induction i)
  case 0
  with chain_tip [OF assms(1)] show ?case by (simp add: hd_conv_nth)
next
  case (Suc i)
  then have "child_of (chain g ! i) (chain g ! Suc i)"
    using chain_linked [OF assms(1)] by (simp add: successively_conv_nth)
  with Suc show ?case
    by (simp add: child_of_height)
qed

lemma tip_height:
  assumes "inv g"
  shows "hnat (chb_height (tip g)) = hnat (chb_height (hd (chain g))) + (length (chain g) - 1)"
proof -
  have "tip g = chain g ! (length (chain g) - 1)"
    using chain_tip [OF assms] last_conv_nth by metis
  with chain_tip [OF assms] chain_heights_nth [OF assms, of "length (chain g) - 1"] show ?thesis
    by simp
qed

lemma chain_height_bounds:
  assumes "inv g" and "b \<in> set (chain g)"
  shows "hnat (chb_height (hd (chain g))) \<le> hnat (chb_height b)"
    and "hnat (chb_height b) \<le> hnat (chb_height (tip g))"
  using assms(2) chain_heights_nth [OF assms(1)] tip_height [OF assms(1)]
  by (auto simp: in_set_conv_nth)

lemma lay_Inr:
  assumes "inv g" and "fresh g b" and "lay b g = Inr g'"
  shows "child_of (tip g) b \<and> inv g' \<and> chain g' = chain g @ [b] \<and> tip g' = b"
proof -
  from assms(3) lay_refused [of g b] have c: "child_of (tip g) b" by fastforce
  from lay_accepted [OF assms(1) c assms(2)] assms(3) have i: "inv g'" "chain g' = chain g @ [b]"
    by auto
  with chain_tip [of g'] c show ?thesis by simp
qed

lemma rewind_Inr:
  assumes "inv g" and "rewind r g = Inr g'"
  shows "\<exists>b \<in> set (chain g). chb_reference b = r \<and> inv g'
    \<and> chain g' = takeWhile (\<lambda>c. chb_height c \<le> chb_height b) (chain g)"
proof -
  from assms rewind_refused [of g r] obtain b where "b \<in> set (chain g)" "chb_reference b = r"
    by fastforce
  with rewind_accepted [OF assms(1), of b] assms(2) show ?thesis by fastforce
qed

lemma takeWhile_height:
  assumes "inv g" and "b \<in> set (chain g)"
  shows "\<exists>i < length (chain g). chain g ! i = b
    \<and> takeWhile (\<lambda>c. chb_height c \<le> chb_height b) (chain g) = take (Suc i) (chain g)"
proof -
  from assms(2) obtain i where i: "i < length (chain g)" "chain g ! i = b"
    by (auto simp: in_set_conv_nth)
  have "takeWhile (\<lambda>c. chb_height c \<le> chb_height b) (chain g) = take (Suc i) (chain g)"
  proof (cases "Suc i < length (chain g)")
    case True
    then show ?thesis
      using i chain_heights_nth [OF assms(1)]
      by (intro takeWhile_eq_take_P_nth) (auto simp: height_le_iff)
  next
    case False
    with i have "\<forall>c \<in> set (chain g). chb_height c \<le> chb_height b"
      using chain_heights_nth [OF assms(1)] by (auto simp: height_le_iff in_set_conv_nth)
    with False show ?thesis
      by (simp add: takeWhile_eq_all_conv)
  qed
  with i show ?thesis by blast
qed

lemma rewind_tip:
  assumes "inv g" and "rewind r g = Inr g'"
  shows "\<exists>b \<in> set (chain g). chb_reference b = r \<and> inv g' \<and> tip g' = b \<and> hd (chain g') = hd (chain g)
    \<and> set (chain g') \<subseteq> set (chain g)"
proof -
  from rewind_Inr [OF assms] obtain b where b: "b \<in> set (chain g)" "chb_reference b = r" "inv g'"
    "chain g' = takeWhile (\<lambda>c. chb_height c \<le> chb_height b) (chain g)" by blast
  from takeWhile_height [OF assms(1) b(1)] b(4) obtain i where i: "i < length (chain g)"
    "chain g ! i = b" "chain g' = take (Suc i) (chain g)" by auto
  then have "last (chain g') = b" "hd (chain g') = hd (chain g)" "set (chain g') \<subseteq> set (chain g)"
    by (auto simp: take_Suc_conv_app_nth hd_append hd_conv_nth dest: in_set_takeD)
  with b chain_tip [of g'] show ?thesis by auto
qed

end

section \<open>The map-backed graph implements the contract\<close>

text \<open>
  The representation invariant: what \<^verbatim>\<open>graph.rs\<close> lists, read through the two maps. The last
  conjunct carries both the absence of height gaps and the parent links.
\<close>

definition graph_ok :: "map_backed_snapshot \<Rightarrow> bool" where
  "graph_ok g \<longleftrightarrow>
     hm_ok (mbs_others g) \<and> hm_ok (mbs_heights g)
     \<and> hm_get (mbs_others g) (chb_hash (mbs_tip g)) = None
     \<and> (\<forall>k b. hm_get (mbs_others g) k = Some b \<longrightarrow> chb_hash b = k)
     \<and> hm_get (mbs_heights g) (chb_height (mbs_tip g)) = Some (chb_hash (mbs_tip g))
     \<and> (\<forall>h k. hm_get (mbs_heights g) h = Some k \<longrightarrow>
          (\<exists>b. block_by_hash g k = Some b \<and> chb_height b = h))
     \<and> (\<forall>h. hm_get (mbs_heights g) h \<noteq> None \<longrightarrow> h \<le> chb_height (mbs_tip g))
     \<and> (\<forall>h b. best_block_by_height g h = Some b \<longrightarrow> h < chb_height (mbs_tip g) \<longrightarrow>
          (\<exists>h' c. best_block_by_height g h' = Some c \<and> child_of b c))"

text \<open>A block may be laid on top when its hash is not already canonical.\<close>

definition graph_fresh :: "map_backed_snapshot \<Rightarrow> chain_head_block \<Rightarrow> bool" where
  "graph_fresh g b \<longleftrightarrow> (\<forall>h. hm_get (mbs_heights g) h \<noteq> Some (chb_hash b))"

lemma graph_okD:
  assumes "graph_ok g"
  shows "hm_ok (mbs_others g)" "hm_ok (mbs_heights g)"
    "hm_get (mbs_others g) (chb_hash (mbs_tip g)) = None"
    "hm_get (mbs_others g) k = Some b \<Longrightarrow> chb_hash b = k"
    "hm_get (mbs_heights g) (chb_height (mbs_tip g)) = Some (chb_hash (mbs_tip g))"
    "hm_get (mbs_heights g) h = Some k \<Longrightarrow> \<exists>b. block_by_hash g k = Some b \<and> chb_height b = h"
    "hm_get (mbs_heights g) h = Some k \<Longrightarrow> h \<le> chb_height (mbs_tip g)"
    "best_block_by_height g h = Some b \<Longrightarrow> h < chb_height (mbs_tip g)
      \<Longrightarrow> \<exists>h' c. best_block_by_height g h' = Some c \<and> child_of b c"
  using assms unfolding graph_ok_def by blast+

lemma graph_okI:
  assumes "hm_ok (mbs_others g)" "hm_ok (mbs_heights g)"
    "hm_get (mbs_others g) (chb_hash (mbs_tip g)) = None"
    "\<And>k b. hm_get (mbs_others g) k = Some b \<Longrightarrow> chb_hash b = k"
    "hm_get (mbs_heights g) (chb_height (mbs_tip g)) = Some (chb_hash (mbs_tip g))"
    "\<And>h k. hm_get (mbs_heights g) h = Some k \<Longrightarrow> \<exists>b. block_by_hash g k = Some b \<and> chb_height b = h"
    "\<And>h k. hm_get (mbs_heights g) h = Some k \<Longrightarrow> h \<le> chb_height (mbs_tip g)"
    "\<And>h b. best_block_by_height g h = Some b \<Longrightarrow> h < chb_height (mbs_tip g)
      \<Longrightarrow> \<exists>h' c. best_block_by_height g h' = Some c \<and> child_of b c"
  shows "graph_ok g"
  using assms unfolding graph_ok_def by blast

lemma block_by_hash_hash: "graph_ok g \<Longrightarrow> block_by_hash g k = Some b \<Longrightarrow> chb_hash b = k"
  by (auto simp: block_by_hash_def graph_okD(4) split: if_splits)

lemma best_block_iff:
  assumes "graph_ok g"
  shows "best_block_by_height g h = Some b \<longleftrightarrow>
    hm_get (mbs_heights g) h = Some (chb_hash b) \<and> block_by_hash g (chb_hash b) = Some b \<and> chb_height b = h"
proof
  assume "best_block_by_height g h = Some b"
  then obtain k where k: "hm_get (mbs_heights g) h = Some k" "block_by_hash g k = Some b"
    by (auto simp: best_block_by_height_def bind_eq_Some_conv)
  from graph_okD(6) [OF assms k(1)] k(2) have "chb_height b = h" by simp
  with k block_by_hash_hash [OF assms k(2)]
  show "hm_get (mbs_heights g) h = Some (chb_hash b) \<and> block_by_hash g (chb_hash b) = Some b \<and> chb_height b = h"
    by simp
next
  assume "hm_get (mbs_heights g) h = Some (chb_hash b) \<and> block_by_hash g (chb_hash b) = Some b \<and> chb_height b = h"
  then show "best_block_by_height g h = Some b"
    by (simp add: best_block_by_height_def)
qed

lemma best_block_total:
  assumes "graph_ok g" and "hm_get (mbs_heights g) h = Some k"
  shows "\<exists>b. best_block_by_height g h = Some b"
  using graph_okD(6) [OF assms] assms(2) by (auto simp: best_block_by_height_def)

lemma best_block_height_le:
  assumes "graph_ok g" and "best_block_by_height g h = Some b"
  shows "chb_height b = h \<and> h \<le> chb_height (mbs_tip g)"
  using assms graph_okD(7) [OF assms(1)] by (auto simp: best_block_iff)

lemma best_block_tip:
  "graph_ok g \<Longrightarrow> best_block_by_height g (chb_height (mbs_tip g)) = Some (mbs_tip g)"
  by (simp add: best_block_iff graph_okD(5)) (simp add: block_by_hash_def)

lemma map_filter_inverse:
  "(\<And>x. x \<in> set xs \<Longrightarrow> \<exists>y. f x = Some y \<and> g y = x) \<Longrightarrow> map g (List.map_filter f xs) = xs"
proof (induction xs)
  case Nil
  show ?case by (simp add: List.map_filter_simps)
next
  case (Cons x xs)
  from Cons.prems [of x] obtain y where "f x = Some y" "g y = x" by auto
  with Cons show ?case by (simp add: List.map_filter_simps)
qed

lemma set_map_filter: "set (List.map_filter f xs) = {y. \<exists>x \<in> set xs. f x = Some y}"
  by (force simp: List.map_filter_def)

lemma best_chain_heights:
  assumes "graph_ok g"
  shows "map chb_height (best_chain g) = sort (hm_keys (mbs_heights g))"
proof -
  let ?hs = "sort (hm_keys (mbs_heights g))"
  have "\<exists>b. best_block_by_height g h = Some b \<and> chb_height b = h" if "h \<in> set ?hs" for h
  proof -
    from that obtain k where "hm_get (mbs_heights g) h = Some k"
      by (auto simp: set_hm_keys)
    from best_block_total [OF assms this] best_block_height_le [OF assms] show ?thesis by blast
  qed
  then have "map chb_height (List.map_filter (best_block_by_height g) ?hs) = ?hs"
    by (rule map_filter_inverse)
  then show ?thesis
    by (simp add: best_chain_def)
qed

lemma set_best_chain:
  assumes "graph_ok g"
  shows "set (best_chain g) = {b. \<exists>h. best_block_by_height g h = Some b}"
  by (auto simp: best_chain_def set_map_filter set_hm_keys best_block_iff [OF assms])

lemma best_chain_strict:
  assumes "graph_ok g"
  shows "sorted (map chb_height (best_chain g))" "distinct (map chb_height (best_chain g))"
  using graph_okD(2) [OF assms]
  by (simp_all add: best_chain_heights [OF assms] hm_ok_def hm_keys_def)

text \<open>The canonical chain is the only height-sorted list of the canonical blocks.\<close>

lemma best_chain_eqI:
  assumes g: "graph_ok g"
    and set: "set bs = {b. \<exists>h. best_block_by_height g h = Some b}"
    and sorted: "sorted_wrt (<) (map chb_height bs)"
  shows "best_chain g = bs"
proof (rule map_sorted_distinct_set_unique [where f = chb_height])
  show "inj_on chb_height (set (best_chain g) \<union> set bs)"
    using best_block_height_le [OF g] by (auto simp: set_best_chain [OF g] set inj_on_def)
  show "sorted (map chb_height bs)" "distinct (map chb_height bs)"
    using sorted by (simp_all add: strict_sorted_iff)
qed (use best_chain_strict [OF g] set_best_chain [OF g] set in simp_all)

lemma best_chain_canonical:
  assumes g: "graph_ok g"
  shows "b \<in> set (best_chain g) \<longleftrightarrow> best_block_by_height g (chb_height b) = Some b"
  using best_block_height_le [OF g] by (auto simp: set_best_chain [OF g])

lemma best_chain_linked:
  assumes g: "graph_ok g"
  shows "successively child_of (best_chain g)"
  unfolding successively_conv_nth
proof (intro allI impI)
  fix i
  let ?xs = "best_chain g"
  assume i: "Suc i < length ?xs"
  have strict: "chb_height (?xs ! j) < chb_height (?xs ! k)" if "j < k" "k < length ?xs" for j k
    using best_chain_strict [OF g] sorted_wrt_nth_less [of "(<)" "map chb_height ?xs" j k] that
    by (simp add: strict_sorted_iff)
  have canonical: "best_block_by_height g (chb_height (?xs ! j)) = Some (?xs ! j)" if "j < length ?xs" for j
    using nth_mem [OF that] by (simp add: best_chain_canonical [OF g])
  have le: "chb_height (?xs ! Suc i) \<le> chb_height (mbs_tip g)"
    using best_block_height_le [OF g canonical [OF i]] by simp
  with strict [of i "Suc i"] i obtain h' c
    where c: "best_block_by_height g h' = Some c" "child_of (?xs ! i) c"
    using graph_okD(8) [OF g canonical [of i]] by (metis Suc_lessD less_le_trans lessI)
  then have "c \<in> set ?xs" by (auto simp: set_best_chain [OF g])
  then obtain j where j: "j < length ?xs" "?xs ! j = c" by (auto simp: in_set_conv_nth)
  have hc: "hnat (chb_height c) = Suc (hnat (chb_height (?xs ! i)))"
    using c(2) by (rule child_of_height)
  have "i < j"
    using hc j strict [of j i] i by (cases j i rule: linorder_cases) (auto simp: height_less_iff)
  moreover have "\<not> Suc i < j"
    using strict [of i "Suc i"] strict [of "Suc i" j] hc i j by (auto simp: height_less_iff)
  ultimately show "child_of (?xs ! i) (?xs ! Suc i)"
    using c(2) j by (metis Suc_lessI)
qed

lemma sorted_le_last: "sorted (map f xs) \<Longrightarrow> x \<in> set xs \<Longrightarrow> f x \<le> f (last xs)"
  by (induction xs) auto

lemma best_chain_last:
  assumes g: "graph_ok g"
  shows "best_chain g \<noteq> [] \<and> last (best_chain g) = mbs_tip g"
proof -
  have tip: "mbs_tip g \<in> set (best_chain g)"
    by (simp add: best_chain_canonical [OF g] best_block_tip [OF g])
  then have ne: "best_chain g \<noteq> []" by auto
  then have last: "best_block_by_height g (chb_height (last (best_chain g))) = Some (last (best_chain g))"
    using best_chain_canonical [OF g, of "last (best_chain g)"] last_in_set by blast
  have "chb_height (mbs_tip g) \<le> chb_height (last (best_chain g))"
    using best_chain_strict(1) [OF g] tip by (rule sorted_le_last)
  with best_block_height_le [OF g last]
  have "chb_height (last (best_chain g)) = chb_height (mbs_tip g)" by simp
  with last best_block_tip [OF g] have "last (best_chain g) = mbs_tip g" by (metis option.inject)
  with ne show ?thesis by simp
qed

lemma mbs_replace_tip [simp]:
  "mbs_tip (replace_tip b g) = b" "mbs_heights (replace_tip b g) = mbs_heights g"
  "mbs_generation (replace_tip b g) = mbs_generation g"
  by (simp_all add: replace_tip_def Let_def)

lemma hm_get_replace_tip:
  "hm_get (mbs_others (replace_tip b g)) k =
    (if k = chb_hash b then None
     else if k = chb_hash (mbs_tip g) then Some (mbs_tip g) else hm_get (mbs_others g) k)"
  by (auto simp: replace_tip_def Let_def hmap_simps)

lemma hm_ok_replace_tip [intro]: "hm_ok (mbs_others g) \<Longrightarrow> hm_ok (mbs_others (replace_tip b g))"
  by (simp add: replace_tip_def Let_def hm_ok_insert hm_ok_remove)

lemma block_by_hash_replace_tip:
  "block_by_hash (replace_tip b g) k = (if k = chb_hash b then Some b else block_by_hash g k)"
  by (auto simp: block_by_hash_def hm_get_replace_tip)

lemma block_by_hash_heights [simp]: "block_by_hash (g\<lparr>mbs_heights := m\<rparr>) k = block_by_hash g k"
  by (simp add: block_by_hash_def)

subsection \<open>Extending\<close>

lemma extend_Inr:
  "graph_extend b g = Inr g' \<longleftrightarrow> child_of (mbs_tip g) b
    \<and> g' = replace_tip b (g\<lparr>mbs_heights := hm_insert (chb_height b) (chb_hash b) (mbs_heights g)\<rparr>)"
  by (auto simp: graph_extend_def child_of_def Let_def)

lemma extend_block_by_hash:
  "graph_extend b g = Inr g' \<Longrightarrow> block_by_hash g' k = (if k = chb_hash b then Some b else block_by_hash g k)"
  by (simp add: extend_Inr block_by_hash_replace_tip)

lemma extend_best_block:
  assumes "graph_fresh g b" and "graph_extend b g = Inr g'"
  shows "best_block_by_height g' h = (if h = chb_height b then Some b else best_block_by_height g h)"
  using assms
  by (auto simp: extend_Inr best_block_by_height_def hmap_simps block_by_hash_replace_tip graph_fresh_def
      split: option.splits Option.bind_splits)

lemma extend_ok:
  assumes g: "graph_ok g" and f: "graph_fresh g b" and e: "graph_extend b g = Inr g'"
  shows "graph_ok g'"
proof -
  from e have c: "child_of (mbs_tip g) b" by (simp add: extend_Inr)
  then have above: "chb_height (mbs_tip g) < chb_height b"
    by (simp add: child_of_height height_less_iff)
  have bbh: "best_block_by_height g' h = (if h = chb_height b then Some b else best_block_by_height g h)" for h
    by (rule extend_best_block [OF f e])
  have tip: "mbs_tip g' = b" using e by (auto simp: extend_Inr)
  have get: "hm_get (mbs_heights g') h = (if h = chb_height b then Some (chb_hash b) else hm_get (mbs_heights g) h)" for h
    using e by (auto simp: extend_Inr hmap_simps)
  have bh: "block_by_hash g' k = (if k = chb_hash b then Some b else block_by_hash g k)" for k
    using e by (auto simp: extend_Inr block_by_hash_replace_tip)
  have others: "hm_get (mbs_others g') k =
    (if k = chb_hash b then None
     else if k = chb_hash (mbs_tip g) then Some (mbs_tip g) else hm_get (mbs_others g) k)" for k
    using e by (simp add: extend_Inr hm_get_replace_tip)
  show ?thesis
  proof (rule graph_okI)
    show "hm_ok (mbs_others g')" "hm_ok (mbs_heights g')"
      using e graph_okD(1,2) [OF g] by (auto simp: extend_Inr)
    show "chb_hash d = k" if "hm_get (mbs_others g') k = Some d" for k d
      using that graph_okD(4) [OF g] by (simp add: others split: if_splits)
    show "\<exists>d. block_by_hash g' k = Some d \<and> chb_height d = h" if "hm_get (mbs_heights g') h = Some k" for h k
      using that graph_okD(6) [OF g, of h k] f by (auto simp: get bh graph_fresh_def split: if_splits)
    show "h \<le> chb_height (mbs_tip g')" if "hm_get (mbs_heights g') h = Some k" for h k
      using that graph_okD(7) [OF g, of h k] above by (auto simp: get tip split: if_splits)
    show "\<exists>h' c. best_block_by_height g' h' = Some c \<and> child_of d c"
      if "best_block_by_height g' h = Some d" "h < chb_height (mbs_tip g')" for h d
    proof -
      from that have d: "best_block_by_height g h = Some d" by (simp add: bbh tip split: if_splits)
      show ?thesis
      proof (cases "h < chb_height (mbs_tip g)")
        case True
        from graph_okD(8) [OF g d True] obtain h' c
          where c: "best_block_by_height g h' = Some c" "child_of d c" by blast
        from best_block_height_le [OF g c(1)] above have "h' \<noteq> chb_height b" by auto
        with c bbh show ?thesis by metis
      next
        case False
        with best_block_height_le [OF g d] have "h = chb_height (mbs_tip g)" by simp
        with d best_block_tip [OF g] c bbh [of "chb_height b"] show ?thesis by auto
      qed
    qed
  qed (simp_all add: tip get others)
qed

lemma extend_chain:
  assumes g: "graph_ok g" and f: "graph_fresh g b" and e: "graph_extend b g = Inr g'"
  shows "best_chain g' = best_chain g @ [b]"
proof (rule best_chain_eqI)
  show "graph_ok g'" by (rule extend_ok [OF assms])
  from e have "chb_height (mbs_tip g) < chb_height b"
    by (auto simp: extend_Inr child_of_height height_less_iff)
  then have above: "\<forall>d \<in> set (best_chain g). chb_height d < chb_height b"
    using best_block_height_le [OF g] by (fastforce simp: set_best_chain [OF g])
  then have "best_block_by_height g (chb_height b) = None"
    using best_block_height_le [OF g, of "chb_height b"]
    by (cases "best_block_by_height g (chb_height b)") (auto simp: set_best_chain [OF g])
  then show "set (best_chain g @ [b]) = {d. \<exists>h. best_block_by_height g' h = Some d}"
    by (auto simp: extend_best_block [OF f e] set_best_chain [OF g]) (metis option.distinct(1))
  show "sorted_wrt (<) (map chb_height (best_chain g @ [b]))"
    using best_chain_strict [OF g] above by (simp add: sorted_wrt_append strict_sorted_iff)
qed

subsection \<open>Rewinding\<close>

lemma rewind_to_Inr:
  assumes "graph_ok g"
  shows "rewind_to r g = Inr g' \<longleftrightarrow>
    (r = chb_reference (mbs_tip g) \<and> g' = g
     \<or> r \<noteq> chb_reference (mbs_tip g) \<and> is_on_best_chain g r
       \<and> (\<exists>b. hm_get (mbs_others g) (br_hash r) = Some b
         \<and> g' = replace_tip b (g\<lparr>mbs_heights := hm_retain (\<lambda>h _. h \<le> br_height r) (mbs_heights g)\<rparr>)))"
  by (auto simp: rewind_to_def split: option.splits)

lemma best_block_reference:
  assumes "graph_ok g" and "is_on_best_chain g r"
  shows "\<exists>b. best_block_by_height g (br_height r) = Some b \<and> chb_reference b = r"
proof -
  from assms(2) have r: "hm_get (mbs_heights g) (br_height r) = Some (br_hash r)"
    by (simp add: is_on_best_chain_def)
  from best_block_total [OF assms(1) r] obtain b where b: "best_block_by_height g (br_height r) = Some b" ..
  with r have "br_hash (chb_reference b) = br_hash r" "br_height (chb_reference b) = br_height r"
    by (simp_all add: best_block_iff [OF assms(1)] chb_hash_def chb_height_def)
  with b show ?thesis by auto
qed

lemma on_best_chain_iff:
  assumes "graph_ok g"
  shows "is_on_best_chain g r \<longleftrightarrow> r \<in> chb_reference ` set (best_chain g)"
proof
  assume "is_on_best_chain g r"
  from best_block_reference [OF assms this] show "r \<in> chb_reference ` set (best_chain g)"
    by (auto simp: set_best_chain [OF assms])
next
  assume "r \<in> chb_reference ` set (best_chain g)"
  then show "is_on_best_chain g r"
    by (auto simp: set_best_chain [OF assms] best_block_iff [OF assms] is_on_best_chain_def
        chb_hash_def chb_height_def)
qed

lemma rewind_best_block:
  assumes g: "graph_ok g" and r: "rewind_to r g = Inr g'"
  shows "block_by_hash g' k = block_by_hash g k"
    and "hm_get (mbs_heights g') h = (if h \<le> br_height r then hm_get (mbs_heights g) h else None)"
    and "best_block_by_height g' h = (if h \<le> br_height r then best_block_by_height g h else None)"
    and "best_block_by_height g (br_height r) = Some (mbs_tip g')"
proof -
  consider (same) "r = chb_reference (mbs_tip g)" "g' = g"
    | (moved) b where "is_on_best_chain g r" "hm_get (mbs_others g) (br_hash r) = Some b"
      "g' = replace_tip b (g\<lparr>mbs_heights := hm_retain (\<lambda>h _. h \<le> br_height r) (mbs_heights g)\<rparr>)"
    using r by (auto simp: rewind_to_Inr [OF g])
  then have all: "block_by_hash g' k = block_by_hash g k
    \<and> hm_get (mbs_heights g') h = (if h \<le> br_height r then hm_get (mbs_heights g) h else None)
    \<and> best_block_by_height g (br_height r) = Some (mbs_tip g')" for h k
  proof cases
    case same
    then show ?thesis
      using graph_okD(7) [OF g, of h] best_block_tip [OF g]
      by (cases "hm_get (mbs_heights g) h") (auto simp: chb_height_def)
  next
    case moved
    from moved(2) graph_okD(3,4) [OF g] have h: "chb_hash b = br_hash r" "br_hash r \<noteq> chb_hash (mbs_tip g)"
      by auto
    then have b: "block_by_hash g (br_hash r) = Some b"
      using moved(2) by (simp add: block_by_hash_def)
    with best_block_reference [OF g moved(1)] moved(1)
    have "best_block_by_height g (br_height r) = Some b"
      by (auto simp: best_block_by_height_def is_on_best_chain_def)
    with moved b h show ?thesis
      using graph_okD(2) [OF g]
      by (auto simp: block_by_hash_replace_tip hmap_simps split: option.splits)
  qed
  then show "block_by_hash g' k = block_by_hash g k"
    and "hm_get (mbs_heights g') h = (if h \<le> br_height r then hm_get (mbs_heights g) h else None)"
    and "best_block_by_height g (br_height r) = Some (mbs_tip g')"
    by blast+
  from all show "best_block_by_height g' h = (if h \<le> br_height r then best_block_by_height g h else None)"
    by (cases "hm_get (mbs_heights g) h") (simp_all add: best_block_by_height_def)
qed

lemma rewind_ok:
  assumes g: "graph_ok g" and r: "rewind_to r g = Inr g'"
  shows "graph_ok g'"
proof (cases "g' = g")
  case False
  note view = rewind_best_block [OF g r]
  have height: "chb_height (mbs_tip g') = br_height r"
    using best_block_height_le [OF g view(4)] by simp
  from False r obtain b where b: "hm_get (mbs_others g) (br_hash r) = Some b"
    "g' = replace_tip b (g\<lparr>mbs_heights := hm_retain (\<lambda>h _. h \<le> br_height r) (mbs_heights g)\<rparr>)"
    by (auto simp: rewind_to_Inr [OF g])
  show ?thesis
  proof (rule graph_okI)
    show "hm_ok (mbs_others g')" "hm_ok (mbs_heights g')"
      using b(2) graph_okD(1,2) [OF g] by auto
    show "hm_get (mbs_others g') (chb_hash (mbs_tip g')) = None"
      using b(2) by (simp add: hm_get_replace_tip)
    show "chb_hash d = k" if "hm_get (mbs_others g') k = Some d" for k d
      using that b(2) graph_okD(4) [OF g] by (simp add: hm_get_replace_tip split: if_splits)
    show "hm_get (mbs_heights g') (chb_height (mbs_tip g')) = Some (chb_hash (mbs_tip g'))"
      using view(2) view(4) by (simp add: height best_block_iff [OF g])
    show "\<exists>d. block_by_hash g' k = Some d \<and> chb_height d = h" if "hm_get (mbs_heights g') h = Some k" for h k
      using that graph_okD(6) [OF g, of h k] by (auto simp: view(1,2) split: if_splits)
    show "h \<le> chb_height (mbs_tip g')" if "hm_get (mbs_heights g') h = Some k" for h k
      using that by (auto simp: view(2) height split: if_splits)
    show "\<exists>h' c. best_block_by_height g' h' = Some c \<and> child_of d c"
      if d: "best_block_by_height g' h = Some d" and lt: "h < chb_height (mbs_tip g')" for h d
    proof -
      from d have d': "best_block_by_height g h = Some d" by (simp add: view(3) split: if_splits)
      with lt height best_block_height_le [OF g view(4)] obtain h' c
        where c: "best_block_by_height g h' = Some c" "child_of d c"
        using graph_okD(8) [OF g d'] by (metis less_le_trans)
      from best_block_height_le [OF g d'] best_block_height_le [OF g c(1)] child_of_height [OF c(2)] lt height
      have "h' \<le> br_height r" by (simp add: height_le_iff height_less_iff)
      with c show ?thesis by (auto simp: view(3))
    qed
  qed
qed (use g in simp)

lemma takeWhile_sorted_filter:
  "sorted (map f xs) \<Longrightarrow> takeWhile (\<lambda>c. f c \<le> x) xs = filter (\<lambda>c. f c \<le> x) xs"
proof (induction xs)
  case (Cons a xs)
  then show ?case
    by (cases "f a \<le> x") (auto simp: eq_commute [of "[]"] filter_empty_conv dest: order_trans)
qed simp

lemma sorted_wrt_map_filter: "sorted_wrt R (map f xs) \<Longrightarrow> sorted_wrt R (map f (filter P xs))"
  by (induction xs) auto

lemma best_chain_sorted_wrt: "graph_ok g \<Longrightarrow> sorted_wrt (<) (map chb_height (best_chain g))"
  using best_chain_strict by (simp add: strict_sorted_iff)

lemma rewind_chain:
  assumes g: "graph_ok g" and r: "rewind_to r g = Inr g'"
  shows "best_chain g' = takeWhile (\<lambda>c. chb_height c \<le> br_height r) (best_chain g)"
  unfolding takeWhile_sorted_filter [OF best_chain_strict(1) [OF g]]
proof (rule best_chain_eqI)
  show "graph_ok g'" by (rule rewind_ok [OF assms])
  show "set (filter (\<lambda>c. chb_height c \<le> br_height r) (best_chain g))
    = {b. \<exists>h. best_block_by_height g' h = Some b}"
    using best_block_height_le [OF g]
    by (auto simp: rewind_best_block(3) [OF g r] set_best_chain [OF g] split: if_splits)
  show "sorted_wrt (<) (map chb_height (filter (\<lambda>c. chb_height c \<le> br_height r) (best_chain g)))"
    by (intro sorted_wrt_map_filter best_chain_sorted_wrt g)
qed

lemma rewind_accepts:
  assumes g: "graph_ok g" and r: "is_on_best_chain g r"
  shows "\<exists>g'. rewind_to r g = Inr g'"
proof (cases "r = chb_reference (mbs_tip g)")
  case False
  from best_block_reference [OF assms] obtain b
    where b: "best_block_by_height g (br_height r) = Some b" "chb_reference b = r" by blast
  with False have "b \<noteq> mbs_tip g" by auto
  with b(1) have "hm_get (mbs_others g) (chb_hash b) = Some b"
    by (auto simp: best_block_iff [OF g] block_by_hash_def split: if_splits)
  with b(2) have "hm_get (mbs_others g) (br_hash r) = Some b"
    by (simp add: chb_hash_def)
  with False r show ?thesis by (simp add: rewind_to_def)
qed (simp add: rewind_to_def)

lemma rewind_rejects:
  assumes "graph_ok g" and "\<not> is_on_best_chain g r"
  shows "rewind_to r g = Inl NotOnBestChain"
  using assms graph_okD(5) [OF assms(1)]
  by (auto simp: rewind_to_def is_on_best_chain_def chb_hash_def chb_height_def)

subsection \<open>Trimming\<close>

lemma trim_view:
  fixes floor
  assumes g: "graph_ok g"
  defines "g' \<equiv> remove_finalised_blocks floor g"
  shows "mbs_tip g' = mbs_tip g"
    and "hm_get (mbs_others g') k =
      (case hm_get (mbs_others g) k of None \<Rightarrow> None | Some b \<Rightarrow> if floor \<le> chb_height b then Some b else None)"
    and "hm_get (mbs_heights g') h =
      (if floor \<le> h \<or> h = chb_height (mbs_tip g) then hm_get (mbs_heights g) h else None)"
    and "best_block_by_height g' h =
      (if floor \<le> h \<or> h = chb_height (mbs_tip g) then best_block_by_height g h else None)"
proof -
  show tip: "mbs_tip g' = mbs_tip g"
    by (simp add: g'_def remove_finalised_blocks_def Let_def)
  show others: "hm_get (mbs_others g') k =
      (case hm_get (mbs_others g) k of None \<Rightarrow> None | Some b \<Rightarrow> if floor \<le> chb_height b then Some b else None)" for k
    using graph_okD(1) [OF g] by (simp add: g'_def remove_finalised_blocks_def Let_def hmap_simps)
  have tip_entry: "k = chb_hash (mbs_tip g) \<longleftrightarrow> h = chb_height (mbs_tip g)"
    if "hm_get (mbs_heights g) h = Some k" for h k
  proof
    assume "k = chb_hash (mbs_tip g)"
    with graph_okD(6) [OF g that] show "h = chb_height (mbs_tip g)" by (simp add: block_by_hash_def)
  next
    assume "h = chb_height (mbs_tip g)"
    with that graph_okD(5) [OF g] show "k = chb_hash (mbs_tip g)" by simp
  qed
  show heights: "hm_get (mbs_heights g') h =
      (if floor \<le> h \<or> h = chb_height (mbs_tip g) then hm_get (mbs_heights g) h else None)" for h
  proof (cases "hm_get (mbs_heights g) h")
    case (Some k)
    with tip_entry [OF Some] graph_okD(2) [OF g] show ?thesis
      by (simp add: g'_def remove_finalised_blocks_def Let_def hmap_simps)
  qed (use graph_okD(2) [OF g] in \<open>simp add: g'_def remove_finalised_blocks_def Let_def hmap_simps\<close>)
  have kept: "block_by_hash g' k = block_by_hash g k"
    if k: "hm_get (mbs_heights g) h = Some k" and h: "floor \<le> h \<or> h = chb_height (mbs_tip g)" for h k
  proof (cases "k = chb_hash (mbs_tip g)")
    case False
    from graph_okD(6) [OF g k] obtain d where d: "block_by_hash g k = Some d" "chb_height d = h" by blast
    with False have "hm_get (mbs_others g) k = Some d" by (simp add: block_by_hash_def split: if_splits)
    moreover from h False tip_entry [OF k] d(2) have "floor \<le> chb_height d" by simp
    ultimately show ?thesis using d False by (simp add: block_by_hash_def tip others)
  qed (simp add: block_by_hash_def tip)
  show "best_block_by_height g' h =
      (if floor \<le> h \<or> h = chb_height (mbs_tip g) then best_block_by_height g h else None)"
  proof (cases "hm_get (mbs_heights g) h")
    case (Some k)
    with kept [OF Some] show ?thesis by (simp add: best_block_by_height_def heights)
  qed (simp add: best_block_by_height_def heights)
qed

lemma trim_ok:
  assumes g: "graph_ok g"
  shows "graph_ok (remove_finalised_blocks floor g)"
proof (rule graph_okI)
  let ?g' = "remove_finalised_blocks floor g"
  note view = trim_view [OF g, of floor]
  show "hm_ok (mbs_others ?g')" "hm_ok (mbs_heights ?g')"
    using graph_okD(1,2) [OF g] by (auto simp: remove_finalised_blocks_def Let_def)
  show "hm_get (mbs_others ?g') (chb_hash (mbs_tip ?g')) = None"
    using graph_okD(3) [OF g] by (simp add: view)
  show "chb_hash d = k" if "hm_get (mbs_others ?g') k = Some d" for k d
    using that graph_okD(4) [OF g] by (simp add: view(2) split: option.splits if_splits)
  show "hm_get (mbs_heights ?g') (chb_height (mbs_tip ?g')) = Some (chb_hash (mbs_tip ?g'))"
    using graph_okD(5) [OF g] by (simp add: view)
  show "\<exists>d. block_by_hash ?g' k = Some d \<and> chb_height d = h" if "hm_get (mbs_heights ?g') h = Some k" for h k
  proof -
    from that have k: "hm_get (mbs_heights g) h = Some k" "floor \<le> h \<or> h = chb_height (mbs_tip g)"
      by (auto simp: view(3) split: if_splits)
    from best_block_total [OF g k(1)] obtain d where d: "best_block_by_height g h = Some d" ..
    with k have "best_block_by_height ?g' h = Some d" by (auto simp: view(4))
    with that best_block_height_le [OF g d] show ?thesis by (auto simp: best_block_by_height_def)
  qed
  show "h \<le> chb_height (mbs_tip ?g')" if "hm_get (mbs_heights ?g') h = Some k" for h k
    using that graph_okD(7) [OF g, of h k] by (auto simp: view split: if_splits)
  show "\<exists>h' c. best_block_by_height ?g' h' = Some c \<and> child_of d c"
    if d: "best_block_by_height ?g' h = Some d" and lt: "h < chb_height (mbs_tip ?g')" for h d
  proof -
    from d lt have d': "best_block_by_height g h = Some d" and fl: "floor \<le> h"
      by (auto simp: view split: if_splits)
    from graph_okD(8) [OF g d'] lt obtain h' c
      where c: "best_block_by_height g h' = Some c" "child_of d c" by (auto simp: view)
    from best_block_height_le [OF g d'] best_block_height_le [OF g c(1)] child_of_height [OF c(2)] fl
    have "floor \<le> h'" by (simp add: height_le_iff)
    with c show ?thesis by (auto simp: view(4))
  qed
qed

lemma trim_best_chain:
  assumes g: "graph_ok g"
  shows "best_chain (remove_finalised_blocks floor g) =
    filter (\<lambda>c. floor \<le> chb_height c \<or> c = tip_block g) (best_chain g)"
proof (rule best_chain_eqI)
  show "graph_ok (remove_finalised_blocks floor g)" by (rule trim_ok [OF g])
  have "c = mbs_tip g \<longleftrightarrow> chb_height c = chb_height (mbs_tip g)" if "c \<in> set (best_chain g)" for c
    using that best_chain_canonical [OF g] best_block_tip [OF g] by (metis option.inject)
  then have "c \<in> set (filter (\<lambda>c. floor \<le> chb_height c \<or> c = tip_block g) (best_chain g)) \<longleftrightarrow>
    best_block_by_height (remove_finalised_blocks floor g) (chb_height c) = Some c" for c
    using best_chain_canonical [OF g, of c] by (auto simp: trim_view(4) [OF g] tip_block_def)
  then show "set (filter (\<lambda>c. floor \<le> chb_height c \<or> c = tip_block g) (best_chain g)) =
    {b. \<exists>h. best_block_by_height (remove_finalised_blocks floor g) h = Some b}"
    using best_block_height_le [OF trim_ok [OF g]] by blast
  show "sorted_wrt (<) (map chb_height (filter (\<lambda>c. floor \<le> chb_height c \<or> c = tip_block g) (best_chain g)))"
    by (intro sorted_wrt_map_filter best_chain_sorted_wrt g)
qed

subsection \<open>The interpretation\<close>

lemma initial_ok: "graph_ok (from_initial_block b)"
  by (rule graph_okI)
    (auto simp: from_initial_block_def hmap_simps block_by_hash_def best_block_by_height_def split: if_splits)

lemma initial_best_chain: "best_chain (from_initial_block b) = [b]"
  by (rule best_chain_eqI [OF initial_ok])
    (auto simp: from_initial_block_def hmap_simps block_by_hash_def best_block_by_height_def split: if_splits)

interpretation mbs: canonical_chain graph_ok best_chain tip_block graph_fresh from_initial_block graph_extend
  rewind_to remove_finalised_blocks
proof
  fix g :: map_backed_snapshot and b r floor
  show "graph_ok (from_initial_block b) \<and> best_chain (from_initial_block b) = [b]"
    by (simp add: initial_ok initial_best_chain)
  show "\<exists>e. graph_extend b g = Inl e" if "\<not> child_of (tip_block g) b"
    using that by (auto simp: graph_extend_def child_of_def tip_block_def Let_def)
  show "\<exists>g'. graph_extend b g = Inr g' \<and> graph_ok g' \<and> best_chain g' = best_chain g @ [b]"
    if "graph_ok g" "child_of (tip_block g) b" "graph_fresh g b"
    using that extend_ok extend_chain by (simp add: tip_block_def extend_Inr)
  assume g: "graph_ok g"
  show "best_chain g \<noteq> [] \<and> last (best_chain g) = tip_block g"
    using best_chain_last [OF g] by (simp add: tip_block_def)
  show "successively child_of (best_chain g)"
    by (rule best_chain_linked [OF g])
  show "graph_ok (remove_finalised_blocks floor g) \<and> tip_block (remove_finalised_blocks floor g) = tip_block g
    \<and> best_chain (remove_finalised_blocks floor g) = filter (\<lambda>c. floor \<le> chb_height c \<or> c = tip_block g) (best_chain g)"
    using trim_ok [OF g] trim_best_chain [OF g] trim_view(1) [OF g] by (simp add: tip_block_def)
  show "\<exists>e. rewind_to r g = Inl e" if "r \<notin> chb_reference ` set (best_chain g)"
    using that rewind_rejects [OF g] by (simp add: on_best_chain_iff [OF g])
  show "\<exists>g'. rewind_to (chb_reference b) g = Inr g' \<and> graph_ok g'
      \<and> best_chain g' = takeWhile (\<lambda>c. chb_height c \<le> chb_height b) (best_chain g)"
    if "b \<in> set (best_chain g)"
  proof -
    from that have "is_on_best_chain g (chb_reference b)" by (simp add: on_best_chain_iff [OF g])
    from rewind_accepts [OF g this] rewind_ok [OF g] rewind_chain [OF g] show ?thesis
      by (metis chb_height_def)
  qed
qed

section \<open>Blocks from a ledger\<close>

text \<open>
  A block hash commits to its block: \<open>L\<close> gives the height and the parent hash of the block a
  hash names, if it names one. A block above genesis sits one height above its parent, and
  the parent hash of a genesis block names no block. Every block a validator serves agrees
  with one such ledger; this is what rules out cycles of parent hashes and a hash that names
  two blocks.
\<close>

type_synonym ledger = "block_hash \<Rightarrow> (nat \<times> block_hash) option"

definition ledger_ok :: "ledger \<Rightarrow> bool" where
  "ledger_ok L \<longleftrightarrow> (\<forall>k n p. L k = Some (n, p) \<longrightarrow>
     (case n of 0 \<Rightarrow> L p = None | Suc m \<Rightarrow> \<exists>q. L p = Some (m, q)))"

definition ledger_block :: "ledger \<Rightarrow> chain_head_block \<Rightarrow> bool" where
  "ledger_block L b \<longleftrightarrow> L (chb_hash b) = Some (hnat (chb_height b), chb_parent_hash b)"

definition graph_ledger :: "ledger \<Rightarrow> map_backed_snapshot \<Rightarrow> bool" where
  "graph_ledger L g \<longleftrightarrow> (\<forall>k b. block_by_hash g k = Some b \<longrightarrow> ledger_block L b)"

lemma mbs_blocks_iff:
  assumes "graph_ok g"
  shows "b \<in> set (mbs_blocks g) \<longleftrightarrow> block_by_hash g (chb_hash b) = Some b"
  using graph_okD(1,3,4) [OF assms]
  by (auto simp: mbs_blocks_def set_hm_values block_by_hash_def)

lemma ledger_fresh:
  assumes g: "graph_ok g" and l: "graph_ledger L g" and b: "ledger_block L b"
    and c: "child_of (tip_block g) b"
  shows "graph_fresh g b"
  unfolding graph_fresh_def
proof (intro allI notI)
  fix h
  assume h: "hm_get (mbs_heights g) h = Some (chb_hash b)"
  from graph_okD(6) [OF g h] obtain d where d: "block_by_hash g (chb_hash b) = Some d" "chb_height d = h"
    by blast
  with l have "L (chb_hash d) = Some (hnat h, chb_parent_hash d)"
    by (auto simp: graph_ledger_def ledger_block_def)
  with block_by_hash_hash [OF g d(1)] b have "hnat (chb_height b) = hnat h"
    by (simp add: ledger_block_def)
  with graph_okD(7) [OF g h] child_of_height [OF c] show False
    by (simp add: height_le_iff tip_block_def)
qed

lemma extend_ledger:
  assumes "graph_ledger L g" and "ledger_block L b" and "graph_extend b g = Inr g'"
  shows "graph_ledger L g'"
  using assms by (auto simp: graph_ledger_def extend_Inr block_by_hash_replace_tip split: if_splits)

lemma rewind_ledger:
  assumes "graph_ok g" and "graph_ledger L g" and "rewind_to r g = Inr g'"
  shows "graph_ledger L g'"
  using assms by (simp add: graph_ledger_def rewind_best_block(1))

lemma trim_ledger:
  assumes "graph_ok g" and "graph_ledger L g"
  shows "graph_ledger L (remove_finalised_blocks floor g)"
proof -
  have "block_by_hash g k = Some b" if "block_by_hash (remove_finalised_blocks floor g) k = Some b" for k b
    using that trim_view(1,2) [OF assms(1), of floor]
    by (auto simp: block_by_hash_def split: if_splits option.splits)
  with assms(2) show ?thesis by (auto simp: graph_ledger_def)
qed

lemma initial_ledger: "ledger_block L b \<Longrightarrow> graph_ledger L (from_initial_block b)"
  by (auto simp: graph_ledger_def from_initial_block_def block_by_hash_def split: if_splits)

lemma stamp_simps [simp]:
  "mbs_tip (stamp_generation p n g) = mbs_tip g" "mbs_others (stamp_generation p n g) = mbs_others g"
  "mbs_heights (stamp_generation p n g) = mbs_heights g"
  by (simp_all add: stamp_generation_def)

lemma stamp_views [simp]:
  "block_by_hash (stamp_generation p n g) k = block_by_hash g k"
  "best_block_by_height (stamp_generation p n g) h = best_block_by_height g h"
  "best_chain (stamp_generation p n g) = best_chain g"
  "graph_ok (stamp_generation p n g) = graph_ok g"
  "graph_ledger L (stamp_generation p n g) = graph_ledger L g"
proof -
  show bh: "block_by_hash (stamp_generation p n g) k = block_by_hash g k" for k
    by (simp add: block_by_hash_def)
  show bbh: "best_block_by_height (stamp_generation p n g) h = best_block_by_height g h" for h
    by (cases "hm_get (mbs_heights g) h") (simp_all add: best_block_by_height_def bh)
  have "best_block_by_height (stamp_generation p n g) = best_block_by_height g"
    using bbh by blast
  then show "best_chain (stamp_generation p n g) = best_chain g"
    by (simp add: best_chain_def)
  show "graph_ok (stamp_generation p n g) = graph_ok g"
    by (simp add: graph_ok_def bh bbh)
  show "graph_ledger L (stamp_generation p n g) = graph_ledger L g"
    by (simp add: graph_ledger_def bh)
qed

text \<open>The graphs the writer can build: a single block, then any accepted moves.\<close>

inductive graph_run :: "ledger \<Rightarrow> map_backed_snapshot \<Rightarrow> bool" for L where
  initial: "ledger_block L b \<Longrightarrow> graph_run L (from_initial_block b)"
| extended: "graph_run L g \<Longrightarrow> ledger_block L b \<Longrightarrow> graph_extend b g = Inr g' \<Longrightarrow> graph_run L g'"
| rewound: "graph_run L g \<Longrightarrow> rewind_to r g = Inr g' \<Longrightarrow> graph_run L g'"
| trimmed: "graph_run L g \<Longrightarrow> graph_run L (remove_finalised_blocks floor g)"
| stamped: "graph_run L g \<Longrightarrow> graph_run L (stamp_generation p n g)"

lemma extend_step:
  assumes "graph_ok g" and "graph_ledger L g" and "ledger_block L b" and "graph_extend b g = Inr g'"
  shows "graph_ok g' \<and> graph_ledger L g' \<and> child_of (tip_block g) b
    \<and> best_chain g' = best_chain g @ [b] \<and> tip_block g' = b"
proof -
  have "child_of (tip_block g) b" using assms(4) by (simp add: extend_Inr tip_block_def)
  from ledger_fresh [OF assms(1-3) this] mbs.lay_Inr [OF assms(1) _ assms(4)] extend_ledger [OF assms(2-4)]
  show ?thesis by blast
qed

lemma graph_run_ok: "graph_run L g \<Longrightarrow> graph_ok g \<and> graph_ledger L g"
proof (induction rule: graph_run.induct)
  case (extended g b g')
  then show ?case using extend_step by blast
next
  case (rewound g r g')
  then show ?case using rewind_ok rewind_ledger by blast
next
  case (trimmed g floor)
  then show ?case using trim_ok trim_ledger by blast
qed (simp_all add: initial_ok initial_ledger)

section \<open>Properties of the graph\<close>

lemma heaviest_fold:
  "foldl (\<lambda>heaviest b. if chb_work b > chb_work heaviest then b else heaviest) t bs \<in> insert t (set bs)
   \<and> (\<forall>b \<in> insert t (set bs).
       chb_work b \<le> chb_work (foldl (\<lambda>heaviest b. if chb_work b > chb_work heaviest then b else heaviest) t bs))
   \<and> (foldl (\<lambda>heaviest b. if chb_work b > chb_work heaviest then b else heaviest) t bs = t
      \<or> chb_work t < chb_work (foldl (\<lambda>heaviest b. if chb_work b > chb_work heaviest then b else heaviest) t bs))"
proof (induction bs rule: rev_induct)
  case (snoc b bs)
  then show ?case by (auto intro: order_trans less_imp_le less_trans)
qed simp

lemma heaviest_block_in: "heaviest_block g \<in> set (mbs_blocks g)"
  using heaviest_fold [of "mbs_tip g" "hm_values (mbs_others g)"]
  by (simp add: heaviest_block_def mbs_blocks_def)

lemma heaviest_block_max: "b \<in> set (mbs_blocks g) \<Longrightarrow> chb_work b \<le> chb_work (heaviest_block g)"
  using heaviest_fold [of "mbs_tip g" "hm_values (mbs_others g)"]
  unfolding heaviest_block_def mbs_blocks_def list.set by blast

lemma heaviest_block_strict: "heaviest_block g = tip_block g \<or> chb_work (tip_block g) < chb_work (heaviest_block g)"
  using heaviest_fold [of "mbs_tip g" "hm_values (mbs_others g)"]
  unfolding heaviest_block_def tip_block_def by blast

text \<open>
  A ledger for examples: the hash of a block is the non-empty list of choices made since
  genesis, so its parent is the tail and its height the length of the tail.
\<close>

fun example_ledger :: ledger where
  "example_ledger (BlockHash []) = None"
| "example_ledger (BlockHash (x # bs)) = Some (length bs, BlockHash bs)"

definition example_raw :: "u8 list \<Rightarrow> block" where
  "example_raw bs =
     \<lparr>blk_header =
        \<lparr>bh_hash = BlockHash bs, bh_version = 4, bh_prev_hash = BlockHash (tl bs),
         bh_height = Height (word_of_nat (length (tl bs))), bh_time = 0, bh_merkle_root = MerkleRoot [],
         bh_block_commitments = BlockCommitments [],
         bh_bits = \<lparr>cd_bits = 0x1f07ffff, cd_work = SingleBlockWork 8192\<rparr>,
         bh_nonce = [], bh_solution = Regtest []\<rparr>,
      blk_transactions = [],
      blk_chain_metadata = chain_metadata_ZERO\<rparr>"

definition example_block :: "u8 list \<Rightarrow> chain_head_block" where
  "example_block bs =
     \<lparr>chb_reference = \<lparr>br_hash = BlockHash bs, br_height = Height (word_of_nat (length (tl bs)))\<rparr>,
      chb_parent_hash = BlockHash (tl bs),
      chb_work = ChainHeadWork (8192 * word_of_nat (length (tl bs))),
      chb_block = example_raw bs,
      chb_tree_roots = \<lparr>tr_sapling = None, tr_orchard = None, tr_ironwood = None\<rparr>\<rparr>"

lemma example_ledger_ok: "ledger_ok example_ledger"
  unfolding ledger_ok_def
proof (intro allI impI)
  fix k n p
  assume "example_ledger k = Some (n, p)"
  then show "case n of 0 \<Rightarrow> example_ledger p = None | Suc m \<Rightarrow> \<exists>q. example_ledger p = Some (m, q)"
    by (cases k rule: example_ledger.cases) (auto split: nat.split simp: length_Suc_conv)
qed

lemma example_block_simps [simp]:
  "chb_hash (example_block bs) = BlockHash bs"
  "chb_height (example_block bs) = Height (word_of_nat (length (tl bs)))"
  "chb_parent_hash (example_block bs) = BlockHash (tl bs)"
  by (simp_all add: example_block_def chb_hash_def chb_height_def)

lemma example_ledger_block: "length bs < 2 ^ 31 \<Longrightarrow> ledger_block example_ledger (example_block (x # bs))"
  by (simp add: ledger_block_def unat_of_nat)

lemma example_child:
  assumes "length bs < 2 ^ 31 - 2"
  shows "child_of (example_block (y # bs)) (example_block (x # y # bs))"
proof -
  have "hnat (chb_height (example_block (z # cs))) = length cs" if "length cs < 2 ^ 31" for z cs
    using that by (simp add: unat_of_nat)
  from this [of bs y] this [of "y # bs" x] assms show ?thesis
    unfolding child_of_def height_checked_add_one height_ok_iff by simp
qed

definition example_graph :: map_backed_snapshot where
  "example_graph =
     (case graph_extend (example_block [1, 0]) (from_initial_block (example_block [0])) of
        Inl _ \<Rightarrow> from_initial_block (example_block [0]) | Inr g \<Rightarrow> g)"

lemma example_graph_extend:
  "graph_extend (example_block [1, 0]) (from_initial_block (example_block [0])) = Inr example_graph"
  using example_child [of "[]" 0 1]
  by (simp add: example_graph_def graph_extend_def child_of_def from_initial_block_def)

lemma example_graph_run: "graph_run example_ledger example_graph"
  using graph_run.extended [OF graph_run.initial _ example_graph_extend] by (simp add: example_ledger_block)

lemma example_graph_chain: "best_chain example_graph = [example_block [0], example_block [1, 0]]"
  and example_graph_tip: "tip_block example_graph = example_block [1, 0]"
  using extend_step [OF initial_ok initial_ledger _ example_graph_extend] initial_best_chain
    example_ledger_block [of "[]" 0] example_ledger_block [of "[0]" 1] by simp_all

text \<open>C9. The graph invariants of the contract hold in every graph the writer can build:
  the tip is retained; every canonical height names a retained block of that height; nothing
  above the tip is canonical; and each canonical block below the tip has a canonical block
  directly above it that names it as its parent, so canonical heights have no gaps up to the
  tip.\<close>

theorem graph_invariants:
  assumes "graph_run L g"
  shows "block_by_hash g (chb_hash (tip_block g)) = Some (tip_block g)
    \<and> best_block_by_height g (chb_height (tip_block g)) = Some (tip_block g)
    \<and> (\<forall>r. is_on_best_chain g r \<longrightarrow> (\<exists>b. block_by_hash g (br_hash r) = Some b \<and> chb_reference b = r))
    \<and> (\<forall>h. best_block_by_height g h \<noteq> None \<longrightarrow> h \<le> chb_height (tip_block g))
    \<and> (\<forall>h b. best_block_by_height g h = Some b \<and> h < chb_height (tip_block g) \<longrightarrow>
        (\<exists>h' c. hnat h' = Suc (hnat h) \<and> best_block_by_height g h' = Some c \<and> chb_parent_hash c = chb_hash b))"
proof -
  have g: "graph_ok g" using graph_run_ok [OF assms] by blast
  have "\<exists>h' c. hnat h' = Suc (hnat h) \<and> best_block_by_height g h' = Some c \<and> chb_parent_hash c = chb_hash b"
    if b: "best_block_by_height g h = Some b" and lt: "h < chb_height (mbs_tip g)" for h b
  proof -
    from graph_okD(8) [OF g b lt] obtain h' c where c: "best_block_by_height g h' = Some c" "child_of b c" by blast
    from best_block_height_le [OF g b] best_block_height_le [OF g c(1)] child_of_height [OF c(2)]
    have "hnat h' = Suc (hnat h)" by simp
    with c show ?thesis by (auto simp: child_of_def)
  qed
  moreover have "\<exists>b. block_by_hash g (br_hash r) = Some b \<and> chb_reference b = r" if "is_on_best_chain g r" for r
    using best_block_reference [OF g that] by (auto simp: best_block_iff [OF g] chb_hash_def)
  moreover have "h \<le> chb_height (mbs_tip g)" if "best_block_by_height g h \<noteq> None" for h
    using that best_block_height_le [OF g, of h] by blast
  moreover have "block_by_hash g (chb_hash (mbs_tip g)) = Some (mbs_tip g)"
    by (simp add: block_by_hash_def)
  ultimately show ?thesis
    unfolding tip_block_def using best_block_tip [OF g] by blast
qed

theorem graph_invariants_witness:
  "graph_run example_ledger example_graph
   \<and> best_block_by_height example_graph (Height 1) = Some (example_block [1, 0])"
  using graph_invariants [OF example_graph_run] example_graph_run by (simp add: example_graph_tip)

text \<open>C6. The map-backed graph implements the contract of its moves, read through its list of
  canonical blocks: extending appends a block that sits directly above the tip and is refused
  for any other; rewinding to a canonical block cuts the chain at it and is refused for any
  other; trimming drops exactly the canonical blocks below the floor, never the tip; and
  neither of the last two changes which blocks outside the trimmed range are retained.\<close>

theorem graph_moves_refine:
  assumes "graph_run L g"
  shows "successively child_of (best_chain g) \<and> best_chain g \<noteq> [] \<and> last (best_chain g) = tip_block g
    \<and> (ledger_block L b \<longrightarrow>
        (if child_of (tip_block g) b then \<exists>g'. graph_extend b g = Inr g' \<and> best_chain g' = best_chain g @ [b]
         else graph_extend b g = Inl \<lparr>nct_tip = best_tip g, nct_block = chb_reference b\<rparr>))
    \<and> (if r \<in> chb_reference ` set (best_chain g)
        then \<exists>g'. rewind_to r g = Inr g' \<and> best_chain g' = takeWhile (\<lambda>c. chb_height c \<le> br_height r) (best_chain g)
          \<and> block_by_hash g' = block_by_hash g
        else rewind_to r g = Inl NotOnBestChain)
    \<and> best_chain (remove_finalised_blocks floor g) = filter (\<lambda>c. floor \<le> chb_height c \<or> c = tip_block g) (best_chain g)"
proof (intro conjI)
  have g: "graph_ok g" and l: "graph_ledger L g" using graph_run_ok [OF assms] by auto
  show "successively child_of (best_chain g)" "best_chain g \<noteq> []" "last (best_chain g) = tip_block g"
    using mbs.chain_linked [OF g] mbs.chain_tip [OF g] by auto
  show "ledger_block L b \<longrightarrow>
        (if child_of (tip_block g) b then \<exists>g'. graph_extend b g = Inr g' \<and> best_chain g' = best_chain g @ [b]
         else graph_extend b g = Inl \<lparr>nct_tip = best_tip g, nct_block = chb_reference b\<rparr>)"
    using mbs.lay_accepted [OF g] ledger_fresh [OF g l]
    by (auto simp: graph_extend_def child_of_def tip_block_def best_tip_def Let_def)
  show "if r \<in> chb_reference ` set (best_chain g)
        then \<exists>g'. rewind_to r g = Inr g' \<and> best_chain g' = takeWhile (\<lambda>c. chb_height c \<le> br_height r) (best_chain g)
          \<and> block_by_hash g' = block_by_hash g
        else rewind_to r g = Inl NotOnBestChain"
  proof (cases "is_on_best_chain g r")
    case True
    from rewind_accepts [OF g True] obtain g' where g': "rewind_to r g = Inr g'" ..
    from rewind_best_block(1) [OF g g'] have "block_by_hash g' = block_by_hash g" by blast
    with True g' rewind_chain [OF g g'] show ?thesis by (simp flip: on_best_chain_iff [OF g])
  next
    case False
    with rewind_rejects [OF g False] show ?thesis by (simp flip: on_best_chain_iff [OF g])
  qed
  show "best_chain (remove_finalised_blocks floor g) = filter (\<lambda>c. floor \<le> chb_height c \<or> c = tip_block g) (best_chain g)"
    by (rule trim_best_chain [OF g])
qed

theorem graph_moves_refine_witness:
  "(\<exists>g'. graph_extend (example_block [7, 1, 0]) example_graph = Inr g'
      \<and> best_chain g' = [example_block [0], example_block [1, 0], example_block [7, 1, 0]])
   \<and> (\<exists>g'. rewind_to (chb_reference (example_block [0])) example_graph = Inr g' \<and> best_chain g' = [example_block [0]])
   \<and> best_chain (remove_finalised_blocks (Height 9) example_graph) = [example_block [1, 0]]"
proof -
  have l: "ledger_block example_ledger (example_block [7, 1, 0])" "child_of (example_block [1, 0]) (example_block [7, 1, 0])"
    by (simp_all add: example_ledger_block example_child)
  have h: "br_height (chb_reference (example_block [0])) = Height 0"
    by (simp add: example_block_def)
  have ne: "example_block [0] \<noteq> example_block [1, 0]"
    by (simp add: example_block_def)
  note r = graph_moves_refine [OF example_graph_run, of "example_block [7, 1, 0]"
      "chb_reference (example_block [0])" "Height 9"]
  from r l have 1: "\<exists>g'. graph_extend (example_block [7, 1, 0]) example_graph = Inr g'
      \<and> best_chain g' = [example_block [0], example_block [1, 0], example_block [7, 1, 0]]"
    by (simp add: example_graph_chain example_graph_tip)
  from r have 2: "\<exists>g'. rewind_to (chb_reference (example_block [0])) example_graph = Inr g'
      \<and> best_chain g' = [example_block [0]]"
    by (auto simp: example_graph_chain h height_le_iff)
  from r ne have 3: "best_chain (remove_finalised_blocks (Height 9) example_graph) = [example_block [1, 0]]"
    by (simp add: example_graph_chain example_graph_tip height_le_iff)
  from 1 2 3 show ?thesis by blast
qed

text \<open>C33. Most work wins, ties go to the tip: the heaviest block is retained, no retained
  block has more accumulated work, and it is the tip unless it has strictly more work than
  the tip.\<close>

theorem heaviest_block_spec:
  "heaviest_block g \<in> set (mbs_blocks g)
   \<and> (\<forall>b. b \<in> set (mbs_blocks g) \<longrightarrow> chb_work b \<le> chb_work (heaviest_block g))
   \<and> (heaviest_block g = tip_block g \<or> chb_work (tip_block g) < chb_work (heaviest_block g))"
  using heaviest_block_in heaviest_block_max heaviest_block_strict by blast

theorem heaviest_block_spec_witness:
  "chb_work (example_block [0]) \<le> chb_work (heaviest_block example_graph)"
proof -
  have "example_block [0] \<in> set (mbs_blocks example_graph)"
  proof -
    have "graph_ok example_graph" using graph_run_ok [OF example_graph_run] by blast
    moreover have "example_block [0] \<in> set (best_chain example_graph)" by (simp add: example_graph_chain)
    ultimately show ?thesis by (simp add: mbs_blocks_iff best_chain_canonical best_block_iff)
  qed
  then show ?thesis using heaviest_block_spec [of example_graph] by blast
qed

end
