(* ===== verification/Zaino_Chain_Queries.thy ===== *)
theory Zaino_Chain_Queries
  imports Zaino_Chain_Graph
begin

text \<open>
  The questions a published chain-head snapshot answers
  (\<^verbatim>\<open>zaino-chain-head/src/snapshot.rs\<close>, implemented in
  \<^verbatim>\<open>zaino-chain-head-service/src/snapshot.rs\<close>): fork points, chain tips, transaction
  locations and outpoint spenders. The two walks along parent hashes are loops without a
  bound in the code, so they are partial functions whose value \<open>None\<close> is divergence, and
  that they return is proved for graphs whose blocks come from a ledger.
\<close>

section \<open>Walks along parent hashes\<close>

partial_function (option) fork_walk ::
  "map_backed_snapshot \<Rightarrow> chain_head_block \<Rightarrow> block_ref option option" where
  [code]: "fork_walk g current =
     (if is_on_best_chain g (chb_reference current) then Some (Some (chb_reference current))
      else case block_by_hash g (chb_parent_hash current) of
        None \<Rightarrow> Some None
      | Some parent \<Rightarrow> fork_walk g parent)"

definition find_fork_point :: "map_backed_snapshot \<Rightarrow> block_hash \<Rightarrow> block_ref option option" where
  "find_fork_point g hash =
     (case block_by_hash g hash of None \<Rightarrow> Some None | Some b \<Rightarrow> fork_walk g b)"

partial_function (option) branch_len_walk ::
  "map_backed_snapshot \<Rightarrow> chain_head_block \<Rightarrow> u32 \<Rightarrow> u32 option" where
  [code]: "branch_len_walk g current branch_len =
     (if is_on_best_chain g (chb_reference current) then Some branch_len
      else case block_by_hash g (chb_parent_hash current) of
        None \<Rightarrow> Some (branch_len + 1)
      | Some parent \<Rightarrow> branch_len_walk g parent (branch_len + 1))"

definition branch_len_to_best_chain :: "map_backed_snapshot \<Rightarrow> chain_head_block \<Rightarrow> u32 option" where
  "branch_len_to_best_chain g b = branch_len_walk g b 0"

section \<open>Chain tips\<close>

datatype chain_tip_status = Invalid | HeadersOnly | ValidHeaders | ValidFork | Active | UnknownStatus

record chain_tip =
  ct_height :: height
  ct_hash :: block_hash
  ct_branch_len :: u32
  ct_status :: chain_tip_status

definition chain_tip_of :: "map_backed_snapshot \<Rightarrow> chain_head_block \<Rightarrow> chain_tip option" where
  "chain_tip_of g b =
     (let is_active_tip = chb_hash b = br_hash (best_tip g)
      in map_option (\<lambda>len.
           \<lparr>ct_height = chb_height b, ct_hash = chb_hash b, ct_branch_len = len,
            ct_status = (if is_active_tip then Active else ValidFork)\<rparr>)
         (if is_active_tip then Some 0 else branch_len_to_best_chain g b))"

definition tip_hashes :: "map_backed_snapshot \<Rightarrow> block_hash list" where
  "tip_hashes g =
     (let parent_hashes = map chb_parent_hash (mbs_blocks g);
          leaves = filter (\<lambda>hash. hash \<notin> set parent_hashes) (map chb_hash (mbs_blocks g))
      in remdups (br_hash (best_tip g) # leaves))"

fun display_order :: "block_hash \<Rightarrow> u8 list" where
  "display_order (BlockHash bytes) = rev bytes"

definition chain_tips :: "map_backed_snapshot \<Rightarrow> chain_tip list option" where
  "chain_tips g =
     map_option (\<lambda>tips. sort_key (\<lambda>t. - int (hnat (ct_height t))) (sort_key (\<lambda>t. display_order (ct_hash t)) tips))
       (those (map (chain_tip_of g) (List.map_filter (block_by_hash g) (tip_hashes g))))"

section \<open>Transactions\<close>

text \<open>\<open>tx_index\<close> panics on a slot above the range of \<open>u32\<close>: the value \<open>None\<close>.\<close>

definition tx_index :: "nat \<Rightarrow> tx_index option" where
  "tx_index position = (if position < 2 ^ 32 then Some (word_of_nat position) else None)"

record chain_head_tx_position =
  chtp_block :: block_ref
  chtp_tx_index :: tx_index

record chain_head_transaction_locations =
  chtl_best_chain :: "chain_head_tx_position option"
  chtl_non_best_chain :: "chain_head_tx_position list"

record spender_location =
  sl_block :: block_ref
  sl_txid :: transaction_id
  sl_tx_index :: tx_index

definition tx_slot :: "transaction_id \<Rightarrow> chain_head_block \<Rightarrow> nat option" where
  "tx_slot txid b =
     map_option fst (find (\<lambda>(_, tx). tx_txid tx = txid) (enumerate 0 (blk_transactions (chb_block b))))"

definition locate_in_block ::
  "map_backed_snapshot \<Rightarrow> transaction_id \<Rightarrow> chain_head_block \<Rightarrow> chain_head_transaction_locations
    \<Rightarrow> chain_head_transaction_locations option" where
  "locate_in_block g txid b locs =
     (case tx_slot txid b of
        None \<Rightarrow> Some locs
      | Some slot \<Rightarrow>
          map_option (\<lambda>i.
            let position = \<lparr>chtp_block = chb_reference b, chtp_tx_index = i\<rparr>
            in if is_on_best_chain g (chb_reference b)
               then locs\<lparr>chtl_best_chain := Some position\<rparr>
               else locs\<lparr>chtl_non_best_chain := chtl_non_best_chain locs @ [position]\<rparr>)
          (tx_index slot))"

definition transaction_locations ::
  "map_backed_snapshot \<Rightarrow> transaction_id \<Rightarrow> chain_head_transaction_locations option" where
  "transaction_locations g txid =
     fold (\<lambda>b acc. Option.bind acc (locate_in_block g txid b)) (mbs_blocks g)
       (Some \<lparr>chtl_best_chain = None, chtl_non_best_chain = []\<rparr>)"

text \<open>The inputs of a block in the order they are recorded, each with its spender.\<close>

definition block_spends :: "chain_head_block \<Rightarrow> (outpoint \<times> spender_location option) list" where
  "block_spends b =
     concat (map (\<lambda>(slot, tx).
       map (\<lambda>input.
         (\<lparr>op_txid = ti_prev_txid input, op_index = ti_prev_index input\<rparr>,
          map_option (\<lambda>i. \<lparr>sl_block = chb_reference b, sl_txid = tx_txid tx, sl_tx_index = i\<rparr>) (tx_index slot)))
       (td_inputs (tx_transparent tx))) (enumerate 0 (blk_transactions (chb_block b))))"

definition record_spends :: "chain_head_block \<Rightarrow> (outpoint, spender_location) hmap
    \<Rightarrow> (outpoint, spender_location) hmap option" where
  "record_spends b m =
     fold (\<lambda>(op, sp) acc. Option.bind acc (\<lambda>m. map_option (\<lambda>s. hm_insert op s m) sp)) (block_spends b) (Some m)"

definition outpoint_spenders ::
  "map_backed_snapshot \<Rightarrow> outpoint list \<Rightarrow> spender_location option list option" where
  "outpoint_spenders g outpoints =
     (if outpoints = [] then Some []
      else map_option (\<lambda>spenders. map (hm_get spenders) outpoints)
        (fold (\<lambda>hash acc. Option.bind acc (\<lambda>m.
            case block_by_hash g hash of None \<Rightarrow> Some m | Some b \<Rightarrow> record_spends b m))
          (hm_values (mbs_heights g)) (Some [])))"

section \<open>Ancestors\<close>

primrec ancestor :: "map_backed_snapshot \<Rightarrow> nat \<Rightarrow> chain_head_block \<Rightarrow> chain_head_block option" where
  "ancestor g 0 b = Some b"
| "ancestor g (Suc n) b = Option.bind (block_by_hash g (chb_parent_hash b)) (ancestor g n)"

definition walk_stops :: "map_backed_snapshot \<Rightarrow> chain_head_block \<Rightarrow> nat \<Rightarrow> bool" where
  "walk_stops g b n \<longleftrightarrow>
     (case ancestor g n b of None \<Rightarrow> True | Some a \<Rightarrow> is_on_best_chain g (chb_reference a))"

text \<open>The number of steps to the first canonical ancestor, or out of the window.\<close>

definition first_stop :: "map_backed_snapshot \<Rightarrow> chain_head_block \<Rightarrow> nat \<Rightarrow> bool" where
  "first_stop g b n \<longleftrightarrow> walk_stops g b n \<and> (\<forall>m < n. \<not> walk_stops g b m)"

lemma ledger_parent:
  assumes g: "graph_ok g" and l: "graph_ledger L g" and L: "ledger_ok L"
    and b: "block_by_hash g k = Some b" and p: "block_by_hash g (chb_parent_hash b) = Some p"
  shows "hnat (chb_height b) = Suc (hnat (chb_height p))"
proof -
  from l b have lb: "L (chb_hash b) = Some (hnat (chb_height b), chb_parent_hash b)"
    by (simp add: graph_ledger_def ledger_block_def)
  from l p have "L (chb_hash p) = Some (hnat (chb_height p), chb_parent_hash p)"
    by (simp add: graph_ledger_def ledger_block_def)
  with block_by_hash_hash [OF g p] have lp: "L (chb_parent_hash b) = Some (hnat (chb_height p), chb_parent_hash p)"
    by simp
  from L lb have "case hnat (chb_height b) of 0 \<Rightarrow> L (chb_parent_hash b) = None
    | Suc m \<Rightarrow> \<exists>q. L (chb_parent_hash b) = Some (m, q)"
    by (auto simp: ledger_ok_def)
  with lp show ?thesis by (auto split: nat.splits)
qed

lemma first_stop_Suc:
  assumes "\<not> is_on_best_chain g (chb_reference b)" and "block_by_hash g (chb_parent_hash b) = Some p"
  shows "first_stop g b (Suc n) \<longleftrightarrow> first_stop g p n"
proof -
  have "walk_stops g b (Suc m) = walk_stops g p m" for m
    using assms(2) by (simp add: walk_stops_def)
  moreover have "\<not> walk_stops g b 0"
    using assms(1) by (simp add: walk_stops_def)
  ultimately show ?thesis
    by (auto simp: first_stop_def less_Suc_eq_0_disj)
qed

lemma walks_return:
  assumes g: "graph_ok g" and l: "graph_ledger L g" and L: "ledger_ok L"
    and b: "block_by_hash g k = Some b"
  shows "\<exists>n \<le> Suc (hnat (chb_height b)). first_stop g b n
    \<and> fork_walk g b = Some (map_option chb_reference (ancestor g n b))
    \<and> (\<forall>len. branch_len_walk g b len = Some (len + word_of_nat n))"
  using b
proof (induction "hnat (chb_height b)" arbitrary: k b rule: less_induct)
  case less
  show ?case
  proof (cases "is_on_best_chain g (chb_reference b)")
    case True
    then show ?thesis
      by (intro exI [of _ 0]) (simp add: first_stop_def walk_stops_def fork_walk.simps branch_len_walk.simps)
  next
    case False
    show ?thesis
    proof (cases "block_by_hash g (chb_parent_hash b)")
      case None
      with False show ?thesis
        by (intro exI [of _ 1]) (simp add: first_stop_def walk_stops_def fork_walk.simps branch_len_walk.simps)
    next
      case (Some p)
      have h: "hnat (chb_height b) = Suc (hnat (chb_height p))"
        by (rule ledger_parent [OF g l L less.prems Some])
      from less.hyps [OF _ Some] h obtain n where n: "n \<le> Suc (hnat (chb_height p))" "first_stop g p n"
        "fork_walk g p = Some (map_option chb_reference (ancestor g n p))"
        "\<forall>len. branch_len_walk g p len = Some (len + word_of_nat n)" by auto
      with False Some h first_stop_Suc [OF False Some] show ?thesis
        by (intro exI [of _ "Suc n"]) (simp add: fork_walk.simps [of g b] branch_len_walk.simps [of g b] ac_simps)
    qed
  qed
qed

text \<open>C20. The fork point of a hash: both walks along parent hashes return; an unretained hash
  has no fork point; for a retained block the answer is its first canonical ancestor, itself
  included, or none when the walk leaves the retained window first; and the branch length is
  the number of steps that takes.\<close>

theorem fork_point_spec:
  assumes "graph_run L g" and "ledger_ok L"
  shows "case block_by_hash g k of
      None \<Rightarrow> find_fork_point g k = Some None
    | Some b \<Rightarrow> \<exists>n \<le> Suc (hnat (chb_height b)).
        (\<forall>m < n. \<exists>c. ancestor g m b = Some c \<and> \<not> is_on_best_chain g (chb_reference c))
        \<and> branch_len_to_best_chain g b = Some (word_of_nat n)
        \<and> (case ancestor g n b of
             None \<Rightarrow> find_fork_point g k = Some None
           | Some a \<Rightarrow> is_on_best_chain g (chb_reference a) \<and> find_fork_point g k = Some (Some (chb_reference a)))"
proof (cases "block_by_hash g k")
  case None
  then show ?thesis by (simp add: find_fork_point_def)
next
  case (Some b)
  from graph_run_ok [OF assms(1)] have g: "graph_ok g" and l: "graph_ledger L g" by auto
  from walks_return [OF g l assms(2) Some] obtain n where n: "n \<le> Suc (hnat (chb_height b))" "first_stop g b n"
    "fork_walk g b = Some (map_option chb_reference (ancestor g n b))"
    "branch_len_walk g b 0 = Some (0 + word_of_nat n)" by blast
  from n(2) have "\<exists>c. ancestor g m b = Some c \<and> \<not> is_on_best_chain g (chb_reference c)" if "m < n" for m
    using that by (auto simp: first_stop_def walk_stops_def split: option.splits)
  with n Some show ?thesis
    by (auto simp: find_fork_point_def branch_len_to_best_chain_def first_stop_def walk_stops_def
        split: option.splits intro!: exI [of _ n])
qed

text \<open>A competing branch on the example graph: the tip is rewound and a second child is laid.\<close>

definition example_fork :: map_backed_snapshot where
  "example_fork =
     (case rewind_to (chb_reference (example_block [0])) example_graph of
        Inl _ \<Rightarrow> example_graph
      | Inr g \<Rightarrow> (case graph_extend (example_block [2, 0]) g of Inl _ \<Rightarrow> g | Inr g' \<Rightarrow> g'))"

lemma example_fork_moves:
  "\<exists>g. rewind_to (chb_reference (example_block [0])) example_graph = Inr g
    \<and> graph_extend (example_block [2, 0]) g = Inr example_fork \<and> graph_run example_ledger g"
proof -
  have ok: "graph_ok example_graph" using graph_run_ok [OF example_graph_run] by blast
  have "is_on_best_chain example_graph (chb_reference (example_block [0]))"
    by (simp add: on_best_chain_iff [OF ok] example_graph_chain)
  from rewind_accepts [OF ok this] obtain g
    where g: "rewind_to (chb_reference (example_block [0])) example_graph = Inr g" ..
  from graph_run.rewound [OF example_graph_run g] have run: "graph_run example_ledger g" .
  from rewind_best_block(4) [OF ok g] have "tip_block g = example_block [0]"
    using best_chain_canonical [OF ok, of "example_block [0]"]
    by (simp add: tip_block_def example_graph_chain chb_height_def [symmetric])
  with example_child [of "[]" 0 2] obtain g' where e: "graph_extend (example_block [2, 0]) g = Inr g'"
    by (auto simp: graph_extend_def child_of_def tip_block_def)
  with g run show ?thesis by (simp add: example_fork_def)
qed

lemma example_fork_run: "graph_run example_ledger example_fork"
  using example_fork_moves graph_run.extended [of example_ledger _ "example_block [2, 0]" example_fork]
  by (auto simp: example_ledger_block)

lemma example_fork_view:
  "best_chain example_fork = [example_block [0], example_block [2, 0]]"
  "tip_block example_fork = example_block [2, 0]"
  "block_by_hash example_fork (BlockHash [1, 0]) = Some (example_block [1, 0])"
proof -
  have ok: "graph_ok example_graph" using graph_run_ok [OF example_graph_run] by blast
  from example_fork_moves obtain g where g: "rewind_to (chb_reference (example_block [0])) example_graph = Inr g"
    "graph_extend (example_block [2, 0]) g = Inr example_fork" "graph_run example_ledger g" by blast
  from graph_run_ok [OF g(3)] have "graph_ok g" "graph_ledger example_ledger g" by auto
  from extend_step [OF this _ g(2)] example_ledger_block [of "[0]" 2]
  have e: "best_chain example_fork = best_chain g @ [example_block [2, 0]]" "tip_block example_fork = example_block [2, 0]"
    by simp_all
  moreover have "best_chain g = [example_block [0]]"
    using rewind_chain [OF ok g(1)] by (simp add: example_graph_chain height_le_iff chb_height_def [symmetric])
  ultimately show "best_chain example_fork = [example_block [0], example_block [2, 0]]"
    "tip_block example_fork = example_block [2, 0]" by simp_all
  have "block_by_hash g (BlockHash [1, 0]) = Some (example_block [1, 0])"
    using rewind_best_block(1) [OF ok g(1)] example_graph_tip by (simp add: block_by_hash_def tip_block_def)
  then show "block_by_hash example_fork (BlockHash [1, 0]) = Some (example_block [1, 0])"
    by (simp add: extend_block_by_hash [OF g(2)])
qed

lemma example_fork_retained:
  assumes "block_by_hash example_fork k = Some b"
  shows "b \<in> {example_block [0], example_block [1, 0], example_block [2, 0]}"
proof -
  have ok: "graph_ok example_graph" using graph_run_ok [OF example_graph_run] by blast
  from example_fork_moves obtain g where g: "rewind_to (chb_reference (example_block [0])) example_graph = Inr g"
    "graph_extend (example_block [2, 0]) g = Inr example_fork" by blast
  have "block_by_hash (from_initial_block (example_block [0])) k
    = (if k = BlockHash [0] then Some (example_block [0]) else None)"
    by (simp add: from_initial_block_def block_by_hash_def)
  with assms show ?thesis
    by (auto simp: extend_block_by_hash [OF g(2)] rewind_best_block(1) [OF ok g(1)]
        extend_block_by_hash [OF example_graph_extend] split: if_splits)
qed

theorem fork_point_spec_witness:
  "find_fork_point example_fork (BlockHash [1, 0]) = Some (Some (chb_reference (example_block [0])))"
proof -
  have ok: "graph_ok example_fork" using graph_run_ok [OF example_fork_run] by blast
  have off: "\<not> is_on_best_chain example_fork (chb_reference (example_block [1, 0]))"
    by (simp add: on_best_chain_iff [OF ok] example_fork_view) (simp add: example_block_def)
  have on: "is_on_best_chain example_fork (chb_reference (example_block [0]))"
    by (simp add: on_best_chain_iff [OF ok] example_fork_view)
  have p: "block_by_hash example_fork (BlockHash [0]) = Some (example_block [0])"
    using best_chain_canonical [OF ok, of "example_block [0]"] best_block_iff [OF ok]
    by (simp add: example_fork_view)
  from fork_point_spec [OF example_fork_run example_ledger_ok, of "BlockHash [1, 0]"] example_fork_view(3)
  obtain n where n: "\<forall>m < n. \<exists>c. ancestor example_fork m (example_block [1, 0]) = Some c
      \<and> \<not> is_on_best_chain example_fork (chb_reference c)"
    "case ancestor example_fork n (example_block [1, 0]) of
       None \<Rightarrow> find_fork_point example_fork (BlockHash [1, 0]) = Some None
     | Some a \<Rightarrow> is_on_best_chain example_fork (chb_reference a)
         \<and> find_fork_point example_fork (BlockHash [1, 0]) = Some (Some (chb_reference a))" by auto
  have "n \<noteq> 0" using n(2) off by (cases n) auto
  moreover have "\<not> 1 < n" using n(1) on p by auto
  ultimately have "n = 1" by simp
  with n(2) p show ?thesis by simp
qed

section \<open>Chain tips\<close>

lemma insort_key_lex:
  assumes "sorted_wrt (\<lambda>a b. f a < f b \<or> f a = f b \<and> g a \<le> g b) ys" and "\<forall>y \<in> set ys. g x \<le> g y"
  shows "sorted_wrt (\<lambda>a b. f a < f b \<or> f a = f b \<and> g a \<le> g b) (insort_key f x ys)"
  using assms
proof (induction ys)
  case (Cons y ys)
  then show ?case by (auto simp: set_insort_key)
qed simp

lemma sort_key_lex:
  "sorted (map g xs) \<Longrightarrow> sorted_wrt (\<lambda>a b. f a < f b \<or> f a = f b \<and> g a \<le> g b) (sort_key f xs)"
  by (induction xs) (simp_all add: insort_key_lex)

lemma those_map: "\<forall>x \<in> set xs. f x = Some (g x) \<Longrightarrow> those (map f xs) = Some (map g xs)"
  by (induction xs) auto

definition leaf_hashes :: "map_backed_snapshot \<Rightarrow> block_hash set" where
  "leaf_hashes g = {k. (\<exists>b. block_by_hash g k = Some b) \<and> (\<forall>k' c. block_by_hash g k' = Some c \<longrightarrow> chb_parent_hash c \<noteq> k)}"

lemma retained_iff:
  assumes "graph_ok g"
  shows "b \<in> set (mbs_blocks g) \<longleftrightarrow> (\<exists>k. block_by_hash g k = Some b)"
  using mbs_blocks_iff [OF assms] block_by_hash_hash [OF assms] by metis

lemma set_tip_hashes:
  assumes "graph_ok g"
  shows "set (tip_hashes g) = insert (chb_hash (tip_block g)) (leaf_hashes g)"
  using retained_iff [OF assms] block_by_hash_hash [OF assms]
  by (auto simp: tip_hashes_def Let_def leaf_hashes_def best_tip_def tip_block_def chb_hash_def image_iff) blast+

lemma map_filter_map: "(\<And>x. x \<in> set xs \<Longrightarrow> f x = Some (h x)) \<Longrightarrow> List.map_filter f xs = map h xs"
  by (induction xs) (simp_all add: List.map_filter_simps)

definition tip_order :: "chain_tip \<Rightarrow> chain_tip \<Rightarrow> bool" where
  "tip_order s t \<longleftrightarrow> ct_height t < ct_height s
     \<or> ct_height s = ct_height t \<and> display_order (ct_hash s) \<le> display_order (ct_hash t)"

lemma display_order_inject: "display_order a = display_order b \<longleftrightarrow> a = b"
  by (cases a; cases b) simp

lemma chain_tip_of_retained:
  assumes g: "graph_ok g" and l: "graph_ledger L g" and L: "ledger_ok L" and b: "block_by_hash g k = Some b"
  shows "chain_tip_of g b = Some (the (chain_tip_of g b)) \<and> ct_hash (the (chain_tip_of g b)) = k
    \<and> ct_height (the (chain_tip_of g b)) = chb_height b
    \<and> (if b = tip_block g then ct_status (the (chain_tip_of g b)) = Active \<and> ct_branch_len (the (chain_tip_of g b)) = 0
       else ct_status (the (chain_tip_of g b)) = ValidFork
         \<and> branch_len_to_best_chain g b = Some (ct_branch_len (the (chain_tip_of g b))))"
proof -
  obtain n where n: "branch_len_walk g b 0 = Some (0 + word_of_nat n)"
    using walks_return [OF g l L b] by blast
  have "chb_hash b = chb_hash (mbs_tip g) \<longleftrightarrow> b = mbs_tip g"
    using b block_by_hash_hash [OF g b] by (auto simp: block_by_hash_def split: if_splits)
  with n block_by_hash_hash [OF g b] show ?thesis
    by (simp add: chain_tip_of_def Let_def best_tip_def branch_len_to_best_chain_def tip_block_def
        flip: chb_hash_def)
qed

text \<open>C21. Chain tips are exactly the leaves: the enumeration returns, lists each retained block
  that no retained block names as its parent, and the canonical tip, once each; only the
  canonical tip is active, at branch length zero, and every other tip is a valid fork at its
  distance from the canonical chain; and the list is ordered by descending height, then by
  ascending display-order hash.\<close>

theorem chain_tips_spec:
  assumes "graph_run L g" and "ledger_ok L"
  shows "\<exists>tips. chain_tips g = Some tips \<and> distinct (map ct_hash tips)
    \<and> set (map ct_hash tips) = insert (chb_hash (tip_block g)) (leaf_hashes g)
    \<and> (\<forall>t. t \<in> set tips \<longrightarrow> (\<exists>b. block_by_hash g (ct_hash t) = Some b \<and> ct_height t = chb_height b
        \<and> (if b = tip_block g then ct_status t = Active \<and> ct_branch_len t = 0
           else ct_status t = ValidFork \<and> branch_len_to_best_chain g b = Some (ct_branch_len t))))
    \<and> sorted_wrt tip_order tips"
proof -
  from graph_run_ok [OF assms(1)] have g: "graph_ok g" and l: "graph_ledger L g" by auto
  let ?b = "\<lambda>k. the (block_by_hash g k)"
  let ?t = "\<lambda>k. the (chain_tip_of g (?b k))"
  let ?tips = "sort_key (\<lambda>t. - int (hnat (ct_height t))) (sort_key (\<lambda>t. display_order (ct_hash t)) (map ?t (tip_hashes g)))"
  have retained: "block_by_hash g k = Some (?b k)" if "k \<in> set (tip_hashes g)" for k
    using that by (auto simp: set_tip_hashes [OF g] leaf_hashes_def block_by_hash_def tip_block_def)
  note tip = chain_tip_of_retained [OF g l assms(2)]
  have bs: "List.map_filter (block_by_hash g) (tip_hashes g) = map ?b (tip_hashes g)"
    by (rule map_filter_map [OF retained])
  have "those (map (chain_tip_of g) (map ?b (tip_hashes g))) = Some (map ?t (tip_hashes g))"
    unfolding map_map comp_def using retained tip by (intro those_map) blast
  then have "chain_tips g = Some ?tips"
    by (simp add: chain_tips_def bs)
  moreover have hashes: "map ct_hash (map ?t (tip_hashes g)) = tip_hashes g"
    using retained tip by (simp add: map_idI)
  have "distinct (map ct_hash (map ?t (tip_hashes g)))"
    unfolding hashes by (simp add: tip_hashes_def Let_def)
  then have "distinct (map ct_hash ?tips)"
    by (simp only: distinct_map distinct_sort set_sort)
  moreover have "set (map ct_hash ?tips) = set (map ct_hash (map ?t (tip_hashes g)))"
    by (simp only: set_map set_sort)
  then have "set (map ct_hash ?tips) = set (tip_hashes g)"
    unfolding hashes .
  moreover have "\<exists>b. block_by_hash g (ct_hash t) = Some b \<and> ct_height t = chb_height b
        \<and> (if b = tip_block g then ct_status t = Active \<and> ct_branch_len t = 0
           else ct_status t = ValidFork \<and> branch_len_to_best_chain g b = Some (ct_branch_len t))"
    if "t \<in> set ?tips" for t
  proof -
    from that obtain k where "k \<in> set (tip_hashes g)" "t = ?t k" by auto
    with retained [of k] tip [of k "?b k"] show ?thesis by metis
  qed
  moreover have "sorted_wrt tip_order ?tips"
    using sort_key_lex [of "\<lambda>t. display_order (ct_hash t)" "sort_key (\<lambda>t. display_order (ct_hash t)) (map ?t (tip_hashes g))"
        "\<lambda>t. - int (hnat (ct_height t))"]
    by (rule sorted_wrt_mono_rel [rotated]) (auto simp: tip_order_def height_less_iff)
  ultimately show ?thesis
    unfolding set_tip_hashes [OF g] by blast
qed

theorem chain_tips_spec_witness:
  "\<exists>tips. chain_tips example_fork = Some tips \<and> BlockHash [2, 0] \<in> set (map ct_hash tips)
    \<and> sorted_wrt tip_order tips"
  using chain_tips_spec [OF example_fork_run example_ledger_ok] by (auto simp: example_fork_view)

section \<open>Ranges of the canonical chain\<close>

definition range_lookup :: "map_backed_snapshot \<Rightarrow> nat \<Rightarrow> chain_head_block option" where
  "range_lookup g h =
     (case height_try_from (word_of_nat h) of Inl _ \<Rightarrow> None | Inr h \<Rightarrow> best_block_by_height g h)"

lemma range_lookup_Some:
  assumes "graph_ok g" and "h < 2 ^ 31"
  shows "range_lookup g h = Some b \<longleftrightarrow> b \<in> set (best_chain g) \<and> hnat (chb_height b) = h"
proof -
  have "unat (word_of_nat h :: u32) = h" using assms(2) by (simp add: unat_of_nat)
  then have look: "range_lookup g h = best_block_by_height g (Height (word_of_nat h))"
    and h: "hnat (Height (word_of_nat h)) = h"
    using assms(2) by (simp_all add: range_lookup_def height_try_from_def word_less_nat_alt MAX_HEIGHT_def)
  let ?H = "Height (word_of_nat h)"
  have "range_lookup g h = Some b \<longleftrightarrow> best_block_by_height g ?H = Some b \<and> chb_height b = ?H"
    using best_block_height_le [OF assms(1), of ?H b] by (auto simp: look)
  also have "\<dots> \<longleftrightarrow> b \<in> set (best_chain g) \<and> chb_height b = ?H"
    using best_chain_canonical [OF assms(1), of b] by auto
  also have "\<dots> \<longleftrightarrow> b \<in> set (best_chain g) \<and> hnat (chb_height b) = hnat ?H"
    by (simp only: hnat_inject)
  finally show ?thesis by (simp only: h)
qed

lemma map_filter_range_lookup:
  assumes g: "graph_ok g" and "\<forall>h \<in> set hs. h < 2 ^ 31"
  shows "map (hnat \<circ> chb_height) (List.map_filter (range_lookup g) hs)
    = filter (\<lambda>h. range_lookup g h \<noteq> None) hs"
  using assms(2)
proof (induction hs)
  case (Cons h hs)
  have "hnat (chb_height b) = h" if "range_lookup g h = Some b" for b
    using that range_lookup_Some [OF g, of h b] Cons.prems by simp
  with Cons show ?case
    by (cases "range_lookup g h") (simp_all add: List.map_filter_simps)
qed (simp add: List.map_filter_simps)

text \<open>C28. A range query over the canonical chain yields exactly its blocks with a height in the
  range, in ascending order, and is refused exactly when the range is inverted.\<close>

theorem best_chain_blocks_spec:
  assumes "graph_run L g" and "height_ok start" and "height_ok stop"
  shows "best_chain_blocks start stop g =
    (if stop < start then Inl (InvalidRange start stop)
     else Inr (filter (\<lambda>b. start \<le> chb_height b \<and> chb_height b \<le> stop) (best_chain g)))"
proof (cases "stop < start")
  case False
  from graph_run_ok [OF assms(1)] have g: "graph_ok g" by blast
  let ?hs = "[hnat start..<Suc (hnat stop)]"
  have small: "\<forall>h \<in> set ?hs. h < 2 ^ 31"
    using assms(3) by (auto simp: height_ok_iff)
  let ?xs = "List.map_filter (range_lookup g) ?hs"
    and ?ys = "filter (\<lambda>b. start \<le> chb_height b \<and> chb_height b \<le> stop) (best_chain g)"
  have "?xs = ?ys"
  proof (rule map_sorted_distinct_set_unique [where f = "hnat \<circ> chb_height"])
    show "set ?xs = set ?ys"
      using small range_lookup_Some [OF g] by (auto simp: set_map_filter height_le_iff simp del: upt_Suc)
    then have "set ?xs \<union> set ?ys \<subseteq> set (best_chain g)"
      by auto
    moreover have "inj_on (hnat \<circ> chb_height) (set (best_chain g))"
      using best_chain_strict(2) [OF g] by (simp add: distinct_map inj_on_def)
    ultimately show "inj_on (hnat \<circ> chb_height) (set ?xs \<union> set ?ys)"
      by (rule inj_on_subset [rotated])
    show "sorted (map (hnat \<circ> chb_height) ?xs)" "distinct (map (hnat \<circ> chb_height) ?xs)"
      using small by (simp_all add: map_filter_range_lookup [OF g] sorted_wrt_filter del: upt_Suc)
    have "sorted_wrt (<) (map chb_height ?ys)"
      by (rule sorted_wrt_map_filter [OF best_chain_sorted_wrt [OF g]])
    then have "sorted_wrt (<) (map (hnat \<circ> chb_height) ?ys)"
      by (simp add: sorted_wrt_map height_less_iff)
    then show "sorted (map (hnat \<circ> chb_height) ?ys)" "distinct (map (hnat \<circ> chb_height) ?ys)"
      by (simp_all only: strict_sorted_iff)
  qed
  moreover have "best_chain_blocks start stop g = Inr ?xs"
    using False unfolding best_chain_blocks_def range_lookup_def [abs_def] hnat_def by simp
  ultimately show ?thesis
    using False by simp
qed (simp add: best_chain_blocks_def)

theorem best_chain_blocks_spec_witness:
  "best_chain_blocks (Height 1) (Height 9) example_fork = Inr [example_block [2, 0]]"
  using best_chain_blocks_spec [OF example_fork_run, of "Height 1" "Height 9"]
  by (simp add: height_ok_def MAX_HEIGHT_def example_fork_view height_less_iff height_le_iff)

section \<open>Transaction locations\<close>

text \<open>Where a transaction first appears in a block.\<close>

definition tx_position :: "transaction_id \<Rightarrow> chain_head_block \<Rightarrow> chain_head_tx_position option" where
  "tx_position txid b =
     map_option (\<lambda>i. \<lparr>chtp_block = chb_reference b, chtp_tx_index = word_of_nat i\<rparr>) (tx_slot txid b)"

definition blocks_fit :: "map_backed_snapshot \<Rightarrow> bool" where
  "blocks_fit g \<longleftrightarrow> list_all (\<lambda>b. length (blk_transactions (chb_block b)) \<le> 2 ^ 32) (mbs_blocks g)"

lemma tx_slot_Some:
  "tx_slot txid b = Some i \<longleftrightarrow>
     i < length (blk_transactions (chb_block b)) \<and> tx_txid (blk_transactions (chb_block b) ! i) = txid
     \<and> (\<forall>j < i. tx_txid (blk_transactions (chb_block b) ! j) \<noteq> txid)"
proof -
  let ?txs = "blk_transactions (chb_block b)"
  have "tx_slot txid b = Some i \<longleftrightarrow> (\<exists>tx. find (\<lambda>(_, tx). tx_txid tx = txid) (enumerate 0 ?txs) = Some (i, tx))"
    by (auto simp: tx_slot_def)
  also have "\<dots> \<longleftrightarrow> i < length ?txs \<and> tx_txid (?txs ! i) = txid \<and> (\<forall>j < i. tx_txid (?txs ! j) \<noteq> txid)"
    by (auto simp: find_Some_iff nth_enumerate_eq intro!: exI [of _ "?txs ! i"] exI [of _ i])
  finally show ?thesis .
qed

lemma locate_in_block_fits:
  assumes "length (blk_transactions (chb_block b)) \<le> 2 ^ 32"
  shows "locate_in_block g txid b locs = Some
    (case tx_position txid b of
       None \<Rightarrow> locs
     | Some p \<Rightarrow> if is_on_best_chain g (chb_reference b) then locs\<lparr>chtl_best_chain := Some p\<rparr>
                 else locs\<lparr>chtl_non_best_chain := chtl_non_best_chain locs @ [p]\<rparr>)"
proof (cases "tx_slot txid b")
  case None
  then show ?thesis by (simp add: locate_in_block_def tx_position_def)
next
  case (Some i)
  with assms have "i < 2 ^ 32" by (simp add: tx_slot_Some)
  with Some show ?thesis by (simp add: locate_in_block_def tx_position_def tx_index_def Let_def)
qed

lemma locations_fold:
  assumes "list_all (\<lambda>b. length (blk_transactions (chb_block b)) \<le> 2 ^ 32) bs"
  shows "\<exists>locs'. fold (\<lambda>b acc. Option.bind acc (locate_in_block g txid b)) bs (Some locs) = Some locs'
    \<and> chtl_non_best_chain locs' = chtl_non_best_chain locs
        @ List.map_filter (tx_position txid) (filter (\<lambda>b. \<not> is_on_best_chain g (chb_reference b)) bs)
    \<and> (case chtl_best_chain locs' of
         None \<Rightarrow> chtl_best_chain locs = None
           \<and> (\<forall>b. b \<in> set bs \<and> is_on_best_chain g (chb_reference b) \<longrightarrow> tx_position txid b = None)
       | Some p \<Rightarrow> chtl_best_chain locs = Some p
           \<or> (\<exists>b. b \<in> set bs \<and> is_on_best_chain g (chb_reference b) \<and> tx_position txid b = Some p))"
  using assms
proof (induction bs arbitrary: locs)
  case Nil
  then show ?case by (simp add: List.map_filter_simps split: option.split)
next
  case (Cons b bs)
  let ?locs = "case tx_position txid b of
       None \<Rightarrow> locs
     | Some p \<Rightarrow> if is_on_best_chain g (chb_reference b) then locs\<lparr>chtl_best_chain := Some p\<rparr>
                 else locs\<lparr>chtl_non_best_chain := chtl_non_best_chain locs @ [p]\<rparr>"
  from Cons.prems have b: "locate_in_block g txid b locs = Some ?locs"
    by (intro locate_in_block_fits) simp
  from Cons.prems Cons.IH [of ?locs] obtain locs'
    where l: "fold (\<lambda>b acc. Option.bind acc (locate_in_block g txid b)) bs (Some ?locs) = Some locs'"
      "chtl_non_best_chain locs' = chtl_non_best_chain ?locs
        @ List.map_filter (tx_position txid) (filter (\<lambda>b. \<not> is_on_best_chain g (chb_reference b)) bs)"
      "case chtl_best_chain locs' of
         None \<Rightarrow> chtl_best_chain ?locs = None
           \<and> (\<forall>b. b \<in> set bs \<and> is_on_best_chain g (chb_reference b) \<longrightarrow> tx_position txid b = None)
       | Some p \<Rightarrow> chtl_best_chain ?locs = Some p
           \<or> (\<exists>b. b \<in> set bs \<and> is_on_best_chain g (chb_reference b) \<and> tx_position txid b = Some p)"
    by auto
  show ?case
  proof (intro exI [of _ locs'] conjI)
    show "fold (\<lambda>b acc. Option.bind acc (locate_in_block g txid b)) (b # bs) (Some locs) = Some locs'"
      using b l(1) by simp
    show "chtl_non_best_chain locs' = chtl_non_best_chain locs
        @ List.map_filter (tx_position txid) (filter (\<lambda>b. \<not> is_on_best_chain g (chb_reference b)) (b # bs))"
      using l(2) by (auto simp: List.map_filter_simps split: option.splits)
    show "case chtl_best_chain locs' of
         None \<Rightarrow> chtl_best_chain locs = None
           \<and> (\<forall>c. c \<in> set (b # bs) \<and> is_on_best_chain g (chb_reference c) \<longrightarrow> tx_position txid c = None)
       | Some p \<Rightarrow> chtl_best_chain locs = Some p
           \<or> (\<exists>c. c \<in> set (b # bs) \<and> is_on_best_chain g (chb_reference c) \<and> tx_position txid c = Some p)"
      using l(3) by (auto split: option.splits if_splits)
  qed
qed



section \<open>Outpoint spenders\<close>

text \<open>A canonical transaction of the block spends the outpoint, at the given position.\<close>

definition block_spends_outpoint :: "chain_head_block \<Rightarrow> outpoint \<Rightarrow> spender_location \<Rightarrow> bool" where
  "block_spends_outpoint b op sp \<longleftrightarrow>
     (\<exists>i < length (blk_transactions (chb_block b)).
        let tx = blk_transactions (chb_block b) ! i
        in \<lparr>ti_prev_txid = op_txid op, ti_prev_index = op_index op\<rparr> \<in> set (td_inputs (tx_transparent tx))
           \<and> sp = \<lparr>sl_block = chb_reference b, sl_txid = tx_txid tx, sl_tx_index = word_of_nat i\<rparr>)"

lemma outpoint_of_input:
  "op = \<lparr>op_txid = ti_prev_txid inp, op_index = ti_prev_index inp\<rparr> \<longleftrightarrow>
    inp = \<lparr>ti_prev_txid = op_txid op, ti_prev_index = op_index op\<rparr>"
  for op :: outpoint and inp :: transparent_input
  by (cases op; cases inp) auto

lemma block_spends_iff:
  assumes "length (blk_transactions (chb_block b)) \<le> 2 ^ 32"
  shows "(op, sp) \<in> set (block_spends b) \<longleftrightarrow> (\<exists>s. sp = Some s \<and> block_spends_outpoint b op s)"
proof -
  let ?txs = "blk_transactions (chb_block b)"
  have "(op, sp) \<in> set (block_spends b) \<longleftrightarrow>
    (\<exists>i tx inp. (i, tx) \<in> set (enumerate 0 ?txs) \<and> inp \<in> set (td_inputs (tx_transparent tx))
      \<and> op = \<lparr>op_txid = ti_prev_txid inp, op_index = ti_prev_index inp\<rparr>
      \<and> sp = map_option (\<lambda>i. \<lparr>sl_block = chb_reference b, sl_txid = tx_txid tx, sl_tx_index = i\<rparr>) (tx_index i))"
    by (auto simp: block_spends_def)
  also have "\<dots> \<longleftrightarrow> (\<exists>i < length ?txs.
      \<lparr>ti_prev_txid = op_txid op, ti_prev_index = op_index op\<rparr> \<in> set (td_inputs (tx_transparent (?txs ! i)))
      \<and> sp = map_option (\<lambda>j. \<lparr>sl_block = chb_reference b, sl_txid = tx_txid (?txs ! i), sl_tx_index = j\<rparr>) (tx_index i))"
    unfolding outpoint_of_input by (auto simp: in_set_enumerate_eq)
  also have "\<dots> \<longleftrightarrow> (\<exists>i < length ?txs.
      \<lparr>ti_prev_txid = op_txid op, ti_prev_index = op_index op\<rparr> \<in> set (td_inputs (tx_transparent (?txs ! i)))
      \<and> sp = Some \<lparr>sl_block = chb_reference b, sl_txid = tx_txid (?txs ! i), sl_tx_index = word_of_nat i\<rparr>)"
  proof -
    have "tx_index i = Some (word_of_nat i)" if "i < length ?txs" for i
      using that assms by (simp add: tx_index_def)
    then show ?thesis by (simp cong: conj_cong)
  qed
  also have "\<dots> \<longleftrightarrow> (\<exists>s. sp = Some s \<and> block_spends_outpoint b op s)"
    unfolding block_spends_outpoint_def Let_def by blast
  finally show ?thesis .
qed

lemma record_spends_fold:
  assumes "\<forall>op sp. (op, sp) \<in> set xs \<longrightarrow> sp \<noteq> None"
  shows "\<exists>m'. fold (\<lambda>(op, sp) acc. Option.bind acc (\<lambda>m. map_option (\<lambda>s. hm_insert op s m) sp)) xs (Some m) = Some m'
    \<and> (\<forall>op. case hm_get m' op of
        None \<Rightarrow> hm_get m op = None \<and> (\<forall>s. (op, Some s) \<notin> set xs)
      | Some s \<Rightarrow> hm_get m op = Some s \<or> (op, Some s) \<in> set xs)"
  using assms
proof (induction xs arbitrary: m)
  case Nil
  then show ?case by (auto split: option.split)
next
  case (Cons x xs)
  obtain op s where x: "x = (op, Some s)"
    using Cons.prems by (cases x) fastforce
  from Cons.prems Cons.IH [of "hm_insert op s m"] obtain m'
    where m': "fold (\<lambda>(op, sp) acc. Option.bind acc (\<lambda>m. map_option (\<lambda>s. hm_insert op s m) sp)) xs
        (Some (hm_insert op s m)) = Some m'"
      "\<forall>op'. case hm_get m' op' of
        None \<Rightarrow> hm_get (hm_insert op s m) op' = None \<and> (\<forall>s. (op', Some s) \<notin> set xs)
      | Some t \<Rightarrow> hm_get (hm_insert op s m) op' = Some t \<or> (op', Some t) \<in> set xs"
    by auto
  have "case hm_get m' op' of
        None \<Rightarrow> hm_get m op' = None \<and> (\<forall>s. (op', Some s) \<notin> set (x # xs))
      | Some t \<Rightarrow> hm_get m op' = Some t \<or> (op', Some t) \<in> set (x # xs)" for op'
    using spec [OF m'(2), of op'] by (auto simp: x hmap_simps split: option.splits if_splits)
  with m'(1) show ?case by (simp add: x)
qed

lemma record_spends_fits:
  assumes "length (blk_transactions (chb_block b)) \<le> 2 ^ 32"
  shows "\<exists>m'. record_spends b m = Some m'
    \<and> (\<forall>op. case hm_get m' op of
        None \<Rightarrow> hm_get m op = None \<and> (\<forall>s. \<not> block_spends_outpoint b op s)
      | Some s \<Rightarrow> hm_get m op = Some s \<or> block_spends_outpoint b op s)"
  using record_spends_fold [of "block_spends b" m]
  by (auto simp: block_spends_iff [OF assms] record_spends_def cong: option.case_cong)

lemma spenders_fold:
  assumes "\<forall>k b. k \<in> set ks \<and> block_by_hash g k = Some b \<longrightarrow> length (blk_transactions (chb_block b)) \<le> 2 ^ 32"
  shows "\<exists>m'. fold (\<lambda>hash acc. Option.bind acc (\<lambda>m.
            case block_by_hash g hash of None \<Rightarrow> Some m | Some b \<Rightarrow> record_spends b m)) ks (Some m) = Some m'
    \<and> (\<forall>op. case hm_get m' op of
        None \<Rightarrow> hm_get m op = None \<and> (\<forall>k b s. k \<in> set ks \<and> block_by_hash g k = Some b \<longrightarrow> \<not> block_spends_outpoint b op s)
      | Some s \<Rightarrow> hm_get m op = Some s \<or> (\<exists>k b. k \<in> set ks \<and> block_by_hash g k = Some b \<and> block_spends_outpoint b op s))"
  using assms
proof (induction ks arbitrary: m)
  case Nil
  then show ?case by (auto split: option.split)
next
  case (Cons k ks)
  let ?step = "\<lambda>m. case block_by_hash g k of None \<Rightarrow> Some m | Some b \<Rightarrow> record_spends b m"
  obtain m1 where m1: "?step m = Some m1" "\<forall>op. case hm_get m1 op of
        None \<Rightarrow> hm_get m op = None \<and> (\<forall>b s. block_by_hash g k = Some b \<longrightarrow> \<not> block_spends_outpoint b op s)
      | Some s \<Rightarrow> hm_get m op = Some s \<or> (\<exists>b. block_by_hash g k = Some b \<and> block_spends_outpoint b op s)"
  proof (cases "block_by_hash g k")
    case None
    then show ?thesis using that [of m] by (auto split: option.split)
  next
    case (Some b)
    with Cons.prems have "length (blk_transactions (chb_block b)) \<le> 2 ^ 32" by auto
    from record_spends_fits [OF this, of m] obtain m1 where "record_spends b m = Some m1"
      "\<forall>op. case hm_get m1 op of
        None \<Rightarrow> hm_get m op = None \<and> (\<forall>s. \<not> block_spends_outpoint b op s)
      | Some s \<Rightarrow> hm_get m op = Some s \<or> block_spends_outpoint b op s" by blast
    then show ?thesis by (intro that [of m1]) (simp_all add: Some cong: option.case_cong)
  qed
  from Cons.prems Cons.IH [of m1] obtain m2 where m2: "fold (\<lambda>hash acc. Option.bind acc (\<lambda>m.
            case block_by_hash g hash of None \<Rightarrow> Some m | Some b \<Rightarrow> record_spends b m)) ks (Some m1) = Some m2"
    "\<forall>op. case hm_get m2 op of
        None \<Rightarrow> hm_get m1 op = None \<and> (\<forall>k b s. k \<in> set ks \<and> block_by_hash g k = Some b \<longrightarrow> \<not> block_spends_outpoint b op s)
      | Some s \<Rightarrow> hm_get m1 op = Some s \<or> (\<exists>k b. k \<in> set ks \<and> block_by_hash g k = Some b \<and> block_spends_outpoint b op s)"
    by auto
  have "case hm_get m2 op of
        None \<Rightarrow> hm_get m op = None \<and> (\<forall>k' b s. k' \<in> set (k # ks) \<and> block_by_hash g k' = Some b \<longrightarrow> \<not> block_spends_outpoint b op s)
      | Some s \<Rightarrow> hm_get m op = Some s \<or> (\<exists>k' b. k' \<in> set (k # ks) \<and> block_by_hash g k' = Some b \<and> block_spends_outpoint b op s)" for op
    using spec [OF m1(2), of op] spec [OF m2(2), of op] by (auto split: option.splits)
  with m1(1) m2(1) show ?case by simp
qed

text \<open>C26. Outpoint spenders are exact: when block transaction counts fit their index type, the
  query returns one answer per outpoint, in order; an answer is a transaction of a canonical
  block that has the outpoint among its inputs, at its position, and no answer means no
  canonical block spends the outpoint.\<close>

theorem outpoint_spenders_spec:
  assumes "graph_run L g" and "blocks_fit g"
  shows "\<exists>answers. outpoint_spenders g outpoints = Some answers \<and> length answers = length outpoints
    \<and> (\<forall>i < length outpoints. case answers ! i of
         None \<Rightarrow> \<forall>b s. b \<in> set (best_chain g) \<longrightarrow> \<not> block_spends_outpoint b (outpoints ! i) s
       | Some s \<Rightarrow> \<exists>b. b \<in> set (best_chain g) \<and> block_spends_outpoint b (outpoints ! i) s)"
proof (cases "outpoints = []")
  case True
  then show ?thesis by (simp add: outpoint_spenders_def)
next
  case False
  from graph_run_ok [OF assms(1)] have g: "graph_ok g" by blast
  let ?ks = "hm_values (mbs_heights g)"
  have canonical: "b \<in> set (best_chain g) \<longleftrightarrow> (\<exists>k. k \<in> set ?ks \<and> block_by_hash g k = Some b)" for b
    by (auto simp: set_best_chain [OF g] best_block_by_height_def bind_eq_Some_conv
        set_hm_values [OF graph_okD(2) [OF g]])
  have "\<forall>k b. k \<in> set ?ks \<and> block_by_hash g k = Some b \<longrightarrow> length (blk_transactions (chb_block b)) \<le> 2 ^ 32"
    using assms(2) retained_iff [OF g] by (auto simp: blocks_fit_def list_all_iff)
  from spenders_fold [OF this, of "[]"] obtain m where m: "fold (\<lambda>hash acc. Option.bind acc (\<lambda>m.
            case block_by_hash g hash of None \<Rightarrow> Some m | Some b \<Rightarrow> record_spends b m)) ?ks (Some []) = Some m"
    "\<forall>op. case hm_get m op of
        None \<Rightarrow> \<forall>k b s. k \<in> set ?ks \<and> block_by_hash g k = Some b \<longrightarrow> \<not> block_spends_outpoint b op s
      | Some s \<Rightarrow> \<exists>k b. k \<in> set ?ks \<and> block_by_hash g k = Some b \<and> block_spends_outpoint b op s"
    by (auto cong: option.case_cong)
  have "case hm_get m op of
         None \<Rightarrow> \<forall>b s. b \<in> set (best_chain g) \<longrightarrow> \<not> block_spends_outpoint b op s
       | Some s \<Rightarrow> \<exists>b. b \<in> set (best_chain g) \<and> block_spends_outpoint b op s" for op
    using spec [OF m(2), of op] unfolding canonical by (auto split: option.splits)
  with m(1) False show ?thesis by (simp add: outpoint_spenders_def)
qed

theorem outpoint_spenders_spec_witness:
  "\<exists>answers. outpoint_spenders example_fork [\<lparr>op_txid = TransactionId [1], op_index = 0\<rparr>] = Some answers
    \<and> length answers = 1"
proof -
  have ok: "graph_ok example_fork" using graph_run_ok [OF example_fork_run] by blast
  have "blk_transactions (chb_block (example_block bs)) = []" for bs
    by (simp add: example_block_def example_raw_def)
  then have "blocks_fit example_fork"
    using example_fork_retained by (fastforce simp: blocks_fit_def list_all_iff retained_iff [OF ok])
  from outpoint_spenders_spec [OF example_fork_run this, of "[\<lparr>op_txid = TransactionId [1], op_index = 0\<rparr>]"]
  show ?thesis by auto
qed

end
