(* ===== verification/Zaino_Source.thy ===== *)
theory Zaino_Source
  imports Zaino_Block
begin

text \<open>
  \<^verbatim>\<open>zaino-source\<close>: the error vocabulary of the validator ports, the classification of
  transient failures, and the retry loop of \<^verbatim>\<open>ValidatorClient\<close> every port call goes through.
  A single-attempt call is a function of the state of the outside world \<open>'w\<close>; the loop is a
  partial function whose value \<open>None\<close> is divergence, and that it returns is proved. The
  backoff delay is floating-point arithmetic that only sleeps, and is left out.
\<close>

section \<open>Errors\<close>

datatype failure_mode = Connection | Timeout | HttpStatus u16 | RpcError int | Parse | Auth

record non_domain_error =
  nde_mode :: failure_mode
  nde_message :: string

datatype ('e, 'n) query_error = QueryDomain 'e | QueryNonDomain 'n

record unavailable_error =
  ue_attempts :: u32
  ue_last_error :: non_domain_error

datatype 'e source_error = Domain 'e | NonDomain non_domain_error | Unavailable unavailable_error

datatype get_block_error = HeightNotFound height
datatype get_block_by_hash_error = NotFound block_hash
datatype get_chain_tip_error = NotReady
datatype get_commitment_tree_roots_error = RootsBlockNotFound block_hash

section \<open>Retrying\<close>

definition WORK_QUEUE_FULL :: int where "WORK_QUEUE_FULL = - 1"
definition IN_WARMUP :: int where "IN_WARMUP = - 28"

fun is_retryable :: "failure_mode \<Rightarrow> bool" where
  "is_retryable Connection = True"
| "is_retryable Timeout = True"
| "is_retryable (HttpStatus code) = (code \<ge> 500)"
| "is_retryable (RpcError code) = (code = WORK_QUEUE_FULL \<or> code = IN_WARMUP)"
| "is_retryable Parse = False"
| "is_retryable Auth = False"

partial_function (option) retry_loop ::
  "u32 \<Rightarrow> ('n \<Rightarrow> non_domain_error) \<Rightarrow> ('w \<Rightarrow> (('e, 'n) query_error + 'a) \<times> 'w) \<Rightarrow> u32 \<Rightarrow> 'w
    \<Rightarrow> (('e source_error + 'a) \<times> 'w) option" where
  [code]: "retry_loop max_attempts into f attempts w =
     (let attempt = attempts + 1
      in case f w of
           (Inr value, w') \<Rightarrow> Some (Inr value, w')
         | (Inl (QueryDomain e), w') \<Rightarrow> Some (Inl (Domain e), w')
         | (Inl (QueryNonDomain n), w') \<Rightarrow>
             let e = into n
             in if \<not> is_retryable (nde_mode e) \<or> attempt \<ge> max_attempts then
                  (if is_retryable (nde_mode e)
                   then Some (Inl (Unavailable \<lparr>ue_attempts = attempt, ue_last_error = e\<rparr>), w')
                   else Some (Inl (NonDomain e), w'))
                else retry_loop max_attempts into f attempt w')"

definition with_retry ::
  "u32 \<Rightarrow> ('n \<Rightarrow> non_domain_error) \<Rightarrow> ('w \<Rightarrow> (('e, 'n) query_error + 'a) \<times> 'w) \<Rightarrow> 'w
    \<Rightarrow> (('e source_error + 'a) \<times> 'w) option" where
  "with_retry max_attempts into f w = retry_loop max_attempts into f 0 w"

section \<open>What the loop does\<close>

text \<open>The world after \<open>k\<close> calls, and whether the \<open>k\<close>-th answer is worth asking again.\<close>

primrec world_after :: "('w \<Rightarrow> 'r \<times> 'w) \<Rightarrow> nat \<Rightarrow> 'w \<Rightarrow> 'w" where
  "world_after f 0 w = w"
| "world_after f (Suc k) w = world_after f k (snd (f w))"

fun transient :: "('n \<Rightarrow> non_domain_error) \<Rightarrow> ('e, 'n) query_error + 'a \<Rightarrow> bool" where
  "transient into (Inl (QueryNonDomain n)) = is_retryable (nde_mode (into n))"
| "transient into _ = False"

fun give_up :: "('n \<Rightarrow> non_domain_error) \<Rightarrow> u32 \<Rightarrow> ('e, 'n) query_error + 'a \<Rightarrow> 'e source_error + 'a" where
  "give_up into k (Inr v) = Inr v"
| "give_up into k (Inl (QueryDomain e)) = Inl (Domain e)"
| "give_up into k (Inl (QueryNonDomain n)) =
     (if is_retryable (nde_mode (into n))
      then Inl (Unavailable \<lparr>ue_attempts = k, ue_last_error = into n\<rparr>) else Inl (NonDomain (into n)))"

lemma retry_loop_stop:
  assumes "\<not> transient into (fst (f w)) \<or> attempts + 1 \<ge> m"
  shows "retry_loop m into f attempts w = Some (give_up into (attempts + 1) (fst (f w)), snd (f w))"
proof (cases "fst (f w)")
  case (Inl e)
  with assms show ?thesis
    by (cases e; cases "f w") (auto simp: retry_loop.simps Let_def)
next
  case (Inr v)
  then show ?thesis by (cases "f w") (simp add: retry_loop.simps)
qed

lemma retry_loop_again:
  assumes "transient into (fst (f w))" and "attempts + 1 < m"
  shows "retry_loop m into f attempts w = retry_loop m into f (attempts + 1) (snd (f w))"
proof (cases "f w")
  case (Pair r w')
  with assms obtain n where "r = Inl (QueryNonDomain n)" "is_retryable (nde_mode (into n))"
    by (cases "(into, r)" rule: transient.cases) auto
  with Pair assms show ?thesis
    by (subst retry_loop.simps) (auto simp: Let_def)
qed

lemma retry_loop_returns:
  assumes "unat attempts < unat m \<or> attempts = 0"
  shows "\<exists>k. retry_loop m into f attempts w
      = Some (give_up into (attempts + 1 + word_of_nat k) (fst (f (world_after f k w))), world_after f (Suc k) w)
    \<and> (\<forall>j < k. transient into (fst (f (world_after f j w))))
    \<and> (unat attempts + Suc k \<le> max 1 (unat m))
    \<and> (\<not> transient into (fst (f (world_after f k w))) \<or> unat attempts + Suc k = max 1 (unat m))"
  using assms
proof (induction "unat m - unat attempts" arbitrary: attempts w rule: less_induct)
  case less
  have suc: "unat (attempts + 1) = Suc (unat attempts)" if "unat attempts < unat m"
    using that unat_less_exp [of m] by (simp add: unat_word_ariths)
  show ?case
  proof (cases "transient into (fst (f w)) \<and> attempts + 1 < m")
    case True
    then have lt: "unat attempts < unat m"
      using less.prems by (cases "m = 0") (auto simp: word_less_nat_alt unat_gt_0)
    with True suc have lt': "unat (attempts + 1) < unat m" by (simp add: word_less_nat_alt)
    have "unat m - unat (attempts + 1) < unat m - unat attempts"
      using lt suc [OF lt] by simp
    from less.hyps [OF this disjI1 [OF lt'], of "snd (f w)"] obtain k where k:
      "retry_loop m into f (attempts + 1) (snd (f w)) = Some (give_up into (attempts + 1 + 1 + word_of_nat k)
         (fst (f (world_after f k (snd (f w))))), world_after f (Suc k) (snd (f w)))"
      "\<forall>j < k. transient into (fst (f (world_after f j (snd (f w)))))"
      "unat (attempts + 1) + Suc k \<le> max 1 (unat m)"
      "\<not> transient into (fst (f (world_after f k (snd (f w))))) \<or> unat (attempts + 1) + Suc k = max 1 (unat m)"
      by blast
    show ?thesis
    proof (intro exI [of _ "Suc k"] conjI)
      show "retry_loop m into f attempts w
        = Some (give_up into (attempts + 1 + word_of_nat (Suc k)) (fst (f (world_after f (Suc k) w))), world_after f (Suc (Suc k)) w)"
        using True k(1) retry_loop_again [of into f w attempts m] by (simp add: add.assoc)
      show "\<forall>j < Suc k. transient into (fst (f (world_after f j w)))"
        using True k(2) by (auto simp: less_Suc_eq_0_disj)
    qed (use k(3,4) suc [OF lt] in simp_all)
  next
    case False
    show ?thesis
    proof (intro exI [of _ 0] conjI)
      show "retry_loop m into f attempts w
        = Some (give_up into (attempts + 1 + word_of_nat 0) (fst (f (world_after f 0 w))), world_after f (Suc 0) w)"
        using False retry_loop_stop [of into f w m attempts] by (auto simp: not_less)
      show "unat attempts + Suc 0 \<le> max 1 (unat m)"
        using less.prems by auto
      show "\<not> transient into (fst (f (world_after f 0 w))) \<or> unat attempts + Suc 0 = max 1 (unat m)"
        using False less.prems suc by (auto simp: word_less_nat_alt max_def split: if_splits)
    qed simp
  qed
qed

text \<open>C39. The retry loop returns, after at least one and at most \<open>max_attempts\<close> calls: every call
  before the last failed transiently; the last is the first answer that is not a transient
  failure, or the last allowed attempt; and the result is that answer, a transient failure
  becoming unavailability with the number of attempts made.\<close>

theorem with_retry_spec:
  "\<exists>k. with_retry m into f w
      = Some (give_up into (word_of_nat (Suc k)) (fst (f (world_after f k w))), world_after f (Suc k) w)
    \<and> (\<forall>j. j < k \<longrightarrow> transient into (fst (f (world_after f j w))))
    \<and> Suc k \<le> max 1 (unat m)
    \<and> (transient into (fst (f (world_after f k w))) \<longrightarrow> Suc k = max 1 (unat m))"
proof -
  from retry_loop_returns [of 0 m into f w] obtain k where k:
    "retry_loop m into f 0 w = Some (give_up into (0 + 1 + word_of_nat k) (fst (f (world_after f k w))), world_after f (Suc k) w)"
    "\<forall>j < k. transient into (fst (f (world_after f j w)))" "unat (0 :: u32) + Suc k \<le> max 1 (unat m)"
    "\<not> transient into (fst (f (world_after f k w))) \<or> unat (0 :: u32) + Suc k = max 1 (unat m)" by auto
  then show ?thesis
    by (intro exI [of _ k]) (auto simp: with_retry_def)
qed

text \<open>A validator that times out twice and then answers, under the default policy.\<close>

definition flaky :: "nat \<Rightarrow> ((unit, non_domain_error) query_error + nat) \<times> nat" where
  "flaky n =
     (if n < 2 then (Inl (QueryNonDomain \<lparr>nde_mode = Timeout, nde_message = ''''\<rparr>), Suc n) else (Inr n, Suc n))"

theorem with_retry_spec_witness:
  "with_retry 3 id flaky 0 = Some (Inr 2, 3)"
proof -
  from with_retry_spec [of 3 id flaky 0] obtain k where k:
    "with_retry 3 id flaky 0
      = Some (give_up id (word_of_nat (Suc k)) (fst (flaky (world_after flaky k 0))), world_after flaky (Suc k) 0)"
    "\<forall>j. j < k \<longrightarrow> transient id (fst (flaky (world_after flaky j 0)))"
    "Suc k \<le> 3" "transient id (fst (flaky (world_after flaky k 0))) \<longrightarrow> Suc k = 3" by auto
  have "k = 2"
    using k(3,4) by (cases "k = 0"; cases "k = 1") (auto simp: flaky_def)
  with k(1) show ?thesis by (simp add: flaky_def numeral_2_eq_2)
qed

end
