(* ===== verification/Zaino_Chain_Head.thy ===== *)
theory Zaino_Chain_Head
  imports Zaino_Chain_Graph Zaino_Finality Zaino_Status Zaino_Source
begin

text \<open>
  The chain-head writer of \<^verbatim>\<open>zaino-chain-head-service/src/service.rs\<close>: anchoring, one tick of
  the writer (reading the validator's tip, extending the graph, following reorgs, trimming
  against the finality seam, publishing the horizon and the snapshot) and the status rule.

  The validator is a parameter: a record of port functions over the state \<open>'w\<close> of the outside
  world, so every call may see a different chain. A call that fails is a value of the sum
  type. The two loops that the validator's answers could keep going are partial functions
  whose value \<open>None\<close> is divergence; the walk down in \<open>check_for_nonhigher_reorgs\<close> ends on its
  own and is a total function.
\<close>

section \<open>Errors and the source\<close>

datatype domain_rejection =
    RejectedTip get_chain_tip_error
  | RejectedBlock get_block_error
  | RejectedBlockByHash get_block_by_hash_error
  | RejectedRoots get_commitment_tree_roots_error

text \<open>The messages of the two string-carrying variants, one constructor per format string.\<close>

datatype inconsistency = MissingParent block_hash | AnchorUnavailable height

datatype reorg_failure =
    ExtendRefused not_child_of_tip
  | WalkedBeyondLimit
  | RewindRefused block_hash not_on_best_chain
  | BranchRefused not_child_of_tip
  | TipRefused not_child_of_tip
  | DetectionBeyondLimit
  | WorkOverflowed block_hash

datatype advance_error =
    AdvanceUnavailable unavailable_error
  | AdvanceTransport non_domain_error
  | AdvanceRejected string domain_rejection
  | InconsistentSource inconsistency
  | ReorgFailure reorg_failure

datatype chain_head_init_error = Anchor advance_error

fun from_source :: "('e \<Rightarrow> domain_rejection) \<Rightarrow> string \<Rightarrow> 'e source_error \<Rightarrow> advance_error" where
  "from_source wrap query (Unavailable e) = AdvanceUnavailable e"
| "from_source wrap query (NonDomain e) = AdvanceTransport e"
| "from_source wrap query (Domain e) = AdvanceRejected query (wrap e)"

record 'w chain_source =
  src_get_chain_tip :: "'w \<Rightarrow> (get_chain_tip_error source_error + block_hash \<times> height) \<times> 'w"
  src_get_block :: "height \<Rightarrow> 'w \<Rightarrow> (get_block_error source_error + block) \<times> 'w"
  src_get_block_by_hash :: "block_hash \<Rightarrow> 'w \<Rightarrow> (get_block_by_hash_error source_error + block) \<times> 'w"
  src_get_commitment_tree_roots ::
    "block_hash \<Rightarrow> 'w \<Rightarrow> (get_commitment_tree_roots_error source_error + tree_roots) \<times> 'w"

record chain_head_config =
  chc_max_depth :: u32
  chc_poll_interval_ms :: u64

definition MAX_BLOCK_REORG_HEIGHT :: u32 where "MAX_BLOCK_REORG_HEIGHT = 1000"
definition MAX_NONFINALISED_DEPTH :: u32 where "MAX_NONFINALISED_DEPTH = MAX_BLOCK_REORG_HEIGHT + 1"

definition chain_head_config_default :: chain_head_config where
  "chain_head_config_default = \<lparr>chc_max_depth = MAX_NONFINALISED_DEPTH, chc_poll_interval_ms = 1000\<rparr>"

section \<open>Reading the source\<close>

type_synonym ('w, 'a) reading = "'w \<Rightarrow> (advance_error + 'a) \<times> 'w"

definition bindR :: "('w, 'a) reading \<Rightarrow> ('a \<Rightarrow> ('w, 'b) reading) \<Rightarrow> ('w, 'b) reading" where
  "bindR m k w = (case m w of (Inl e, w') \<Rightarrow> (Inl e, w') | (Inr x, w') \<Rightarrow> k x w')"

definition present_or_absent ::
  "('e \<Rightarrow> domain_rejection) \<Rightarrow> 'e source_error + 'a \<Rightarrow> string \<Rightarrow> ('e \<Rightarrow> bool) \<Rightarrow> advance_error + 'a option" where
  "present_or_absent wrap read query is_absent =
     (case read of
        Inr x \<Rightarrow> Inr (Some x)
      | Inl e \<Rightarrow>
          (case e of
             Domain d \<Rightarrow> if is_absent d then Inr None else Inl (from_source wrap query e)
           | _ \<Rightarrow> Inl (from_source wrap query e)))"

definition chain_tip_of_source :: "'w chain_source \<Rightarrow> ('w, block_ref) reading" where
  "chain_tip_of_source src w =
     (case src_get_chain_tip src w of
        (Inl e, w') \<Rightarrow> (Inl (from_source RejectedTip ''get_chain_tip'' e), w')
      | (Inr (hash, h), w') \<Rightarrow> (Inr \<lparr>br_hash = hash, br_height = h\<rparr>, w'))"

definition block_at_height :: "'w chain_source \<Rightarrow> height \<Rightarrow> ('w, block option) reading" where
  "block_at_height src h w =
     (case src_get_block src h w of
        (r, w') \<Rightarrow> (present_or_absent RejectedBlock r ''get_block'' (\<lambda>e. case e of HeightNotFound _ \<Rightarrow> True), w'))"

definition block_at_hash :: "'w chain_source \<Rightarrow> block_hash \<Rightarrow> ('w, block option) reading" where
  "block_at_hash src hash w =
     (case src_get_block_by_hash src hash w of
        (r, w') \<Rightarrow> (present_or_absent RejectedBlockByHash r ''get_block_by_hash'' (\<lambda>e. case e of NotFound _ \<Rightarrow> True), w'))"

definition tree_roots_at :: "'w chain_source \<Rightarrow> block_hash \<Rightarrow> ('w, tree_roots) reading" where
  "tree_roots_at src hash w =
     (case src_get_commitment_tree_roots src hash w of
        (r, w') \<Rightarrow> (map_err (from_source RejectedRoots ''get_commitment_tree_roots'') r, w'))"

definition make_chain_head_block ::
  "block \<Rightarrow> tree_roots \<Rightarrow> chain_head_work option \<Rightarrow> advance_error + chain_head_block" where
  "make_chain_head_block blk roots parent_work =
     (let block_work = sbw_raw (cd_work (bh_bits (blk_header blk)))
      in bindE (case parent_work of
            Some parent \<Rightarrow> ok_or (chw_checked_add parent block_work) (ReorgFailure (WorkOverflowed (bh_hash (blk_header blk))))
          | None \<Rightarrow> Inr (anchored_at block_work))
         (\<lambda>work. Inr
            \<lparr>chb_reference = \<lparr>br_hash = bh_hash (blk_header blk), br_height = bh_height (blk_header blk)\<rparr>,
             chb_parent_hash = bh_prev_hash (blk_header blk),
             chb_work = work, chb_block = blk, chb_tree_roots = roots\<rparr>))"

definition block_to_chainblock :: "'w chain_source \<Rightarrow> chain_head_block \<Rightarrow> block \<Rightarrow> ('w, chain_head_block) reading" where
  "block_to_chainblock src prev_block blk =
     bindR (tree_roots_at src (bh_hash (blk_header blk)))
       (\<lambda>roots w. (make_chain_head_block blk roots (Some (chb_work prev_block)), w))"

definition height_below :: "height \<Rightarrow> u32 \<Rightarrow> height" where
  "height_below h delta = height_saturating_sub h delta"

definition next_height :: "height \<Rightarrow> height" where
  "next_height h = (case height_checked_add h 1 of Some h' \<Rightarrow> h' | None \<Rightarrow> h)"

definition resolve_anchor_block :: "'w chain_source \<Rightarrow> height \<Rightarrow> ('w, chain_head_block) reading" where
  "resolve_anchor_block src anchor_height =
     bindR (block_at_height src anchor_height)
       (\<lambda>found. case found of
          None \<Rightarrow> \<lambda>w. (Inl (InconsistentSource (AnchorUnavailable anchor_height)), w)
        | Some blk \<Rightarrow>
            bindR (tree_roots_at src (bh_hash (blk_header blk)))
              (\<lambda>roots w. (make_chain_head_block blk roots None, w)))"

definition anchor :: "'w chain_source \<Rightarrow> chain_head_config \<Rightarrow> ('w, map_backed_snapshot) reading" where
  "anchor src config =
     bindR (chain_tip_of_source src) (\<lambda>tip.
       bindR (\<lambda>w. case src_get_block src (height_below (br_height tip) (chc_max_depth config)) w of
                (r, w') \<Rightarrow> (map_err (from_source RejectedBlock ''get_block'') r, w'))
         (\<lambda>blk.
            bindR (tree_roots_at src (bh_hash (blk_header blk)))
              (\<lambda>roots w. (bindE (make_chain_head_block blk roots None) (\<lambda>b. Inr (from_initial_block b)), w))))"

section \<open>Reorgs\<close>

datatype branch_block = Retained chain_head_block | Fetched block

fun pending_parent_hash :: "branch_block \<Rightarrow> block_hash" where
  "pending_parent_hash (Retained b) = chb_parent_hash b"
| "pending_parent_hash (Fetched blk) = bh_prev_hash (blk_header blk)"

fun to_chain_head_block :: "'w chain_source \<Rightarrow> branch_block \<Rightarrow> chain_head_block \<Rightarrow> ('w, chain_head_block) reading" where
  "to_chain_head_block src (Retained b) prev_block w = (Inr b, w)"
| "to_chain_head_block src (Fetched blk) prev_block w = block_to_chainblock src prev_block blk w"

partial_function (option) reorg_walk ::
  "'w chain_source \<Rightarrow> u32 \<Rightarrow> map_backed_snapshot \<Rightarrow> block_hash \<Rightarrow> u32 \<Rightarrow> branch_block list \<Rightarrow> 'w
    \<Rightarrow> ((advance_error + chain_head_block \<times> branch_block list) \<times> 'w) option" where
  [code]: "reorg_walk src max_depth g parent_hash descended branch w =
     (if descended > max_depth then Some (Inl (ReorgFailure WalkedBeyondLimit), w)
      else
        let descended = saturating_add descended 1
        in case block_by_hash g parent_hash of
             Some prev \<Rightarrow>
               if is_on_best_chain g (chb_reference prev) then Some (Inr (prev, branch), w)
               else reorg_walk src max_depth g (chb_parent_hash prev) descended (branch @ [Retained prev]) w
           | None \<Rightarrow>
               case block_at_hash src parent_hash w of
                 (Inl e, w') \<Rightarrow> Some (Inl e, w')
               | (Inr None, w') \<Rightarrow> Some (Inl (InconsistentSource (MissingParent parent_hash)), w')
               | (Inr (Some fetched), w') \<Rightarrow>
                   reorg_walk src max_depth g (bh_prev_hash (blk_header fetched)) descended
                     (branch @ [Fetched fetched]) w')"

fun lay_branch ::
  "'w chain_source \<Rightarrow> map_backed_snapshot \<Rightarrow> chain_head_block \<Rightarrow> branch_block list
    \<Rightarrow> ('w, chain_head_block \<times> map_backed_snapshot) reading" where
  "lay_branch src g prev_block [] w = (Inr (prev_block, g), w)"
| "lay_branch src g prev_block (pending # rest) w =
     bindR (to_chain_head_block src pending prev_block)
       (\<lambda>b w. case graph_extend b g of
          Inl e \<Rightarrow> (Inl (ReorgFailure (BranchRefused e)), w)
        | Inr g' \<Rightarrow> lay_branch src g' b rest w) w"

definition finish_reorg ::
  "'w chain_source \<Rightarrow> map_backed_snapshot \<Rightarrow> branch_block \<Rightarrow> chain_head_block \<times> branch_block list
    \<Rightarrow> ('w, chain_head_block \<times> map_backed_snapshot) reading" where
  "finish_reorg src g blk found =
     (case found of (fork_point, branch) \<Rightarrow>
        case rewind_to (chb_reference fork_point) g of
          Inl e \<Rightarrow> \<lambda>w. (Inl (ReorgFailure (RewindRefused (chb_hash fork_point) e)), w)
        | Inr g' \<Rightarrow>
            bindR (lay_branch src g' fork_point (rev branch))
              (\<lambda>(prev_block, g'').
                 bindR (to_chain_head_block src blk prev_block)
                   (\<lambda>chainblock w. case graph_extend chainblock g'' of
                      Inl e \<Rightarrow> (Inl (ReorgFailure (TipRefused e)), w)
                    | Inr g''' \<Rightarrow> (Inr (chainblock, g'''), w))))"

definition handle_reorg ::
  "'w chain_source \<Rightarrow> chain_head_config \<Rightarrow> map_backed_snapshot \<Rightarrow> branch_block \<Rightarrow> 'w
    \<Rightarrow> ((advance_error + chain_head_block \<times> map_backed_snapshot) \<times> 'w) option" where
  "handle_reorg src config g blk w =
     (case reorg_walk src (chc_max_depth config) g (pending_parent_hash blk) 0 [] w of
        None \<Rightarrow> None
      | Some (Inl e, w') \<Rightarrow> Some (Inl e, w')
      | Some (Inr found, w') \<Rightarrow> Some (finish_reorg src g blk found w'))"

section \<open>The next graph\<close>

partial_function (option) extend_to ::
  "'w chain_source \<Rightarrow> chain_head_config \<Rightarrow> height \<Rightarrow> map_backed_snapshot \<Rightarrow> 'w
    \<Rightarrow> ((advance_error + map_backed_snapshot) \<times> 'w) option" where
  [code]: "extend_to src config chain_height g w =
     (if height_u32 (br_height (best_tip g)) < height_u32 chain_height then
        case block_at_height src (next_height (br_height (best_tip g))) w of
          (Inl e, w') \<Rightarrow> Some (Inl e, w')
        | (Inr None, w') \<Rightarrow> Some (Inr g, w')
        | (Inr (Some blk), w') \<Rightarrow>
            if bh_prev_hash (blk_header blk) = br_hash (best_tip g) then
              case block_to_chainblock src (tip_block g) blk w' of
                (Inl e, w'') \<Rightarrow> Some (Inl e, w'')
              | (Inr chainblock, w'') \<Rightarrow>
                  case graph_extend chainblock g of
                    Inl e \<Rightarrow> Some (Inl (ReorgFailure (ExtendRefused e)), w'')
                  | Inr g' \<Rightarrow> extend_to src config chain_height g' w''
            else
              case handle_reorg src config g (Fetched blk) w' of
                None \<Rightarrow> None
              | Some (Inl e, w'') \<Rightarrow> Some (Inl e, w'')
              | Some (Inr (_, g'), w'') \<Rightarrow> extend_to src config chain_height g' w''
      else Some (Inr g, w))"

function detect_reorg ::
  "'w chain_source \<Rightarrow> chain_head_config \<Rightarrow> height \<Rightarrow> height \<Rightarrow> map_backed_snapshot \<Rightarrow> 'w
    \<Rightarrow> ((advance_error + map_backed_snapshot) \<times> 'w) option" where
  "detect_reorg src config tip_height target_height g w =
     (if saturating_add (height_u32 target_height) (chc_max_depth config) < height_u32 tip_height
      then Some (Inl (ReorgFailure DetectionBeyondLimit), w)
      else case block_at_height src target_height w of
        (Inl e, w') \<Rightarrow> Some (Inl e, w')
      | (Inr (Some blk), w') \<Rightarrow>
          if bh_hash (blk_header blk) \<noteq> br_hash (best_tip g) then
            case handle_reorg src config g (Fetched blk) w' of
              None \<Rightarrow> None
            | Some (Inl e, w'') \<Rightarrow> Some (Inl e, w'')
            | Some (Inr (_, g'), w'') \<Rightarrow> Some (Inr g', w'')
          else Some (Inr g, w')
      | (Inr None, w') \<Rightarrow>
          if height_u32 target_height = 0 then Some (Inr g, w')
          else detect_reorg src config tip_height (height_below target_height 1) g w')"
  by pat_completeness auto
termination
  by (relation "measure (\<lambda>(_, _, _, target_height, _, _). hnat target_height)")
    (auto simp: height_below_def hnat_saturating_sub simp flip: unat_gt_0 hnat_def)

declare detect_reorg.simps [simp del]

definition check_for_nonhigher_reorgs ::
  "'w chain_source \<Rightarrow> chain_head_config \<Rightarrow> map_backed_snapshot \<Rightarrow> 'w
    \<Rightarrow> ((advance_error + map_backed_snapshot) \<times> 'w) option" where
  "check_for_nonhigher_reorgs src config g w =
     detect_reorg src config (br_height (best_tip g)) (br_height (best_tip g)) g w"

definition trim_floor :: "chain_head_config \<Rightarrow> seam_state \<Rightarrow> map_backed_snapshot \<Rightarrow> height" where
  "trim_floor config hz g =
     (let reorg_safety_floor = height_below (br_height (best_tip g)) (chc_max_depth config)
      in case retention_floor hz of
           Some floor \<Rightarrow> min reorg_safety_floor floor
         | None \<Rightarrow> GENESIS)"

definition publish_horizon :: "map_backed_snapshot \<Rightarrow> seam_state \<Rightarrow> seam_state" where
  "publish_horizon g hz =
     (let tip = br_height (best_tip g);
          horizon_height = height_below tip (horizon_reorg_depth hz)
      in case best_block_by_height g horizon_height of
           Some b \<Rightarrow> (case horizon_advance tip (chb_hash b) hz of Inr (_, hz') \<Rightarrow> hz' | Inl _ \<Rightarrow> hz)
         | None \<Rightarrow> hz)"

definition to_heaviest ::
  "'w chain_source \<Rightarrow> chain_head_config \<Rightarrow> map_backed_snapshot \<Rightarrow> 'w
    \<Rightarrow> ((advance_error + map_backed_snapshot) \<times> 'w) option" where
  "to_heaviest src config g w =
     (let heaviest = heaviest_block g
      in if chb_work heaviest > chb_work (tip_block g) then
           case handle_reorg src config g (Retained heaviest) w of
             None \<Rightarrow> None
           | Some (Inl e, w') \<Rightarrow> Some (Inl e, w')
           | Some (Inr (_, g'), w') \<Rightarrow> Some (Inr g', w')
         else Some (Inr g, w))"

definition start_graph ::
  "'w chain_source \<Rightarrow> chain_head_config \<Rightarrow> map_backed_snapshot \<Rightarrow> height \<Rightarrow> ('w, map_backed_snapshot) reading" where
  "start_graph src config previous chain_height =
     (let anchor_height = height_below chain_height (chc_max_depth config)
      in if br_height (best_tip previous) < anchor_height
         then bindR (resolve_anchor_block src anchor_height) (\<lambda>b w. (Inr (from_initial_block b), w))
         else (\<lambda>w. (Inr previous, w)))"

definition next_graph ::
  "'w chain_source \<Rightarrow> chain_head_config \<Rightarrow> map_backed_snapshot \<Rightarrow> height \<Rightarrow> seam_state \<Rightarrow> 'w
    \<Rightarrow> ((advance_error + map_backed_snapshot) \<times> seam_state \<times> 'w) option" where
  "next_graph src config previous chain_height hz w =
     (case start_graph src config previous chain_height w of
        (Inl e, w1) \<Rightarrow> Some (Inl e, hz, w1)
      | (Inr g, w1) \<Rightarrow>
          case extend_to src config chain_height g w1 of
            None \<Rightarrow> None
          | Some (Inl e, w2) \<Rightarrow> Some (Inl e, hz, w2)
          | Some (Inr g, w2) \<Rightarrow>
              case check_for_nonhigher_reorgs src config g w2 of
                None \<Rightarrow> None
              | Some (Inl e, w3) \<Rightarrow> Some (Inl e, hz, w3)
              | Some (Inr g, w3) \<Rightarrow>
                  let g = remove_finalised_blocks (trim_floor config hz g) g;
                      hz = publish_horizon g hz
                  in case to_heaviest src config g w3 of
                       None \<Rightarrow> None
                     | Some (r, w4) \<Rightarrow> Some (r, hz, w4))"

section \<open>The writer\<close>

record chain_head_service =
  chs_current :: map_backed_snapshot
  chs_updates :: chain_state_epoch
  chs_horizon :: seam_state
  chs_status :: named_atomic_status
  chs_config :: chain_head_config

datatype tick_outcome = Advanced | Failed

fun next_status :: "status_type \<Rightarrow> tick_outcome \<Rightarrow> status_type" where
  "next_status Closing _ = Closing"
| "next_status _ Advanced = Ready"
| "next_status _ Failed = RecoverableError"

definition COMPONENT :: string where "COMPONENT = ''ChainHead''"

definition anchored ::
  "'w chain_source \<Rightarrow> chain_head_config \<Rightarrow> seam_state \<Rightarrow> 'w \<Rightarrow> (chain_head_init_error + chain_head_service) \<times> 'w" where
  "anchored src config horizon w =
     (case anchor src config w of
        (Inl e, w') \<Rightarrow> (Inl (Anchor e), w')
      | (Inr snapshot, w') \<Rightarrow>
          (Inr \<lparr>chs_current = snapshot,
                chs_updates = \<lparr>cse_generation = 0, cse_best_tip = best_tip snapshot\<rparr>,
                chs_horizon = horizon,
                chs_status = nas_new COMPONENT Syncing,
                chs_config = config\<rparr>, w'))"

definition chs_apply_status :: "(status_type \<Rightarrow> status_type) \<Rightarrow> chain_head_service \<Rightarrow> chain_head_service" where
  "chs_apply_status f s = s\<lparr>chs_status := snd (nas_apply f (chs_status s))\<rparr>"

definition shutdown :: "chain_head_service \<Rightarrow> chain_head_service" where
  "shutdown s = s\<lparr>chs_status := nas_store Closing (chs_status s)\<rparr>"

definition mark_fresh :: "chain_head_service \<Rightarrow> chain_head_service" where
  "mark_fresh s = chs_apply_status (\<lambda>c. next_status c Advanced) s"

definition publish_snapshot ::
  "map_backed_snapshot \<Rightarrow> map_backed_snapshot \<Rightarrow> chain_head_service \<Rightarrow> chain_head_service" where
  "publish_snapshot previous nxt s =
     (let new_tip = best_tip nxt;
          tip_changed = new_tip \<noteq> best_tip previous;
          nxt = stamp_generation previous (cse_generation (chs_updates s)) nxt;
          s = s\<lparr>chs_current := nxt\<rparr>
      in if tip_changed
         then s\<lparr>chs_updates := \<lparr>cse_generation = cse_generation (epoch nxt), cse_best_tip = new_tip\<rparr>\<rparr>
         else s)"

definition tick ::
  "'w chain_source \<Rightarrow> chain_head_service \<Rightarrow> 'w \<Rightarrow> ((advance_error + unit) \<times> chain_head_service \<times> 'w) option" where
  "tick src s w =
     (case chain_tip_of_source src w of
        (Inl e, w') \<Rightarrow> Some (Inl e, s, w')
      | (Inr tip, w') \<Rightarrow>
          let previous = chs_current s
          in if tip = best_tip previous then Some (Inr (), mark_fresh s, w')
             else case next_graph src (chs_config s) previous (br_height tip) (chs_horizon s) w' of
               None \<Rightarrow> None
             | Some (Inl e, hz, w'') \<Rightarrow> Some (Inl e, s\<lparr>chs_horizon := hz\<rparr>, w'')
             | Some (Inr nxt, hz, w'') \<Rightarrow>
                 Some (Inr (), publish_snapshot previous nxt (mark_fresh (s\<lparr>chs_horizon := hz\<rparr>)), w''))"

section \<open>The run loop\<close>

datatype report = ReportReady | ReportProgress u64 "u64 option"

record run_state =
  run_service :: chain_head_service
  run_announced_ready :: bool
  run_reports :: "report list"

text \<open>
  Where the cancellation of one pass of the loop strikes. A tick that is dropped at an await
  has published nothing; \<open>CancelledDuring True\<close> is one dropped after it moved the horizon.
\<close>

datatype cancellation = NotCancelled | CancelledBefore | CancelledDuring bool | CancelledWaiting

datatype control_flow = ContinueLoop | BreakLoop

definition run_closing :: "run_state \<Rightarrow> run_state" where
  "run_closing r = r\<lparr>run_service := shutdown (run_service r)\<rparr>"

definition after_wait :: "cancellation \<Rightarrow> run_state \<Rightarrow> control_flow \<times> run_state" where
  "after_wait c r = (if c = CancelledWaiting then (BreakLoop, run_closing r) else (ContinueLoop, r))"

definition run_iteration ::
  "'w chain_source \<Rightarrow> cancellation \<Rightarrow> run_state \<Rightarrow> 'w \<Rightarrow> (control_flow \<times> run_state \<times> 'w) option" where
  "run_iteration src c r w =
     (if c = CancelledBefore \<or> c = CancelledDuring False then Some (BreakLoop, run_closing r, w)
      else case tick src (run_service r) w of
        None \<Rightarrow> None
      | Some (iteration, s, w') \<Rightarrow>
          (case c of
             CancelledDuring _ \<Rightarrow>
               Some (BreakLoop, run_closing (r\<lparr>run_service := (run_service r)\<lparr>chs_horizon := chs_horizon s\<rparr>\<rparr>), w')
           | _ \<Rightarrow>
               (case iteration of
                  Inr _ \<Rightarrow>
                    let tip = ucast (height_u32 (br_height (best_tip (chs_current s))));
                        reports = (if run_announced_ready r then [] else [ReportReady]) @ [ReportProgress tip (Some tip)];
                        (flow, r') = after_wait c
                          \<lparr>run_service = s, run_announced_ready = True, run_reports = run_reports r @ reports\<rparr>
                    in Some (flow, r', w')
                | Inl _ \<Rightarrow>
                    let (flow, r') = after_wait c (r\<lparr>run_service := chs_apply_status (\<lambda>x. next_status x Failed) s\<rparr>)
                    in Some (flow, r', w'))))"

end
