(* ===== verification/Zaino_Chain_Head_Writer.thy ===== *)
theory Zaino_Chain_Head_Writer
  imports Zaino_Chain_Head
begin

text \<open>
  What the chain-head writer does. The validator is trusted for one thing only: the blocks it
  serves are entries of one ledger (a hash determines its height, its parent and, through its
  difficulty, its cumulative work). Under that hypothesis, whatever the validator answers and
  in whatever order, every graph a tick builds keeps the graph invariants and weighs its
  blocks by the true work of their chains; a tick returns; a failed tick publishes nothing;
  and after a successful tick the head is the tip of a validator that serves its heaviest
  chain.
\<close>

section \<open>The validator's ledger\<close>

type_synonym work_ledger = "block_hash \<Rightarrow> int"

definition header_work :: "block_header \<Rightarrow> nat" where
  "header_work h = unat (sbw_raw (cd_work (bh_bits h)))"

definition served :: "ledger \<Rightarrow> work_ledger \<Rightarrow> block \<Rightarrow> bool" where
  "served L W blk \<longleftrightarrow>
     L (bh_hash (blk_header blk)) = Some (hnat (bh_height (blk_header blk)), bh_prev_hash (blk_header blk))
     \<and> W (bh_hash (blk_header blk)) = W (bh_prev_hash (blk_header blk)) + int (header_work (blk_header blk))
     \<and> height_ok (bh_height (blk_header blk))"

definition honours_height :: "'w chain_source \<Rightarrow> bool" where
  "honours_height src \<longleftrightarrow>
     (\<forall>h w blk w'. src_get_block src h w = (Inr blk, w') \<longrightarrow> bh_height (blk_header blk) = h)
     \<and> (\<forall>w k h w'. src_get_chain_tip src w = (Inr (k, h), w') \<longrightarrow> height_ok h)"

definition serves_ledger :: "ledger \<Rightarrow> work_ledger \<Rightarrow> 'w chain_source \<Rightarrow> bool" where
  "serves_ledger L W src \<longleftrightarrow>
     (\<forall>h w blk w'. src_get_block src h w = (Inr blk, w') \<longrightarrow> served L W blk)
     \<and> (\<forall>k w blk w'. src_get_block_by_hash src k w = (Inr blk, w') \<longrightarrow> served L W blk)"

text \<open>A retained block weighs the true work of its chain above a common base.\<close>

definition weighed :: "ledger \<Rightarrow> work_ledger \<Rightarrow> int \<Rightarrow> chain_head_block \<Rightarrow> bool" where
  "weighed L W base b \<longleftrightarrow>
     ledger_block L b \<and> int (unat (chw_raw (chb_work b))) = W (chb_hash b) - base \<and> height_ok (chb_height b)"

definition graph_weighed :: "ledger \<Rightarrow> work_ledger \<Rightarrow> int \<Rightarrow> map_backed_snapshot \<Rightarrow> bool" where
  "graph_weighed L W base g \<longleftrightarrow> graph_run L g \<and> (\<forall>k b. block_by_hash g k = Some b \<longrightarrow> weighed L W base b)"

fun pending_ok :: "ledger \<Rightarrow> work_ledger \<Rightarrow> int \<Rightarrow> branch_block \<Rightarrow> bool" where
  "pending_ok L W base (Retained b) = weighed L W base b"
| "pending_ok L W base (Fetched blk) = served L W blk"

fun pending_reference :: "branch_block \<Rightarrow> block_ref" where
  "pending_reference (Retained b) = chb_reference b"
| "pending_reference (Fetched blk) =
     \<lparr>br_hash = bh_hash (blk_header blk), br_height = bh_height (blk_header blk)\<rparr>"

lemma bindR_Inr:
  "bindR m k w = (Inr y, w') \<longleftrightarrow> (\<exists>x w1. m w = (Inr x, w1) \<and> k x w1 = (Inr y, w'))"
  by (auto simp: bindR_def split: prod.splits sum.splits)

lemma refuse_Inr:
  "(case x of Inl e \<Rightarrow> (Inl (f e), w) | Inr y \<Rightarrow> k y) = (Inr z, w') \<longleftrightarrow> (\<exists>y. x = Inr y \<and> k y = (Inr z, w'))"
  by (cases x) auto

lemma block_at_height_Some:
  "block_at_height src h w = (Inr (Some blk), w') \<longleftrightarrow> src_get_block src h w = (Inr blk, w')"
  by (auto simp: block_at_height_def present_or_absent_def
      split: prod.splits sum.splits source_error.splits if_splits)

lemma block_at_height_None:
  "block_at_height src h w = (Inr None, w') \<longleftrightarrow> (\<exists>e. src_get_block src h w = (Inl (Domain (HeightNotFound e)), w'))"
  by (auto simp: block_at_height_def present_or_absent_def
      split: prod.splits sum.splits source_error.splits get_block_error.splits if_splits)

lemma block_at_hash_Some:
  "block_at_hash src k w = (Inr (Some blk), w') \<longleftrightarrow> src_get_block_by_hash src k w = (Inr blk, w')"
  by (auto simp: block_at_hash_def present_or_absent_def
      split: prod.splits sum.splits source_error.splits if_splits)

lemma serves_ledgerD:
  assumes "serves_ledger L W src"
  shows "src_get_block src h w = (Inr blk, w') \<Longrightarrow> served L W blk"
    and "src_get_block_by_hash src k w = (Inr blk, w') \<Longrightarrow> served L W blk"
  using assms unfolding serves_ledger_def by blast+

lemma make_chain_head_block_Inr:
  assumes "make_chain_head_block blk roots pw = Inr b"
  shows "chb_reference b = pending_reference (Fetched blk)" "chb_parent_hash b = bh_prev_hash (blk_header blk)"
    "chb_block b = blk" "chb_tree_roots b = roots"
    "unat (chw_raw (chb_work b)) =
      (case pw of None \<Rightarrow> 0 | Some p \<Rightarrow> unat (chw_raw p)) + header_work (blk_header blk)"
  using assms
  by (auto simp: make_chain_head_block_def Let_def result_simps anchored_at_def chw_checked_add_def header_work_def
      checked_add_eq_Some split: option.splits)

lemma chb_hash_height:
  "chb_reference b = pending_reference (Fetched blk) \<Longrightarrow> chb_hash b = bh_hash (blk_header blk)"
  "chb_reference b = pending_reference (Fetched blk) \<Longrightarrow> chb_height b = bh_height (blk_header blk)"
  by (simp_all add: chb_hash_def chb_height_def)

lemma to_chain_head_block_ok:
  assumes "to_chain_head_block src p prev w = (Inr b, w')" and "pending_ok L W base p" and "weighed L W base prev"
    and "chb_parent_hash b = chb_hash prev"
  shows "weighed L W base b"
proof (cases p)
  case (Retained c)
  with assms show ?thesis by simp
next
  case (Fetched blk)
  with assms(1) obtain roots where "make_chain_head_block blk roots (Some (chb_work prev)) = Inr b"
    by (auto simp: block_to_chainblock_def bindR_Inr)
  note b = make_chain_head_block_Inr [OF this]
  show ?thesis
    using assms b(2,5) Fetched chb_hash_height [OF b(1)]
    by (simp add: weighed_def served_def ledger_block_def)
qed

lemma to_chain_head_block_reference:
  assumes "to_chain_head_block src p prev w = (Inr b, w')"
  shows "chb_reference b = pending_reference p"
proof (cases p)
  case (Fetched blk)
  with assms obtain roots where "make_chain_head_block blk roots (Some (chb_work prev)) = Inr b"
    by (auto simp: block_to_chainblock_def bindR_Inr)
  from make_chain_head_block_Inr(1) [OF this] Fetched show ?thesis by simp
qed (use assms in auto)

section \<open>Moves keep the graph weighed\<close>

definition retains :: "map_backed_snapshot \<Rightarrow> map_backed_snapshot \<Rightarrow> bool" where
  "retains g g' \<longleftrightarrow> (\<forall>k. block_by_hash g k \<noteq> None \<longrightarrow> block_by_hash g' k \<noteq> None)"

lemma retains_refl [simp, intro]: "retains g g"
  by (simp add: retains_def)

lemma retains_trans: "retains g g' \<Longrightarrow> retains g' g'' \<Longrightarrow> retains g g''"
  by (simp add: retains_def)

lemma extend_retains: "graph_extend b g = Inr g' \<Longrightarrow> retains g g'"
  by (simp add: retains_def extend_block_by_hash)

lemma rewind_retains: "graph_ok g \<Longrightarrow> rewind_to r g = Inr g' \<Longrightarrow> retains g g'"
  by (simp add: retains_def rewind_best_block(1))

lemma graph_weighedD:
  assumes "graph_weighed L W base g"
  shows "graph_run L g" "graph_ok g" "graph_ledger L g"
    "block_by_hash g k = Some b \<Longrightarrow> weighed L W base b" "weighed L W base (tip_block g)"
proof -
  show r: "graph_run L g" and w: "block_by_hash g k = Some b \<Longrightarrow> weighed L W base b" for k b
    using assms by (auto simp: graph_weighed_def)
  show "graph_ok g" "graph_ledger L g" using graph_run_ok [OF r] by auto
  show "weighed L W base (tip_block g)"
    by (rule w [of "chb_hash (tip_block g)"]) (simp add: block_by_hash_def tip_block_def)
qed

lemma extend_weighed:
  assumes g: "graph_weighed L W base g" and b: "weighed L W base b" and e: "graph_extend b g = Inr g'"
  shows "graph_weighed L W base g'" "tip_block g' = b" "hd (best_chain g') = hd (best_chain g)"
    "best_chain g' = best_chain g @ [b]" "child_of (tip_block g) b"
proof -
  have l: "ledger_block L b" using b by (simp add: weighed_def)
  note step = extend_step [OF graph_weighedD(2,3) [OF g] l e]
  show "graph_weighed L W base g'"
    using graph_run.extended [OF graph_weighedD(1) [OF g] l e] extend_block_by_hash [OF e] b
      graph_weighedD(4) [OF g] by (auto simp: graph_weighed_def split: if_splits)
  show "tip_block g' = b" "best_chain g' = best_chain g @ [b]" "child_of (tip_block g) b" using step by auto
  then show "hd (best_chain g') = hd (best_chain g)"
    using mbs.chain_tip [OF graph_weighedD(2) [OF g]] by simp
qed

lemma rewind_weighed:
  assumes g: "graph_weighed L W base g" and e: "rewind_to r g = Inr g'"
  shows "graph_weighed L W base g'" "chb_reference (tip_block g') = r" "hd (best_chain g') = hd (best_chain g)"
proof -
  show "graph_weighed L W base g'"
    using graph_run.rewound [OF graph_weighedD(1) [OF g] e] rewind_best_block(1) [OF graph_weighedD(2) [OF g] e] g
    by (simp add: graph_weighed_def)
  show "chb_reference (tip_block g') = r" "hd (best_chain g') = hd (best_chain g)"
    using mbs.rewind_tip [OF graph_weighedD(2) [OF g] e] by auto
qed

lemma trim_weighed:
  assumes g: "graph_weighed L W base g"
  shows "graph_weighed L W base (remove_finalised_blocks floor g)"
proof -
  have "block_by_hash g k = Some b" if "block_by_hash (remove_finalised_blocks floor g) k = Some b" for k b
    using that trim_view(1,2) [OF graph_weighedD(2) [OF g], of floor]
    by (auto simp: block_by_hash_def split: if_splits option.splits)
  then show ?thesis
    using graph_run.trimmed [OF graph_weighedD(1) [OF g]] graph_weighedD(4) [OF g] unfolding graph_weighed_def
    by blast
qed

lemma initial_weighed:
  assumes "weighed L W base b"
  shows "graph_weighed L W base (from_initial_block b)"
  using assms graph_run.initial [of L b]
  by (auto simp: graph_weighed_def weighed_def block_by_hash_def from_initial_block_def split: if_splits)

section \<open>Following a reorg\<close>

definition walk_ok :: "ledger \<Rightarrow> work_ledger \<Rightarrow> int \<Rightarrow> map_backed_snapshot
    \<Rightarrow> (advance_error + chain_head_block \<times> branch_block list) \<Rightarrow> bool" where
  "walk_ok L W base g r \<longleftrightarrow> (\<forall>fork_point branch. r = Inr (fork_point, branch) \<longrightarrow>
     block_by_hash g (chb_hash fork_point) = Some fork_point
     \<and> is_on_best_chain g (chb_reference fork_point) \<and> (\<forall>p \<in> set branch. pending_ok L W base p))"

lemma reorg_walk_spec:
  assumes "reorg_walk src d g parent_hash n branch w = Some r" and "serves_ledger L W src"
    and "graph_weighed L W base g" and "\<forall>p \<in> set branch. pending_ok L W base p"
  shows "walk_ok L W base g (fst r)"
  using assms
proof (induction rule: reorg_walk.raw_induct [rotated, consumes 1, case_names walk])
  case (walk rw src d g parent_hash n branch w r)
  note body = walk.hyps and IH = walk.IH [OF _ walk.prems(1,2)]
  show ?case
  proof (cases "n > d")
    case True
    with body show ?thesis by (auto simp: walk_ok_def)
  next
    case n: False
    show ?thesis
    proof (cases "block_by_hash g parent_hash")
      case (Some prev)
      have prev: "chb_hash prev = parent_hash" "weighed L W base prev"
        using block_by_hash_hash [OF graph_weighedD(2) [OF walk.prems(2)] Some]
          graph_weighedD(4) [OF walk.prems(2) Some] by auto
      show ?thesis
      proof (cases "is_on_best_chain g (chb_reference prev)")
        case True
        with body n Some prev walk.prems(3) show ?thesis by (auto simp: walk_ok_def Let_def)
      next
        case False
        with body n Some have "rw src d g (chb_parent_hash prev) (saturating_add n 1) (branch @ [Retained prev]) w = Some r"
          by (simp add: Let_def)
        from IH [OF this] prev walk.prems(3) show ?thesis by simp
      qed
    next
      case None
      obtain x w1 where x: "block_at_hash src parent_hash w = (x, w1)" by force
      show ?thesis
      proof (cases "\<exists>blk. x = Inr (Some blk)")
        case True
        then obtain blk where blk: "x = Inr (Some blk)" by blast
        have "rw src d g (bh_prev_hash (blk_header blk)) (saturating_add n 1) (branch @ [Fetched blk]) w1 = Some r"
          using body n None x blk by (simp add: Let_def)
        moreover have "served L W blk"
          using x blk serves_ledgerD(2) [OF walk.prems(1)] by (simp add: block_at_hash_Some)
        ultimately show ?thesis using IH walk.prems(3) by simp
      next
        case False
        with body n None x show ?thesis
          by (cases x; cases "projr x") (auto simp: Let_def walk_ok_def)
      qed
    qed
  qed
qed

lemma lay_branch_spec:
  assumes "lay_branch src g prev branch w = (Inr (prev', g'), w')"
    and "graph_weighed L W base g" and "prev = tip_block g" and "\<forall>p \<in> set branch. pending_ok L W base p"
  shows "graph_weighed L W base g' \<and> prev' = tip_block g' \<and> hd (best_chain g') = hd (best_chain g) \<and> retains g g'"
  using assms
proof (induction branch arbitrary: g prev w)
  case (Cons p branch)
  obtain b w1 g1 where b: "to_chain_head_block src p prev w = (Inr b, w1)" and e: "graph_extend b g = Inr g1"
    and rest: "lay_branch src g1 b branch w1 = (Inr (prev', g'), w')"
    using Cons.prems(1) by (auto simp: bindR_Inr refuse_Inr)
  have "chb_parent_hash b = chb_hash prev"
    using e Cons.prems(3) by (simp add: extend_Inr child_of_def tip_block_def)
  then have "weighed L W base b"
    using to_chain_head_block_ok [OF b] Cons.prems graph_weighedD(5) by auto
  note g1 = extend_weighed [OF Cons.prems(2) this e]
  show ?case using Cons.IH [OF rest g1(1)] g1(2,3) Cons.prems(4) retains_trans [OF extend_retains [OF e]] by simp
qed simp

lemma handle_reorg_tip:
  assumes "handle_reorg src config g p w = Some (Inr (b, g'), w')"
  shows "tip_block g' = b" "chb_reference b = pending_reference p"
proof -
  from assms obtain fork_point branch w1 where "finish_reorg src g p (fork_point, branch) w1 = (Inr (b, g'), w')"
    by (auto simp: handle_reorg_def split: option.splits sum.splits prod.splits)
  then obtain prev g2 w2 w3 where "to_chain_head_block src p prev w2 = (Inr b, w3)" "graph_extend b g2 = Inr g'"
    by (auto simp: finish_reorg_def bindR_Inr refuse_Inr split: sum.splits)
  then show "tip_block g' = b" "chb_reference b = pending_reference p"
    by (auto simp: extend_Inr tip_block_def dest: to_chain_head_block_reference)
qed

lemma handle_reorg_spec:
  assumes src: "serves_ledger L W src" and g: "graph_weighed L W base g" and p: "pending_ok L W base p"
    and h: "handle_reorg src config g p w = Some (Inr (b, g'), w')"
  shows "graph_weighed L W base g'" "hd (best_chain g') = hd (best_chain g)" "retains g g'"
proof -
  obtain fork_point branch w1 where
    walk: "reorg_walk src (chc_max_depth config) g (pending_parent_hash p) 0 [] w = Some (Inr (fork_point, branch), w1)"
    and fin: "finish_reorg src g p (fork_point, branch) w1 = (Inr (b, g'), w')"
    using h by (auto simp: handle_reorg_def split: option.splits sum.splits prod.splits)
  have ok: "block_by_hash g (chb_hash fork_point) = Some fork_point" "is_on_best_chain g (chb_reference fork_point)"
    "\<forall>p \<in> set branch. pending_ok L W base p"
    using reorg_walk_spec [OF walk src g] by (auto simp: walk_ok_def)
  obtain g1 where g1: "rewind_to (chb_reference fork_point) g = Inr g1"
    using rewind_accepts [OF graph_weighedD(2) [OF g] ok(2)] by blast
  note rw = rewind_weighed [OF g g1]
  have tip1: "tip_block g1 = fork_point"
    using rw(2) ok(1) rewind_best_block(1) [OF graph_weighedD(2) [OF g] g1]
    by (metis block_by_hash_def chb_hash_def option.inject tip_block_def)
  obtain prev g2 w2 w3 where
    lay: "lay_branch src g1 fork_point (rev branch) w1 = (Inr (prev, g2), w2)"
    and b: "to_chain_head_block src p prev w2 = (Inr b, w3)" and e: "graph_extend b g2 = Inr g'"
    using fin g1 by (auto simp: finish_reorg_def bindR_Inr refuse_Inr)
  have l: "graph_weighed L W base g2" "prev = tip_block g2" "hd (best_chain g2) = hd (best_chain g1)" "retains g1 g2"
    using lay_branch_spec [OF lay rw(1)] tip1 ok(3) by auto
  have "chb_parent_hash b = chb_hash prev"
    using e l(2) by (simp add: extend_Inr child_of_def tip_block_def)
  with to_chain_head_block_ok [OF b p] graph_weighedD(5) [OF l(1)] l(2) have "weighed L W base b" by simp
  note ex = extend_weighed [OF l(1) this e]
  show "graph_weighed L W base g'" by (fact ex)
  show "hd (best_chain g') = hd (best_chain g)" using ex(3) l(3) rw(3) by simp
  show "retains g g'"
    using rewind_retains [OF graph_weighedD(2) [OF g] g1] l(4) extend_retains [OF e] retains_trans by blast
qed

section \<open>The loops of a tick\<close>

definition graph_keeps :: "ledger \<Rightarrow> work_ledger \<Rightarrow> int \<Rightarrow> map_backed_snapshot \<Rightarrow> map_backed_snapshot \<Rightarrow> bool" where
  "graph_keeps L W base g g' \<longleftrightarrow>
     (graph_weighed L W base g \<longrightarrow>
        graph_weighed L W base g' \<and> hd (best_chain g') = hd (best_chain g) \<and> retains g g')"

lemma graph_keeps_refl [simp, intro]: "graph_keeps L W base g g"
  by (simp add: graph_keeps_def)

lemma graph_keeps_trans: "graph_keeps L W base g g' \<Longrightarrow> graph_keeps L W base g' g'' \<Longrightarrow> graph_keeps L W base g g''"
  unfolding graph_keeps_def using retains_trans by metis

lemma handle_reorg_keeps:
  assumes "serves_ledger L W src" and "pending_ok L W base p"
    and "handle_reorg src config g p w = Some (Inr (b, g'), w')"
  shows "graph_keeps L W base g g'"
  using handle_reorg_spec [OF assms(1) _ assms(2,3)] by (simp add: graph_keeps_def)

lemma fetched_keeps:
  assumes src: "serves_ledger L W src" and blk: "src_get_block src h w0 = (Inr blk, w1)"
    and c: "block_to_chainblock src (tip_block g) blk w1 = (Inr b, w2)" and e: "graph_extend b g = Inr g'"
  shows "graph_keeps L W base g g'"
  unfolding graph_keeps_def
proof
  assume g: "graph_weighed L W base g"
  have "chb_parent_hash b = chb_hash (tip_block g)" using e by (simp add: extend_Inr child_of_def tip_block_def)
  then have "weighed L W base b"
    using to_chain_head_block_ok [of src "Fetched blk" "tip_block g" w1 b w2 L W base] c
      serves_ledgerD(1) [OF src blk] graph_weighedD(5) [OF g] by simp
  from extend_weighed [OF g this e] extend_retains [OF e]
  show "graph_weighed L W base g' \<and> hd (best_chain g') = hd (best_chain g) \<and> retains g g'" by blast
qed

definition absent_at :: "'w chain_source \<Rightarrow> height \<Rightarrow> bool" where
  "absent_at src h \<longleftrightarrow> (\<exists>w w'. block_at_height src h w = (Inr None, w'))"

definition extend_post ::
  "ledger \<Rightarrow> work_ledger \<Rightarrow> int \<Rightarrow> 'w chain_source \<Rightarrow> height \<Rightarrow> map_backed_snapshot \<Rightarrow> (advance_error + map_backed_snapshot) \<Rightarrow> bool" where
  "extend_post L W base src chain_height g r \<longleftrightarrow> (\<forall>g'. r = Inr g' \<longrightarrow> graph_keeps L W base g g'
     \<and> (chain_height \<le> br_height (best_tip g') \<or> absent_at src (next_height (br_height (best_tip g')))))"

lemma extend_post_step:
  "graph_keeps L W base g g' \<Longrightarrow> extend_post L W base src h g' r \<Longrightarrow> extend_post L W base src h g r"
  unfolding extend_post_def using graph_keeps_trans by blast

lemma extend_to_spec:
  assumes "extend_to src config chain_height g w = Some r" and "serves_ledger L W src"
  shows "extend_post L W base src chain_height g (fst r)"
  using assms
proof (induction rule: extend_to.raw_induct [rotated, consumes 1, case_names extend])
  case (extend ext src config chain_height g w r)
  note body = extend.hyps and IH = extend.IH [OF _ extend.prems]
  show ?case
  proof (cases "height_u32 (br_height (best_tip g)) < height_u32 chain_height")
    case False
    then have "chain_height \<le> br_height (best_tip g)" by (simp add: less_eq_height_def)
    with body False show ?thesis by (auto simp: extend_post_def)
  next
    case up: True
    obtain x w1 where x: "block_at_height src (next_height (br_height (best_tip g))) w = (x, w1)" by force
    show ?thesis
    proof (cases "\<exists>blk. x = Inr (Some blk)")
      case False
      with body up x show ?thesis
        by (cases x; cases "projr x") (auto simp: extend_post_def absent_at_def)
    next
      case True
      then obtain blk where blk: "x = Inr (Some blk)" by blast
      with x have get: "src_get_block src (next_height (br_height (best_tip g))) w = (Inr blk, w1)"
        by (simp add: block_at_height_Some)
      show ?thesis
      proof (cases "bh_prev_hash (blk_header blk) = br_hash (best_tip g)")
        case True
        obtain y w2 where y: "block_to_chainblock src (tip_block g) blk w1 = (y, w2)" by force
        show ?thesis
        proof (cases "\<exists>b g'. y = Inr b \<and> graph_extend b g = Inr g'")
          case False
          with body up x blk True y show ?thesis
            by (cases y; cases "graph_extend (projr y) g") (auto simp: extend_post_def)
        next
          case ex: True
          then obtain b g' where b: "y = Inr b" "graph_extend b g = Inr g'" by blast
          with body up x blk True y have "ext src config chain_height g' w2 = Some r" by simp
          from extend_post_step [OF fetched_keeps [OF extend.prems get _ b(2)] IH [OF this]] y b
          show ?thesis by blast
        qed
      next
        case False
        obtain z where z: "handle_reorg src config g (Fetched blk) w1 = z" by blast
        show ?thesis
        proof (cases "\<exists>b g' w2. z = Some (Inr (b, g'), w2)")
          case True
          then obtain b g' w2 where b: "z = Some (Inr (b, g'), w2)" by blast
          with body up x blk False z have "ext src config chain_height g' w2 = Some r" by simp
          from extend_post_step [OF handle_reorg_keeps [OF extend.prems _ z [unfolded b]] IH [OF this]]
            serves_ledgerD(1) [OF extend.prems get] show ?thesis by simp
        next
          case ex: False
          with body up x blk False z show ?thesis
            by (cases z; cases "fst (the z)") (auto simp: extend_post_def split: prod.splits)
        qed
      qed
    qed
  qed
qed

text \<open>
  Detection steps down from \<open>target\<close> over absent heights to the first one served, and leaves
  that block at the tip; or it reaches genesis and changes nothing.
\<close>

definition detect_post ::
  "ledger \<Rightarrow> work_ledger \<Rightarrow> int \<Rightarrow> 'w chain_source \<Rightarrow> height \<Rightarrow> map_backed_snapshot \<Rightarrow> map_backed_snapshot \<Rightarrow> bool" where
  "detect_post L W base src target g g' \<longleftrightarrow> graph_keeps L W base g g'
     \<and> (\<exists>t. t \<le> target \<and> (\<forall>h. t < h \<and> h \<le> target \<longrightarrow> absent_at src h)
        \<and> (hnat t = 0 \<and> absent_at src t \<and> g' = g
           \<or> (\<exists>blk w w'. src_get_block src t w = (Inr blk, w') \<and> br_hash (best_tip g') = bh_hash (blk_header blk))))"

lemma detect_post_step:
  assumes "absent_at src t" and "hnat t \<noteq> 0" and "detect_post L W base src (height_below t 1) g g'"
  shows "detect_post L W base src t g g'"
proof -
  have below: "h \<le> height_below t 1 \<longleftrightarrow> h < t" for h
    using assms(2) by (auto simp: height_le_iff height_less_iff height_below_def hnat_saturating_sub)
  obtain u where u: "u < t" "\<forall>h. u < h \<and> h < t \<longrightarrow> absent_at src h"
      "hnat u = 0 \<and> absent_at src u \<and> g' = g
       \<or> (\<exists>blk w w'. src_get_block src u w = (Inr blk, w') \<and> br_hash (best_tip g') = bh_hash (blk_header blk))"
    using assms(3) unfolding detect_post_def below by blast
  have "\<forall>h. u < h \<and> h \<le> t \<longrightarrow> absent_at src h"
    using u(2) assms(1) by (metis order_le_less)
  with u show ?thesis using assms(3) unfolding detect_post_def by (meson order_less_imp_le)
qed

lemma detect_reorg_spec:
  assumes "serves_ledger L W src" and "detect_reorg src config tip_height target g w = Some (Inr g', w')"
  shows "detect_post L W base src target g g'"
  using assms
proof (induction src config tip_height target g w rule: detect_reorg.induct)
  case (1 src config tip_height t g w)
  have inb: "\<not> saturating_add (height_u32 t) (chc_max_depth config) < height_u32 tip_height"
    using "1.prems"(2) by (auto simp: detect_reorg.simps)
  obtain x w1 where x: "block_at_height src t w = (x, w1)" by force
  consider (err) e where "x = Inl e" | (none) "x = Inr None" | (some) blk where "x = Inr (Some blk)"
    by (cases x; cases "projr x") auto
  then show ?case
  proof cases
    case err
    with "1.prems"(2) inb x show ?thesis by (subst (asm) detect_reorg.simps) simp
  next
    case none
    have absent: "absent_at src t" using x none by (auto simp: absent_at_def)
    show ?thesis
    proof (cases "height_u32 t = 0")
      case True
      with "1.prems"(2) inb x none have "g' = g" by (subst (asm) detect_reorg.simps) simp
      moreover have "hnat t = 0" using True by (simp add: hnat_def)
      ultimately show ?thesis using absent unfolding detect_post_def by (auto intro!: exI [of _ t])
    next
      case False
      with "1.prems"(2) inb x none have "detect_reorg src config tip_height (height_below t 1) g w1 = Some (Inr g', w')"
        by (subst (asm) detect_reorg.simps) simp
      from "1.IH" [OF inb x [symmetric] none refl False "1.prems"(1) this] False
      show ?thesis using detect_post_step [OF absent] by (simp add: hnat_def unat_eq_0)
    qed
  next
    case some
    with x have get: "src_get_block src t w = (Inr blk, w1)" by (simp add: block_at_height_Some)
    have "graph_keeps L W base g g' \<and> br_hash (best_tip g') = bh_hash (blk_header blk)"
    proof (cases "bh_hash (blk_header blk) = br_hash (best_tip g)")
      case True
      with "1.prems"(2) inb x some show ?thesis by (subst (asm) detect_reorg.simps) simp
    next
      case False
      with "1.prems"(2) inb x some obtain b where h: "handle_reorg src config g (Fetched blk) w1 = Some (Inr (b, g'), w')"
        by (subst (asm) detect_reorg.simps) (auto split: option.splits sum.splits)
      show ?thesis
        using handle_reorg_keeps [OF "1.prems"(1) _ h] handle_reorg_tip [OF h] serves_ledgerD(1) [OF "1.prems"(1) get]
        by (simp add: best_tip_def tip_block_def)
    qed
    with get show ?thesis unfolding detect_post_def by (auto intro!: exI [of _ t])
  qed
qed

lemma to_heaviest_spec:
  assumes src: "serves_ledger L W src" and g: "graph_weighed L W base g"
    and h: "to_heaviest src config g w = Some (Inr g', w')"
  shows "graph_keeps L W base g g'" "best_tip g' = chb_reference (heaviest_block g)"
proof -
  let ?h = "heaviest_block g"
  have "block_by_hash g (chb_hash ?h) = Some ?h"
    using heaviest_block_in mbs_blocks_iff [OF graph_weighedD(2) [OF g]] by blast
  then have ok: "pending_ok L W base (Retained ?h)" using graph_weighedD(4) [OF g] by simp
  have "graph_keeps L W base g g' \<and> best_tip g' = chb_reference ?h"
  proof (cases "chb_work (tip_block g) < chb_work ?h")
    case True
    with h obtain b where r: "handle_reorg src config g (Retained ?h) w = Some (Inr (b, g'), w')"
      by (auto simp: to_heaviest_def Let_def split: option.splits sum.splits)
    from handle_reorg_keeps [OF src ok r] handle_reorg_tip [OF r] show ?thesis
      by (simp add: best_tip_def tip_block_def)
  next
    case False
    with h heaviest_block_strict [of g] show ?thesis
      by (auto simp: to_heaviest_def Let_def best_tip_def tip_block_def)
  qed
  then show "graph_keeps L W base g g'" "best_tip g' = chb_reference ?h" by auto
qed

lemma start_graph_spec:
  assumes src: "serves_ledger L W src" "honours_height src"
    and s: "start_graph src config g chain_height w = (Inr g', w')"
  shows "if br_height (best_tip g) < height_below chain_height (chc_max_depth config)
    then (\<exists>a. graph_weighed L W (W a) g')
      \<and> chb_height (hd (best_chain g')) = height_below chain_height (chc_max_depth config)
    else g' = g"
proof (cases "br_height (best_tip g) < height_below chain_height (chc_max_depth config)")
  case True
  let ?h = "height_below chain_height (chc_max_depth config)"
  from True s obtain blk w1 roots b where get: "src_get_block src ?h w = (Inr blk, w1)"
    and b: "make_chain_head_block blk roots None = Inr b" "g' = from_initial_block b"
    by (auto simp: start_graph_def Let_def resolve_anchor_block_def bindR_Inr block_at_height_Some
        split: if_splits option.splits)
  note mb = make_chain_head_block_Inr [OF b(1)]
  from mb serves_ledgerD(1) [OF src(1) get] have "weighed L W (W (bh_prev_hash (blk_header blk))) b"
    using chb_hash_height [of b blk] by (simp add: weighed_def served_def ledger_block_def)
  moreover have "chb_height b = ?h"
    using chb_hash_height(2) [OF mb(1)] src(2) get unfolding honours_height_def by metis
  ultimately show ?thesis using initial_weighed b(2) True initial_best_chain by (metis list.sel(1))
qed (use s in \<open>simp add: start_graph_def\<close>)

text \<open>
  A successful \<open>next_graph\<close>: the graph \<open>mid\<close> that extension and detection arrive at, its trim,
  and the heaviest block of the trim at the tip.
\<close>

lemma next_graph_Inr:
  assumes src: "serves_ledger L W src" "honours_height src" and g: "graph_weighed L W (W a) g"
    and n: "next_graph src config g chain_height hz w = Some (Inr g', hz', w')"
  obtains start ext mid trimmed a' where
    "if br_height (best_tip g) < height_below chain_height (chc_max_depth config)
     then chb_height (hd (best_chain start)) = height_below chain_height (chc_max_depth config) else start = g"
    "graph_weighed L W (W a') start" "extend_post L W (W a') src chain_height start (Inr ext)"
    "detect_post L W (W a') src (br_height (best_tip ext)) ext mid"
    "trimmed = remove_finalised_blocks (trim_floor config hz mid) mid"
    "graph_keeps L W (W a') start mid" "graph_weighed L W (W a') mid" "graph_keeps L W (W a') trimmed g'"
    "graph_weighed L W (W a') g'" "best_tip g' = chb_reference (heaviest_block trimmed)"
    "hz' = publish_horizon trimmed hz"
proof -
  obtain start w1 where start: "start_graph src config g chain_height w = (Inr start, w1)"
    using n by (auto simp: next_graph_def split: sum.splits prod.splits)
  obtain ext w2 where ext: "extend_to src config chain_height start w1 = Some (Inr ext, w2)"
    using n start by (auto simp: next_graph_def split: option.splits sum.splits prod.splits)
  obtain mid w3 where mid: "check_for_nonhigher_reorgs src config ext w2 = Some (Inr mid, w3)"
    using n start ext by (auto simp: next_graph_def split: option.splits sum.splits)
  let ?t = "remove_finalised_blocks (trim_floor config hz mid) mid"
  have fin: "to_heaviest src config ?t w3 = Some (Inr g', w')" and hz: "hz' = publish_horizon ?t hz"
    using n start ext mid by (auto simp: next_graph_def Let_def split: option.splits)
  obtain a' where base: "graph_weighed L W (W a') start"
    using start_graph_spec [OF src start] g by (metis (full_types))
  have anchor: "if br_height (best_tip g) < height_below chain_height (chc_max_depth config)
     then chb_height (hd (best_chain start)) = height_below chain_height (chc_max_depth config) else start = g"
    using start_graph_spec [OF src start] by metis
  have e: "extend_post L W (W a') src chain_height start (Inr ext)"
    using extend_to_spec [OF ext src(1)] by simp
  have d: "detect_post L W (W a') src (br_height (best_tip ext)) ext mid"
    using detect_reorg_spec [OF src(1)] mid by (simp add: check_for_nonhigher_reorgs_def)
  have k: "graph_keeps L W (W a') start mid"
    using e d graph_keeps_trans by (auto simp: extend_post_def detect_post_def)
  then have m: "graph_weighed L W (W a') mid" using base by (simp add: graph_keeps_def)
  note t = to_heaviest_spec [OF src(1) trim_weighed [OF m] fin]
  show ?thesis
    using that [OF anchor base e d refl k m t(1) _ t(2) hz] t(1) trim_weighed [OF m] by (simp add: graph_keeps_def)
qed

section \<open>A tick returns\<close>

lemma reorg_walk_returns:
  assumes "d < 0xFFFFFFFF" and "unat n \<le> Suc (unat d)"
  shows "\<exists>r. reorg_walk src d g parent_hash n branch w = Some r"
  using assms(2)
proof (induction "Suc (unat d) - unat n" arbitrary: parent_hash n branch w rule: less_induct)
  case less
  show ?case
  proof (cases "n > d")
    case True
    then show ?thesis by (subst reorg_walk.simps) simp
  next
    case False
    then have n: "unat n \<le> unat d" by (simp add: word_less_nat_alt)
    have "unat d < 2 ^ 32 - 1" using assms(1) by (simp add: word_less_nat_alt)
    with n have suc: "unat (saturating_add n 1) = Suc (unat n)" by (simp add: unat_saturating_add)
    have rec: "\<exists>r. reorg_walk src d g ph (saturating_add n 1) br w1 = Some r" for ph br w1
      using less.hyps [of "saturating_add n 1" ph br w1] suc n by simp
    show ?thesis
      using False rec by (subst reorg_walk.simps) (auto simp: Let_def split: option.splits prod.splits sum.splits)
  qed
qed

lemma handle_reorg_returns:
  assumes "chc_max_depth config < 0xFFFFFFFF"
  shows "\<exists>r. handle_reorg src config g p w = Some r"
proof -
  obtain x w1 where "reorg_walk src (chc_max_depth config) g (pending_parent_hash p) 0 [] w = Some (x, w1)"
    using reorg_walk_returns [OF assms, of 0] by fastforce
  then show ?thesis by (cases x) (auto simp: handle_reorg_def)
qed

lemma hnat_next_height:
  assumes "h < h'" and "height_ok h'"
  shows "hnat (next_height h) = Suc (hnat h)"
proof -
  have add: "height_checked_add h 1 = Some (Height (height_u32 h + 1))"
    using assms unfolding height_checked_add_one height_ok_iff height_less_iff hnat_def
    by (simp add: unat_word_ariths)
  then have "hnat (Height (height_u32 h + 1)) = Suc (hnat h)" using height_checked_add_one by blast
  then show ?thesis by (simp add: next_height_def add)
qed

lemma extend_to_returns:
  assumes src: "honours_height src" and d: "chc_max_depth config < 0xFFFFFFFF" and h: "height_ok chain_height"
  shows "\<exists>r. extend_to src config chain_height g w = Some r"
proof (induction "hnat chain_height - hnat (br_height (best_tip g))" arbitrary: g w rule: less_induct)
  case less
  show ?case
  proof (cases "height_u32 (br_height (best_tip g)) < height_u32 chain_height")
    case False
    then show ?thesis by (subst extend_to.simps) simp
  next
    case up: True
    let ?n = "next_height (br_height (best_tip g))"
    have lt: "br_height (best_tip g) < chain_height" using up by (simp add: less_height_def)
    have rec: "\<exists>r. extend_to src config chain_height g' w' = Some r" if "hnat (br_height (best_tip g')) = hnat ?n" for g' w'
      using less [of g' w'] that hnat_next_height [OF lt h] lt by (simp add: height_less_iff)
    obtain x w1 where x: "block_at_height src ?n w = (x, w1)" by force
    consider (err) e where "x = Inl e" | (none) "x = Inr None" | (some) blk where "x = Inr (Some blk)"
      by (cases x; cases "projr x") auto
    then show ?thesis
    proof cases
      case some
      then have at: "bh_height (blk_header blk) = ?n"
        using x src unfolding honours_height_def block_at_height_Some [symmetric] by blast
      show ?thesis
      proof (cases "bh_prev_hash (blk_header blk) = br_hash (best_tip g)")
        case True
        obtain y w2 where y: "block_to_chainblock src (tip_block g) blk w1 = (y, w2)" by force
        show ?thesis
        proof (cases "\<exists>b g'. y = Inr b \<and> graph_extend b g = Inr g'")
          case ex: True
          then obtain b g' where b: "y = Inr b" "graph_extend b g = Inr g'" by blast
          have "chb_height b = ?n"
            using to_chain_head_block_reference [of src "Fetched blk" "tip_block g" w1 b w2] y b(1) at
            by (simp add: chb_height_def)
          with b(2) have "hnat (br_height (best_tip g')) = hnat ?n"
            by (auto simp: extend_Inr best_tip_def chb_height_def)
          from rec [OF this, of w2] up x some True y b show ?thesis by (subst extend_to.simps) simp
        next
          case no: False
          with up x some True y show ?thesis
            by (subst extend_to.simps) (cases y; cases "graph_extend (projr y) g"; auto)
        qed
      next
        case False
        obtain z w2 where z: "handle_reorg src config g (Fetched blk) w1 = Some (z, w2)"
          using handle_reorg_returns [OF d] by fastforce
        show ?thesis
        proof (cases z)
          case (Inl e)
          with up x some False z show ?thesis by (subst extend_to.simps) simp
        next
          case (Inr bg)
          then obtain b g' where b: "z = Inr (b, g')" by (cases bg) auto
          have "br_height (best_tip g') = ?n"
            using handle_reorg_tip [OF z [unfolded b]] at by (simp add: best_tip_def tip_block_def)
          from rec [of g' w2] this up x some False z b show ?thesis by (subst extend_to.simps) simp
        qed
      qed
    qed (use up x in \<open>subst extend_to.simps, simp\<close>)+
  qed
qed

lemma detect_reorg_returns:
  assumes "chc_max_depth config < 0xFFFFFFFF"
  shows "\<exists>r. detect_reorg src config tip_height target g w = Some r"
  using assms
proof (induction src config tip_height target g w rule: detect_reorg.induct)
  case (1 src config tip_height t g w)
  obtain x w1 where x: "block_at_height src t w = (x, w1)" by force
  consider (err) e where "x = Inl e" | (none) "x = Inr None" | (some) blk where "x = Inr (Some blk)"
    by (cases x; cases "projr x") auto
  then show ?case
  proof cases
    case none
    with "1.IH" [OF _ x [symmetric] none refl _ "1.prems"] x show ?thesis
      by (subst detect_reorg.simps) auto
  next
    case some
    obtain z w2 where "handle_reorg src config g (Fetched blk) w1 = Some (z, w2)"
      using handle_reorg_returns [OF "1.prems"] by fastforce
    with x some show ?thesis by (subst detect_reorg.simps) (cases z; auto)
  qed (use x in \<open>subst detect_reorg.simps, simp\<close>)
qed

lemma to_heaviest_returns:
  assumes "chc_max_depth config < 0xFFFFFFFF"
  shows "\<exists>r. to_heaviest src config g w = Some r"
proof -
  obtain u w1 where "handle_reorg src config g (Retained (heaviest_block g)) w = Some (u, w1)"
    using handle_reorg_returns [OF assms] by fastforce
  then show ?thesis unfolding to_heaviest_def by (cases u) (auto simp: Let_def)
qed

lemma next_graph_returns:
  assumes src: "honours_height src" and d: "chc_max_depth config < 0xFFFFFFFF" and h: "height_ok chain_height"
  shows "\<exists>r. next_graph src config g chain_height hz w = Some r"
proof -
  obtain x w1 where x: "start_graph src config g chain_height w = (x, w1)" by force
  obtain y w2 where y: "extend_to src config chain_height (projr x) w1 = Some (y, w2)"
    using extend_to_returns [OF src d h] by fastforce
  obtain z w3 where z: "check_for_nonhigher_reorgs src config (projr y) w2 = Some (z, w3)"
    unfolding check_for_nonhigher_reorgs_def using detect_reorg_returns [OF d] by fastforce
  let ?t = "remove_finalised_blocks (trim_floor config hz (projr z)) (projr z)"
  obtain v w5 where "to_heaviest src config ?t w3 = Some (v, w5)"
    using to_heaviest_returns [OF d] by fastforce
  with x y z show ?thesis unfolding next_graph_def by (cases x; cases y; cases z) (simp_all add: Let_def)
qed

end
