(* ===== verification/Zaino_Chain_Head_Converges.thy ===== *)
theory Zaino_Chain_Head_Converges
  imports Zaino_Chain_Head_Writer
begin

text \<open>
  A validator that stands still: it serves one chain \<open>C\<close>, from genesis to its tip, by height and
  by hash. Against such a validator the writer's reorg walk finds the fork point, the branch
  is laid back down, and one tick brings the head to the validator's tip.
\<close>

abbreviation blk_hash :: "block \<Rightarrow> block_hash" where "blk_hash blk \<equiv> bh_hash (blk_header blk)"
abbreviation blk_prev :: "block \<Rightarrow> block_hash" where "blk_prev blk \<equiv> bh_prev_hash (blk_header blk)"
abbreviation blk_ref :: "block \<Rightarrow> block_ref" where "blk_ref blk \<equiv> pending_reference (Fetched blk)"

definition serves_chain :: "'w chain_source \<Rightarrow> block list \<Rightarrow> bool" where
  "serves_chain src C \<longleftrightarrow> C \<noteq> []
     \<and> (\<forall>i < length C. hnat (bh_height (blk_header (C ! i))) = i \<and> height_ok (bh_height (blk_header (C ! i))))
     \<and> (\<forall>i. Suc i < length C \<longrightarrow> blk_prev (C ! Suc i) = blk_hash (C ! i))
     \<and> (\<forall>w. \<exists>w'. src_get_chain_tip src w = (Inr (blk_hash (last C), bh_height (blk_header (last C))), w'))
     \<and> (\<forall>h w. \<exists>w'. src_get_block src h w =
          (if hnat h < length C then Inr (C ! hnat h) else Inl (Domain (HeightNotFound h)), w'))
     \<and> (\<forall>i < length C. \<forall>w. \<exists>w'. src_get_block_by_hash src (blk_hash (C ! i)) w = (Inr (C ! i), w'))
     \<and> (\<forall>i < length C. \<forall>w. \<exists>roots w'. src_get_commitment_tree_roots src (blk_hash (C ! i)) w = (Inr roots, w'))"

text \<open>The cumulative work of the ledger fits the accumulator.\<close>

definition work_fits :: "work_ledger \<Rightarrow> block list \<Rightarrow> bool" where
  "work_fits W C \<longleftrightarrow> (\<forall>k. 0 \<le> W k) \<and> (\<forall>blk \<in> set C. W (blk_hash blk) < 2 ^ 128)"

lemma serves_chainD:
  assumes "serves_chain src C" and "i < length C"
  shows "hnat (bh_height (blk_header (C ! i))) = i" "height_ok (bh_height (blk_header (C ! i)))"
    "Suc j < length C \<Longrightarrow> blk_prev (C ! Suc j) = blk_hash (C ! j)"
    "\<exists>w'. src_get_block_by_hash src (blk_hash (C ! i)) w = (Inr (C ! i), w')"
    "\<exists>roots w'. src_get_commitment_tree_roots src (blk_hash (C ! i)) w = (Inr roots, w')"
  using assms by (simp_all add: serves_chain_def)

lemma serves_chain_at:
  assumes "serves_chain src C"
  shows "hnat h < length C \<Longrightarrow> \<exists>w'. block_at_height src h w = (Inr (Some (C ! hnat h)), w')"
    and "\<not> hnat h < length C \<Longrightarrow> \<exists>w'. block_at_height src h w = (Inr None, w')"
proof -
  obtain w' where "src_get_block src h w =
      (if hnat h < length C then Inr (C ! hnat h) else Inl (Domain (HeightNotFound h)), w')"
    using assms unfolding serves_chain_def by blast
  then show "hnat h < length C \<Longrightarrow> \<exists>w'. block_at_height src h w = (Inr (Some (C ! hnat h)), w')"
    and "\<not> hnat h < length C \<Longrightarrow> \<exists>w'. block_at_height src h w = (Inr None, w')"
    by (auto simp: block_at_height_Some block_at_height_None)
qed

lemma serves_chain_served:
  assumes "serves_chain src C" and "serves_ledger L W src" and "i < length C"
  shows "served L W (C ! i)"
proof -
  obtain w' where "src_get_block_by_hash src (blk_hash (C ! i)) undefined = (Inr (C ! i), w')"
    using serves_chainD(4) [OF assms(1,3)] by blast
  from serves_ledgerD(2) [OF assms(2) this] show ?thesis .
qed

text \<open>A pending block stands for \<open>C ! i\<close>.\<close>

definition stands_for :: "ledger \<Rightarrow> work_ledger \<Rightarrow> int \<Rightarrow> block \<Rightarrow> branch_block \<Rightarrow> bool" where
  "stands_for L W base blk p \<longleftrightarrow>
     pending_ok L W base p \<and> pending_reference p = blk_ref blk \<and> pending_parent_hash p = blk_prev blk"

lemma fetched_stands_for:
  assumes "serves_chain src C" and "serves_ledger L W src" and "i < length C"
  shows "stands_for L W base (C ! i) (Fetched (C ! i))"
  using serves_chain_served [OF assms] by (simp add: stands_for_def)

lemma weighed_stands_for:
  assumes "weighed L W base b" and "served L W blk" and "chb_hash b = blk_hash blk"
  shows "stands_for L W base blk (Retained b)"
proof -
  have "hnat (chb_height b) = hnat (bh_height (blk_header blk))" "chb_parent_hash b = blk_prev blk"
    using assms by (auto simp: weighed_def ledger_block_def served_def)
  then have "chb_height b = bh_height (blk_header blk)" by simp
  with assms(1,3) \<open>chb_parent_hash b = blk_prev blk\<close> show ?thesis
    by (simp add: stands_for_def chb_height_def chb_hash_def)
qed

lemma served_weight:
  assumes "served L W blk"
  shows "W (blk_hash blk) = W (blk_prev blk) + int (header_work (blk_header blk))"
  using assms by (simp add: served_def)

lemma to_chain_head_block_succeeds:
  assumes src: "serves_chain src C" "serves_ledger L W src" and fits: "work_fits W C" and i: "i < length C"
    and p: "stands_for L W (W a) (C ! i) p" and prev: "weighed L W (W a) prev" "chb_hash prev = blk_prev (C ! i)"
  shows "\<exists>b w'. to_chain_head_block src p prev w = (Inr b, w') \<and> chb_parent_hash b = blk_prev (C ! i)"
proof (cases p)
  case (Retained b)
  with p show ?thesis by (simp add: stands_for_def)
next
  case (Fetched blk)
  with p have blk: "served L W blk" "blk_hash blk = blk_hash (C ! i)" "blk_prev blk = blk_prev (C ! i)"
    by (simp_all add: stands_for_def)
  obtain roots w' where roots: "src_get_commitment_tree_roots src (blk_hash blk) w = (Inr roots, w')"
    using serves_chainD(5) [OF src(1) i] blk(2) by metis
  have "W (blk_hash (C ! i)) < 2 ^ 128" "0 \<le> W a" using fits i by (auto simp: work_fits_def)
  then have "int (unat (chw_raw (chb_work prev)) + header_work (blk_header blk)) < 2 ^ 128"
    using served_weight [OF blk(1)] prev blk(2,3) by (simp add: weighed_def)
  then have lt: "unat (chw_raw (chb_work prev)) + header_work (blk_header blk) < 2 ^ 128"
    by (metis of_nat_less_iff of_nat_numeral of_nat_power)
  have "chw_checked_add (chb_work prev) (sbw_raw (cd_work (bh_bits (blk_header blk)))) \<noteq> None"
    using lt by (simp add: chw_checked_add_def checked_add_eq_None header_work_def)
  then obtain b where "make_chain_head_block blk roots (Some (chb_work prev)) = Inr b"
    by (auto simp: make_chain_head_block_def Let_def)
  with make_chain_head_block_Inr(2) [OF this] Fetched roots blk(3) show ?thesis
    by (auto simp: block_to_chainblock_def bindR_def tree_roots_at_def)
qed

lemma lay_one:
  assumes src: "serves_chain src C" "serves_ledger L W src" and fits: "work_fits W C" and i: "Suc i < length C"
    and p: "stands_for L W (W a) (C ! Suc i) p" and g: "graph_weighed L W (W a) g" and tip: "best_tip g = blk_ref (C ! i)"
  shows "\<exists>b g' w'. to_chain_head_block src p (tip_block g) w = (Inr b, w') \<and> graph_extend b g = Inr g'
    \<and> graph_weighed L W (W a) g' \<and> best_tip g' = blk_ref (C ! Suc i) \<and> tip_block g' = b"
proof -
  have ref: "chb_reference (tip_block g) = blk_ref (C ! i)" using tip by (simp add: best_tip_def tip_block_def)
  have link: "blk_prev (C ! Suc i) = blk_hash (C ! i)" by (rule serves_chainD(3) [OF src(1) i i])
  then have hash: "chb_hash (tip_block g) = blk_prev (C ! Suc i)" using chb_hash_height(1) [OF ref] by simp
  obtain b w' where b: "to_chain_head_block src p (tip_block g) w = (Inr b, w')" "chb_parent_hash b = blk_prev (C ! Suc i)"
    using to_chain_head_block_succeeds [OF src fits i p graph_weighedD(5) [OF g] hash] by blast
  have bref: "chb_reference b = blk_ref (C ! Suc i)"
    using to_chain_head_block_reference [OF b(1)] p by (simp add: stands_for_def)
  have "child_of (tip_block g) b"
    using b(2) hash chb_hash_height(2) [OF ref] chb_hash_height(2) [OF bref] serves_chainD(1,2) [OF src(1) i]
      serves_chainD(1) [OF src(1), of i] i
    by (simp add: child_of_def height_checked_add_one)
  then obtain g' where e: "graph_extend b g = Inr g'" by (simp add: extend_Inr tip_block_def)
  have "weighed L W (W a) b"
    using to_chain_head_block_ok [OF b(1) _ graph_weighedD(5) [OF g]] p b(2) hash by (simp add: stands_for_def)
  from extend_weighed [OF g this e] b(1) e bref show ?thesis by (auto simp: best_tip_def tip_block_def)
qed

section \<open>The reorg reaches the served chain\<close>

lemma lay_branch_succeeds:
  assumes src: "serves_chain src C" "serves_ledger L W src" and fits: "work_fits W C"
    and "i + length ps < length C" and "\<forall>m < length ps. stands_for L W (W a) (C ! (Suc i + m)) (ps ! m)"
    and "graph_weighed L W (W a) g" and "best_tip g = blk_ref (C ! i)"
  shows "\<exists>g' w'. lay_branch src g (tip_block g) ps w = (Inr (tip_block g', g'), w')
    \<and> graph_weighed L W (W a) g' \<and> best_tip g' = blk_ref (C ! (i + length ps))"
  using assms(4-)
proof (induction ps arbitrary: i g w)
  case (Cons p ps)
  have p: "stands_for L W (W a) (C ! Suc i) p" using Cons.prems(2) by force
  have i: "Suc i < length C" using Cons.prems(1) by simp
  obtain b g1 w1 where b: "to_chain_head_block src p (tip_block g) w = (Inr b, w1)" "graph_extend b g = Inr g1"
    and g1: "graph_weighed L W (W a) g1" "best_tip g1 = blk_ref (C ! Suc i)" "tip_block g1 = b"
    using lay_one [OF src fits i p Cons.prems(3,4)] by blast
  have rest: "\<forall>m < length ps. stands_for L W (W a) (C ! (Suc (Suc i) + m)) (ps ! m)"
    using Cons.prems(2) by force
  obtain g' w' where "lay_branch src g1 (tip_block g1) ps w1 = (Inr (tip_block g', g'), w')"
      "graph_weighed L W (W a) g'" "best_tip g' = blk_ref (C ! (Suc i + length ps))"
    using Cons.IH [OF _ rest g1(1,2)] Cons.prems(1) by fastforce
  with b g1(3) show ?case by (auto simp: bindR_def)
qed simp

definition forks_at :: "map_backed_snapshot \<Rightarrow> block_hash \<Rightarrow> chain_head_block \<Rightarrow> bool" where
  "forks_at g k b \<longleftrightarrow> block_by_hash g k = Some b \<and> is_on_best_chain g (chb_reference b)"

lemma reorg_walk_found:
  "forks_at g k b \<Longrightarrow> n \<le> d \<Longrightarrow> reorg_walk src d g k n branch w = Some (Inr (b, branch), w)"
  by (subst reorg_walk.simps) (auto simp: forks_at_def Let_def)

lemma reorg_walk_miss:
  assumes src: "serves_chain src C" "serves_ledger L W src" and g: "graph_weighed L W base g"
    and j: "j < length C" and n: "n \<le> d" and miss: "\<nexists>b. forks_at g (blk_hash (C ! j)) b"
  shows "\<exists>p w1. stands_for L W base (C ! j) p
    \<and> reorg_walk src d g (blk_hash (C ! j)) n branch w
      = reorg_walk src d g (blk_prev (C ! j)) (saturating_add n 1) (branch @ [p]) w1"
proof (cases "block_by_hash g (blk_hash (C ! j))")
  case None
  obtain w1 where "block_at_hash src (blk_hash (C ! j)) w = (Inr (Some (C ! j)), w1)"
    using serves_chainD(4) [OF src(1) j, of w] by (auto simp: block_at_hash_Some)
  with None n fetched_stands_for [OF src j, of base] show ?thesis
    by (subst reorg_walk.simps) (auto simp: Let_def)
next
  case (Some b)
  have "stands_for L W base (C ! j) (Retained b)"
    by (rule weighed_stands_for [OF graph_weighedD(4) [OF g Some] serves_chain_served [OF src j]])
      (rule block_by_hash_hash [OF graph_weighedD(2) [OF g] Some])
  moreover from this have "chb_parent_hash b = blk_prev (C ! j)" by (simp add: stands_for_def)
  moreover have "\<not> is_on_best_chain g (chb_reference b)" using miss Some by (auto simp: forks_at_def)
  ultimately show ?thesis using n Some by (subst reorg_walk.simps) (auto simp: Let_def)
qed

lemma best_chain_forks:
  assumes g: "graph_weighed L W base g" and f: "is_on_best_chain g (blk_ref blk)"
  shows "\<exists>b. forks_at g (blk_hash blk) b"
proof -
  obtain b where b: "best_block_by_height g (br_height (blk_ref blk)) = Some b" "chb_reference b = blk_ref blk"
    using best_block_reference [OF graph_weighedD(2) [OF g] f] by blast
  then have "block_by_hash g (chb_hash b) = Some b" using best_block_iff [OF graph_weighedD(2) [OF g]] by blast
  with b(2) f chb_hash_height(1) [OF b(2)] show ?thesis by (auto simp: forks_at_def)
qed

lemma fork_reference:
  assumes src: "serves_chain src C" "serves_ledger L W src" and g: "graph_weighed L W base g"
    and j: "j < length C" and b: "forks_at g (blk_hash (C ! j)) b"
  shows "chb_reference b = blk_ref (C ! j)" "forks_at g (chb_hash b) b"
proof -
  have get: "block_by_hash g (blk_hash (C ! j)) = Some b" using b by (simp add: forks_at_def)
  note hash = block_by_hash_hash [OF graph_weighedD(2) [OF g] get]
  show "chb_reference b = blk_ref (C ! j)"
    using weighed_stands_for [OF graph_weighedD(4) [OF g get] serves_chain_served [OF src j] hash]
    by (simp add: stands_for_def)
  show "forks_at g (chb_hash b) b" using b hash by simp
qed

lemma reorg_walk_succeeds:
  assumes src: "serves_chain src C" "serves_ledger L W src" and g: "graph_weighed L W base g"
    and f: "is_on_best_chain g (blk_ref (C ! f))"
    and "f \<le> j" and "j < length C" and "unat n + (j - f) \<le> unat d" and d: "d < 0xFFFFFFFF"
  shows "\<exists>f' fork_point ps w'. reorg_walk src d g (blk_hash (C ! j)) n branch w = Some (Inr (fork_point, branch @ ps), w')
    \<and> f' \<le> j \<and> chb_reference fork_point = blk_ref (C ! f') \<and> forks_at g (chb_hash fork_point) fork_point
    \<and> length ps = j - f' \<and> (\<forall>m < length ps. stands_for L W base (C ! (j - m)) (ps ! m))"
  using assms(5-7)
proof (induction j arbitrary: n branch w)
  case (0 n branch w)
  then obtain b where b: "forks_at g (blk_hash (C ! 0)) b" using best_chain_forks [OF g f] by auto
  from fork_reference [OF src g _ b] 0 reorg_walk_found [OF b, of n d src branch w]
  show ?case by (auto simp: word_le_nat_alt forks_at_def intro!: exI [of _ 0] exI [of _ b] exI [of _ "[]"])
next
  case (Suc j n branch w)
  have n: "n \<le> d" using Suc.prems by (simp add: word_le_nat_alt)
  show ?case
  proof (cases "\<exists>b. forks_at g (blk_hash (C ! Suc j)) b")
    case True
    then obtain b where b: "forks_at g (blk_hash (C ! Suc j)) b" by blast
    from fork_reference [OF src g Suc.prems(2) b] reorg_walk_found [OF b n, of src branch w]
    show ?thesis by (auto intro!: exI [of _ "Suc j"] exI [of _ b] exI [of _ "[]"])
  next
    case False
    with Suc.prems(1) best_chain_forks [OF g f] have fj: "f \<le> j" by (cases "f = Suc j") auto
    obtain p w1 where p: "stands_for L W base (C ! Suc j) p"
      and step: "reorg_walk src d g (blk_hash (C ! Suc j)) n branch w
        = reorg_walk src d g (blk_hash (C ! j)) (saturating_add n 1) (branch @ [p]) w1"
      using reorg_walk_miss [OF src g Suc.prems(2) n False] serves_chainD(3) [OF src(1) Suc.prems(2,2)] by metis
    have "unat (saturating_add n 1) = Suc (unat n)"
      using n d by (simp add: unat_saturating_add word_le_nat_alt word_less_nat_alt)
    with Suc.prems(3) fj have "unat (saturating_add n 1) + (j - f) \<le> unat d" by simp
    from Suc.IH [OF fj _ this, of "branch @ [p]" w1] Suc.prems(2) obtain f' b ps w' where
      r: "reorg_walk src d g (blk_hash (C ! j)) (saturating_add n 1) (branch @ [p]) w1 = Some (Inr (b, branch @ p # ps), w')"
      and f': "f' \<le> j" "chb_reference b = blk_ref (C ! f')" "forks_at g (chb_hash b) b"
      "length ps = j - f'" "\<forall>m < length ps. stands_for L W base (C ! (j - m)) (ps ! m)" by auto
    have "\<forall>m < length (p # ps). stands_for L W base (C ! (Suc j - m)) ((p # ps) ! m)"
      using p f'(5) by (auto simp: nth_Cons split: nat.splits)
    with r step f' show ?thesis
      by (intro exI [of _ f'] exI [of _ b] exI [of _ "p # ps"] exI [of _ w']) auto
  qed
qed

lemma handle_reorg_succeeds:
  assumes src: "serves_chain src C" "serves_ledger L W src" and fits: "work_fits W C" and g: "graph_weighed L W (W a) g"
    and f: "is_on_best_chain g (blk_ref (C ! f))" "f \<le> j" "j - f \<le> unat (chc_max_depth config)"
    and j: "Suc j < length C" and d: "chc_max_depth config < 0xFFFFFFFF"
  shows "\<exists>b g' w'. handle_reorg src config g (Fetched (C ! Suc j)) w = Some (Inr (b, g'), w')
    \<and> best_tip g' = blk_ref (C ! Suc j) \<and> graph_weighed L W (W a) g'"
proof -
  have link: "pending_parent_hash (Fetched (C ! Suc j)) = blk_hash (C ! j)"
    using serves_chainD(3) [OF src(1) j j] by simp
  obtain f' fork_point ps w1 where
    walk: "reorg_walk src (chc_max_depth config) g (blk_hash (C ! j)) 0 [] w = Some (Inr (fork_point, ps), w1)"
    and f': "f' \<le> j" "chb_reference fork_point = blk_ref (C ! f')" "forks_at g (chb_hash fork_point) fork_point"
    and ps: "length ps = j - f'" "\<forall>m < length ps. stands_for L W (W a) (C ! (j - m)) (ps ! m)"
    using reorg_walk_succeeds [OF src g f(1,2) _ _ d, of 0 "[]" w] f(3) j by auto
  obtain g1 where g1: "rewind_to (chb_reference fork_point) g = Inr g1"
    using rewind_accepts [OF graph_weighedD(2) [OF g]] f'(3) by (auto simp: forks_at_def)
  note rw = rewind_weighed [OF g g1]
  have "block_by_hash g1 (chb_hash fork_point) = Some fork_point"
    using rewind_best_block(1) [OF graph_weighedD(2) [OF g] g1] f'(3) by (simp add: forks_at_def)
  then have tip: "tip_block g1 = fork_point"
    using rw(2) by (metis block_by_hash_def chb_hash_def option.inject tip_block_def)
  have rev: "\<forall>m < length (rev ps). stands_for L W (W a) (C ! (Suc f' + m)) (rev ps ! m)"
  proof (intro allI impI)
    fix m
    assume m: "m < length (rev ps)"
    have "j - (length ps - Suc m) = Suc f' + m" using m ps(1) by simp
    then show "stands_for L W (W a) (C ! (Suc f' + m)) (rev ps ! m)"
      using ps(2) [rule_format, of "length ps - Suc m"] m by (simp add: rev_nth)
  qed
  obtain g2 w2 where lay: "lay_branch src g1 fork_point (rev ps) w1 = (Inr (tip_block g2, g2), w2)"
    "graph_weighed L W (W a) g2" "best_tip g2 = blk_ref (C ! j)"
    using lay_branch_succeeds [OF src fits _ rev rw(1), of w1] rw(2) f' ps(1) j tip
    by (auto simp: best_tip_def tip_block_def)
  from lay_one [OF src fits j fetched_stands_for [OF src j] lay(2,3), of w2] obtain b g3 w3 where
    "to_chain_head_block src (Fetched (C ! Suc j)) (tip_block g2) w2 = (Inr b, w3)" "graph_extend b g2 = Inr g3"
    "graph_weighed L W (W a) g3" "best_tip g3 = blk_ref (C ! Suc j)" by blast
  then show ?thesis
    using walk link g1 lay(1) by (auto simp: handle_reorg_def finish_reorg_def bindR_def)
qed

section \<open>A tick reaches the tip\<close>

abbreviation chain_top :: "block list \<Rightarrow> height" where "chain_top C \<equiv> bh_height (blk_header (last C))"

lemma chain_top:
  assumes "serves_chain src C"
  shows "hnat (chain_top C) = length C - 1" "height_ok (chain_top C)" "last C = C ! (length C - 1)" "0 < length C"
proof -
  show "0 < length C" using assms by (simp add: serves_chain_def)
  then show l: "last C = C ! (length C - 1)" by (simp add: last_conv_nth)
  show "hnat (chain_top C) = length C - 1" "height_ok (chain_top C)"
    using serves_chainD(1,2) [OF assms, of "length C - 1"] \<open>0 < length C\<close> by (simp_all add: l)
qed

lemma next_block_at:
  assumes src: "serves_chain src C" and t: "hnat (br_height (best_tip g)) < length C - 1"
  shows "height_u32 (br_height (best_tip g)) < height_u32 (chain_top C)"
    and "\<exists>w'. block_at_height src (next_height (br_height (best_tip g))) w
      = (Inr (Some (C ! Suc (hnat (br_height (best_tip g))))), w')"
proof -
  have lt: "br_height (best_tip g) < chain_top C" using t chain_top [OF src] by (simp add: height_less_iff)
  then show "height_u32 (br_height (best_tip g)) < height_u32 (chain_top C)" by (simp add: less_height_def)
  show "\<exists>w'. block_at_height src (next_height (br_height (best_tip g))) w
      = (Inr (Some (C ! Suc (hnat (br_height (best_tip g))))), w')"
    using serves_chain_at(1) [OF src, of "next_height (br_height (best_tip g))" w]
      hnat_next_height [OF lt chain_top(2) [OF src]] t by simp
qed

lemma extend_to_linear:
  assumes src: "serves_chain src C" "serves_ledger L W src" and fits: "work_fits W C"
    and "i < length C" and "graph_weighed L W (W a) g" and "best_tip g = blk_ref (C ! i)"
  shows "\<exists>g' w'. extend_to src config (chain_top C) g w = Some (Inr g', w')
    \<and> graph_weighed L W (W a) g' \<and> best_tip g' = blk_ref (last C)"
  using assms(4-)
proof (induction "length C - i" arbitrary: i g w rule: less_induct)
  case less
  have t: "hnat (br_height (best_tip g)) = i" using less.prems serves_chainD(1) [OF src(1)] by simp
  show ?case
  proof (cases "Suc i < length C")
    case False
    then have "i = length C - 1" using less.prems(1) by simp
    moreover from this have "last C = C ! i" using chain_top(3) [OF src(1)] by simp
    ultimately show ?thesis using less.prems by (subst extend_to.simps) simp
  next
    case True
    then have up: "height_u32 (br_height (best_tip g)) < height_u32 (chain_top C)"
      and at: "\<exists>w1. block_at_height src (next_height (br_height (best_tip g))) w = (Inr (Some (C ! Suc i)), w1)"
      using next_block_at(1) [OF src(1), of g] next_block_at(2) [OF src(1), of g w] t by auto
    then obtain w1 where at: "block_at_height src (next_height (br_height (best_tip g))) w = (Inr (Some (C ! Suc i)), w1)"
      by blast
    have link: "blk_prev (C ! Suc i) = br_hash (best_tip g)"
      using serves_chainD(3) [OF src(1) True True] less.prems(3) by simp
    obtain b g1 w2 where b: "block_to_chainblock src (tip_block g) (C ! Suc i) w1 = (Inr b, w2)"
      "graph_extend b g = Inr g1" and g1: "graph_weighed L W (W a) g1" "best_tip g1 = blk_ref (C ! Suc i)"
      using lay_one [OF src fits True fetched_stands_for [OF src True] less.prems(2,3), of w1] by auto
    from less.hyps [OF _ True g1] True obtain g' w' where
      "extend_to src config (chain_top C) g1 w2 = Some (Inr g', w')" "graph_weighed L W (W a) g'"
      "best_tip g' = blk_ref (last C)" by (metis Suc_diff_Suc Suc_lessD lessI)
    with up at link b show ?thesis by (subst extend_to.simps) simp
  qed
qed

text \<open>
  How far the writer's graph is from the served chain: they meet at \<open>C ! f\<close>, below the served tip and
  no deeper under the writer's tip than the configured depth.
\<close>

definition meets_at :: "map_backed_snapshot \<Rightarrow> block list \<Rightarrow> u32 \<Rightarrow> nat \<Rightarrow> bool" where
  "meets_at g C d f \<longleftrightarrow> Suc f < length C \<and> is_on_best_chain g (blk_ref (C ! f))
     \<and> f \<le> hnat (br_height (best_tip g)) \<and> hnat (br_height (best_tip g)) - f \<le> unat d"

lemma tip_on_chain:
  assumes src: "serves_chain src C" "serves_ledger L W src" and g: "graph_weighed L W base g"
    and i: "i < length C" and h: "br_hash (best_tip g) = blk_hash (C ! i)"
  shows "best_tip g = blk_ref (C ! i)"
proof -
  have "chb_hash (tip_block g) = blk_hash (C ! i)" using h by (simp add: best_tip_def tip_block_def chb_hash_def)
  from weighed_stands_for [OF graph_weighedD(5) [OF g] serves_chain_served [OF src i] this]
  show ?thesis by (simp add: stands_for_def best_tip_def tip_block_def)
qed

lemma extend_to_succeeds:
  assumes src: "serves_chain src C" "serves_ledger L W src" and fits: "work_fits W C"
    and g: "graph_weighed L W (W a) g" and m: "meets_at g C (chc_max_depth config) f"
    and t: "hnat (br_height (best_tip g)) < length C - 1" and d: "chc_max_depth config < 0xFFFFFFFF"
  shows "\<exists>g' w'. extend_to src config (chain_top C) g w = Some (Inr g', w')
    \<and> graph_weighed L W (W a) g' \<and> best_tip g' = blk_ref (last C)"
proof -
  let ?t = "hnat (br_height (best_tip g))"
  have st: "Suc ?t < length C" "?t < length C" using t by auto
  show ?thesis
  proof (cases "blk_prev (C ! Suc ?t) = br_hash (best_tip g)")
    case True
    then have "br_hash (best_tip g) = blk_hash (C ! ?t)" using serves_chainD(3) [OF src(1) st(1,1)] by simp
    from extend_to_linear [OF src fits st(2) g tip_on_chain [OF src g st(2) this]] show ?thesis .
  next
    case False
    obtain w1 where at: "block_at_height src (next_height (br_height (best_tip g))) w = (Inr (Some (C ! Suc ?t)), w1)"
      using next_block_at(2) [OF src(1) t] by blast
    obtain b g1 w2 where "handle_reorg src config g (Fetched (C ! Suc ?t)) w1 = Some (Inr (b, g1), w2)"
      and g1: "best_tip g1 = blk_ref (C ! Suc ?t)" "graph_weighed L W (W a) g1"
      using handle_reorg_succeeds [OF src fits g _ _ _ st(1) d] m unfolding meets_at_def by blast
    moreover obtain g' w' where "extend_to src config (chain_top C) g1 w2 = Some (Inr g', w')"
      "graph_weighed L W (W a) g'" "best_tip g' = blk_ref (last C)"
      using extend_to_linear [OF src fits st(1) g1(2,1)] by blast
    ultimately show ?thesis using next_block_at(1) [OF src(1) t] at False by (subst extend_to.simps) simp
  qed
qed

lemma detect_reorg_succeeds:
  assumes src: "serves_chain src C" "serves_ledger L W src" and fits: "work_fits W C"
    and g: "graph_weighed L W (W a) g" and m: "best_tip g = blk_ref (last C) \<or> meets_at g C (chc_max_depth config) f"
    and "length C - 1 \<le> hnat target" and "hnat target \<le> hnat (br_height (best_tip g))"
    and d: "chc_max_depth config < 0xFFFFFFFF"
  shows "\<exists>g' w'. detect_reorg src config (br_height (best_tip g)) target g w = Some (Inr g', w')
    \<and> graph_weighed L W (W a) g' \<and> best_tip g' = blk_ref (last C)"
  using assms(6,7)
proof (induction "hnat target" arbitrary: target w rule: less_induct)
  case less
  note top = chain_top [OF src(1)]
  have "hnat (br_height (best_tip g)) \<le> hnat target + unat (chc_max_depth config)"
    using m less.prems top(1) by (auto simp: meets_at_def)
  then have "min (hnat target + unat (chc_max_depth config)) (2 ^ 32 - 1) \<ge> hnat (br_height (best_tip g))"
    using unat_less_exp [of "height_u32 (br_height (best_tip g))"] by (simp add: hnat_def)
  then have inb: "\<not> saturating_add (height_u32 target) (chc_max_depth config) < height_u32 (br_height (best_tip g))"
    by (simp add: word_less_nat_alt unat_saturating_add hnat_def not_less)
  show ?case
  proof (cases "hnat target < length C")
    case False
    then obtain w1 where at: "block_at_height src target w = (Inr None, w1)" using serves_chain_at(2) [OF src(1)] by blast
    have nz: "hnat target \<noteq> 0" using False top(4) by linarith
    then have below: "hnat (height_below target 1) = hnat target - 1" by (simp add: height_below_def hnat_saturating_sub)
    have "hnat (height_below target 1) < hnat target" "length C - 1 \<le> hnat (height_below target 1)"
      "hnat (height_below target 1) \<le> hnat (br_height (best_tip g))" using below nz False less.prems by auto
    from less.hyps [OF this] obtain g' w' where
      "detect_reorg src config (br_height (best_tip g)) (height_below target 1) g w1 = Some (Inr g', w')"
      "graph_weighed L W (W a) g'" "best_tip g' = blk_ref (last C)" by blast
    moreover have "height_u32 target \<noteq> 0" using nz by (auto simp: hnat_def)
    ultimately show ?thesis using inb at by (subst detect_reorg.simps) simp
  next
    case True
    with less.prems have n: "hnat target = length C - 1" by simp
    then obtain w1 where at: "block_at_height src target w = (Inr (Some (last C)), w1)"
      using serves_chain_at(1) [OF src(1) True] top(3) by metis
    show ?thesis
    proof (cases "blk_hash (last C) = br_hash (best_tip g)")
      case True
      then have "best_tip g = blk_ref (last C)"
        using tip_on_chain [OF src g, of "length C - 1"] top(3,4) by simp
      moreover have "detect_reorg src config (br_height (best_tip g)) target g w = Some (Inr g, w1)"
        using inb at True by (subst detect_reorg.simps) simp
      ultimately show ?thesis using g by blast
    next
      case False
      then have mf: "meets_at g C (chc_max_depth config) f" using m by auto
      define j where "j = length C - 2"
      have f: "Suc f < length C" "hnat (br_height (best_tip g)) - f \<le> unat (chc_max_depth config)"
        using mf by (simp_all add: meets_at_def)
      have Sj: "Suc j = length C - 1" using f(1) by (simp add: j_def)
      then have j: "Suc j < length C" "f \<le> j" "j - f \<le> unat (chc_max_depth config)" "C ! Suc j = last C"
        using f less.prems n top(3) by (linarith, linarith, linarith, metis)
      obtain b g' w' where "handle_reorg src config g (Fetched (C ! Suc j)) w1 = Some (Inr (b, g'), w')"
        "best_tip g' = blk_ref (C ! Suc j)" "graph_weighed L W (W a) g'"
        using handle_reorg_succeeds [OF src fits g _ j(2,3,1) d] mf unfolding meets_at_def by blast
      with j(4) inb at False show ?thesis by (subst detect_reorg.simps) simp
    qed
  qed
qed

lemma heaviest_is_tip:
  assumes g: "graph_weighed L W base g" and max: "\<forall>k. L k \<noteq> None \<longrightarrow> W k \<le> W (chb_hash (tip_block g))"
  shows "heaviest_block g = tip_block g"
proof (rule ccontr)
  let ?h = "heaviest_block g"
  assume "?h \<noteq> tip_block g"
  then have "chb_work (tip_block g) < chb_work ?h" using heaviest_block_strict [of g] by auto
  then have "unat (chw_raw (chb_work (tip_block g))) < unat (chw_raw (chb_work ?h))"
    by (simp add: less_chain_head_work_def word_less_nat_alt)
  moreover have "weighed L W base ?h"
    using graph_weighedD(2,4) [OF g] heaviest_block_in mbs_blocks_iff by blast
  moreover have "W (chb_hash ?h) \<le> W (chb_hash (tip_block g))"
    using max \<open>weighed L W base ?h\<close> by (simp add: weighed_def ledger_block_def)
  ultimately show False using graph_weighedD(5) [OF g] unfolding weighed_def by linarith
qed

lemma start_graph_succeeds:
  assumes src: "serves_chain src C" "serves_ledger L W src"
    and far: "br_height (best_tip g) < height_below (chain_top C) (chc_max_depth config)"
  shows "\<exists>g' w' a i. start_graph src config g (chain_top C) w = (Inr g', w') \<and> i < length C
    \<and> graph_weighed L W (W a) g' \<and> best_tip g' = blk_ref (C ! i)"
proof -
  let ?h = "height_below (chain_top C) (chc_max_depth config)"
  have i: "hnat ?h < length C"
    using chain_top(1,4) [OF src(1)] by (auto simp: height_below_def hnat_saturating_sub)
  obtain w1 where at: "block_at_height src ?h w = (Inr (Some (C ! hnat ?h)), w1)"
    using serves_chain_at(1) [OF src(1) i] by blast
  obtain roots w2 where roots: "src_get_commitment_tree_roots src (blk_hash (C ! hnat ?h)) w1 = (Inr roots, w2)"
    using serves_chainD(5) [OF src(1) i] by blast
  obtain b where b: "make_chain_head_block (C ! hnat ?h) roots None = Inr b"
    by (simp add: make_chain_head_block_def Let_def)
  note mb = make_chain_head_block_Inr [OF b]
  have "weighed L W (W (blk_prev (C ! hnat ?h))) b"
    using mb serves_chain_served [OF src i] chb_hash_height [of b "C ! hnat ?h"]
    by (simp add: weighed_def served_def ledger_block_def)
  from initial_weighed [OF this] far at roots b mb(1) i show ?thesis
    by (auto simp: start_graph_def Let_def resolve_anchor_block_def bindR_def tree_roots_at_def best_tip_def
        from_initial_block_def)
qed

lemma next_graph_succeeds:
  assumes src: "serves_chain src C" "serves_ledger L W src" and fits: "work_fits W C"
    and g: "graph_weighed L W (W a) g" and d: "chc_max_depth config < 0xFFFFFFFF"
    and m: "br_height (best_tip g) < height_below (chain_top C) (chc_max_depth config)
      \<or> meets_at g C (chc_max_depth config) f"
    and max: "\<forall>k. L k \<noteq> None \<longrightarrow> W k \<le> W (blk_hash (last C))"
  shows "\<exists>g' hz' w'. next_graph src config g (chain_top C) hz w = Some (Inr g', hz', w') \<and> best_tip g' = blk_ref (last C)"
proof -
  note top = chain_top [OF src(1)]
  obtain g1 w1 a1 where start: "start_graph src config g (chain_top C) w = (Inr g1, w1)" and g1: "graph_weighed L W (W a1) g1"
    and where1: "(\<exists>i < length C. best_tip g1 = blk_ref (C ! i)) \<or> meets_at g1 C (chc_max_depth config) f"
  proof (cases "br_height (best_tip g) < height_below (chain_top C) (chc_max_depth config)")
    case True
    then show ?thesis using start_graph_succeeds [OF src True] that by metis
  next
    case False
    then show ?thesis using that [of g w a] g m by (simp add: start_graph_def Let_def)
  qed
  obtain g2 w2 where ext: "extend_to src config (chain_top C) g1 w1 = Some (Inr g2, w2)" and g2: "graph_weighed L W (W a1) g2"
    and where2: "best_tip g2 = blk_ref (last C) \<or> meets_at g2 C (chc_max_depth config) f"
    and high: "length C - 1 \<le> hnat (br_height (best_tip g2))"
  proof (cases "\<exists>i < length C. best_tip g1 = blk_ref (C ! i)")
    case True
    then show ?thesis using extend_to_linear [OF src fits _ g1] that top(1) by (metis order_refl pending_reference.simps(2) block_ref.select_convs(2))
  next
    case False
    then have m1: "meets_at g1 C (chc_max_depth config) f" using where1 by blast
    show ?thesis
    proof (cases "hnat (br_height (best_tip g1)) < length C - 1")
      case True
      then show ?thesis using extend_to_succeeds [OF src fits g1 m1 True d] that top(1)
        by (metis order_refl pending_reference.simps(2) block_ref.select_convs(2))
    next
      case no: False
      then have "\<not> height_u32 (br_height (best_tip g1)) < height_u32 (chain_top C)"
        using top(1) by (simp add: word_less_nat_alt flip: hnat_def)
      then have "extend_to src config (chain_top C) g1 w1 = Some (Inr g1, w1)" by (subst extend_to.simps) simp
      then show ?thesis using that g1 m1 no by simp
    qed
  qed
  obtain g3 w3 where det: "check_for_nonhigher_reorgs src config g2 w2 = Some (Inr g3, w3)"
    and g3: "graph_weighed L W (W a1) g3" "best_tip g3 = blk_ref (last C)"
    unfolding check_for_nonhigher_reorgs_def
    using detect_reorg_succeeds [OF src fits g2 where2 high order_refl d] by blast
  let ?t = "remove_finalised_blocks (trim_floor config hz g3) g3"
  have tip: "best_tip ?t = blk_ref (last C)"
    using trim_view(1) [OF graph_weighedD(2) [OF g3(1)]] g3(2) by (simp add: best_tip_def)
  then have "chb_hash (tip_block ?t) = blk_hash (last C)" by (simp add: best_tip_def tip_block_def chb_hash_def)
  with heaviest_is_tip [OF trim_weighed [OF g3(1)]] max have "heaviest_block ?t = tip_block ?t" by simp
  then have "to_heaviest src config ?t w3 = Some (Inr ?t, w3)" by (simp add: to_heaviest_def)
  with start ext det tip show ?thesis by (simp add: next_graph_def Let_def)
qed

end
