(* ===== verification/Zaino_Chain_Head_Theorems.thy ===== *)
theory Zaino_Chain_Head_Theorems
  imports Zaino_Chain_Head_Converges
begin

text \<open>
  The properties of the chain-head writer: what a run publishes, what a tick does on each
  outcome, that it returns, that it reaches the validator's tip, and how it composes with the
  finality seam. A concrete validator serving a list of blocks instantiates every hypothesis.
\<close>

section \<open>Runs\<close>

text \<open>
  A run of the writer beside the durable tier. Passes of the loop, commits by the durable tier
  and out-of-band shutdowns interleave in any order; the validator's world may be any at the
  start of a pass. A commit during a pass is the same as one just before it or just after it:
  a pass reads the watermark once and the committed height does not depend on the graph.
  The list is the history of the horizons the seam has handed out.
\<close>

definition note_released :: "seam_state \<Rightarrow> released list \<Rightarrow> released list" where
  "note_released hz iss = (case seam_released hz of None \<Rightarrow> iss | Some rel \<Rightarrow> rel # iss)"

inductive head_run :: "'w chain_source \<Rightarrow> u32 \<Rightarrow> u32 \<Rightarrow> run_state \<Rightarrow> released list \<Rightarrow> bool" for src d m where
  start: "anchored src config (seam_new d m) w = (Inr s, w')
    \<Longrightarrow> head_run src d m \<lparr>run_service = s, run_announced_ready = False, run_reports = []\<rparr> []"
| pass: "head_run src d m r iss \<Longrightarrow> run_iteration src c r w = Some (flow, r', w')
    \<Longrightarrow> head_run src d m r' (note_released (chs_horizon (run_service r')) iss)"
| commit: "head_run src d m r iss \<Longrightarrow> rel \<in> set iss \<Longrightarrow> height_ok to
    \<Longrightarrow> watermark_advance rel to (chs_horizon (run_service r)) = Inr (c, hz)
    \<Longrightarrow> head_run src d m (r\<lparr>run_service := (run_service r)\<lparr>chs_horizon := hz\<rparr>\<rparr>) iss"
| stop: "head_run src d m r iss \<Longrightarrow> head_run src d m (run_closing r) iss"

definition head_ok :: "ledger \<Rightarrow> work_ledger \<Rightarrow> chain_head_service \<Rightarrow> bool" where
  "head_ok L W s \<longleftrightarrow> (\<exists>a. graph_weighed L W (W a) (chs_current s)) \<and> chs_updates s = epoch (chs_current s)"

lemma head_ok_cong [simp]:
  "head_ok L W (s\<lparr>chs_horizon := hz\<rparr>) = head_ok L W s" "head_ok L W (s\<lparr>chs_status := st\<rparr>) = head_ok L W s"
  "head_ok L W (shutdown s) = head_ok L W s" "head_ok L W (chs_apply_status f s) = head_ok L W s"
  "head_ok L W (mark_fresh s) = head_ok L W s"
  by (simp_all add: head_ok_def shutdown_def chs_apply_status_def mark_fresh_def)

lemma graph_weighed_stamp: "graph_weighed L W base g \<Longrightarrow> graph_weighed L W base (stamp_generation p n g)"
  by (simp add: graph_weighed_def graph_run.stamped)

lemma best_tip_stamp [simp]: "best_tip (stamp_generation p n g) = best_tip g"
  by (simp add: best_tip_def)

section \<open>The outcomes of a tick\<close>

lemma tick_cases:
  assumes "tick src s w = Some (r, s', w')"
  obtains (unread) e where "r = Inl e" "s' = s"
  | (steady) k h w1 where "src_get_chain_tip src w = (Inr (k, h), w1)" "best_tip (chs_current s) = \<lparr>br_hash = k, br_height = h\<rparr>"
      "r = Inr ()" "s' = mark_fresh s"
  | (failed) k h w1 e hz where "src_get_chain_tip src w = (Inr (k, h), w1)"
      "next_graph src (chs_config s) (chs_current s) h (chs_horizon s) w1 = Some (Inl e, hz, w')"
      "r = Inl e" "s' = s\<lparr>chs_horizon := hz\<rparr>"
  | (advanced) k h w1 g hz where "src_get_chain_tip src w = (Inr (k, h), w1)"
      "next_graph src (chs_config s) (chs_current s) h (chs_horizon s) w1 = Some (Inr g, hz, w')"
      "r = Inr ()" "s' = publish_snapshot (chs_current s) g (mark_fresh (s\<lparr>chs_horizon := hz\<rparr>))"
proof -
  obtain x w1 where x: "src_get_chain_tip src w = (x, w1)" by force
  show ?thesis
  proof (cases x)
    case (Inl e)
    then show ?thesis using assms x unread by (auto simp: tick_def chain_tip_of_source_def)
  next
    case (Inr kh)
    then obtain k h where kh: "x = Inr (k, h)" by (cases kh) auto
    show ?thesis
    proof (cases "\<lparr>br_hash = k, br_height = h\<rparr> = best_tip (chs_current s)")
      case True
      then show ?thesis using assms x kh steady by (auto simp: tick_def chain_tip_of_source_def)
    next
      case False
      then obtain y hz w2 where y: "next_graph src (chs_config s) (chs_current s) h (chs_horizon s) w1 = Some (y, hz, w2)"
        using assms x kh by (auto simp: tick_def chain_tip_of_source_def Let_def split: option.splits)
      with False assms x kh failed advanced show ?thesis
        by (cases y) (auto simp: tick_def chain_tip_of_source_def Let_def)
    qed
  qed
qed

lemma publish_snapshot_simps [simp]:
  "chs_current (publish_snapshot p g s) = stamp_generation p (cse_generation (chs_updates s)) g"
  "chs_horizon (publish_snapshot p g s) = chs_horizon s"
  "chs_status (publish_snapshot p g s) = chs_status s"
  "chs_config (publish_snapshot p g s) = chs_config s"
  "chs_updates (publish_snapshot p g s) =
    (if best_tip g = best_tip p then chs_updates s
     else epoch (stamp_generation p (cse_generation (chs_updates s)) g))"
  by (simp_all add: publish_snapshot_def Let_def epoch_def best_tip_def)

lemma mark_fresh_simps [simp]:
  "chs_current (mark_fresh s) = chs_current s" "chs_horizon (mark_fresh s) = chs_horizon s"
  "chs_config (mark_fresh s) = chs_config s" "chs_updates (mark_fresh s) = chs_updates s"
  "nas_load (chs_status (mark_fresh s)) = next_status (nas_load (chs_status s)) Advanced"
  by (simp_all add: mark_fresh_def chs_apply_status_def)

lemma tick_head_ok:
  assumes src: "serves_ledger L W src" "honours_height src" and s: "head_ok L W s"
    and t: "tick src s w = Some (r, s', w')"
  shows "head_ok L W s'"
  using t
proof (cases rule: tick_cases)
  case (advanced k h w1 g hz)
  obtain a where a: "graph_weighed L W (W a) (chs_current s)" using s by (auto simp: head_ok_def)
  obtain a' where "graph_weighed L W (W a') g" by (rule next_graph_Inr [OF src a advanced(2)]) blast
  then have "\<exists>a. graph_weighed L W (W a) (chs_current s')" using advanced(4) graph_weighed_stamp by fastforce
  moreover have "chs_updates s' = epoch (chs_current s')"
    using s advanced(4) by (auto simp: head_ok_def epoch_def stamp_generation_def best_tip_def)
  ultimately show ?thesis by (simp add: head_ok_def)
qed (use s in auto)

lemma map_err_reading: "(case p of (r, w') \<Rightarrow> (map_err f r, w')) = (Inr x, w1) \<longleftrightarrow> p = (Inr x, w1)"
  by (cases p) (auto simp: result_simps)

lemma anchored_head_ok:
  assumes src: "serves_ledger L W src" and "anchored src config hz w = (Inr s, w')"
  shows "head_ok L W s" "chs_horizon s = hz" "chs_config s = config" "nas_load (chs_status s) = Syncing"
proof -
  obtain g where a: "anchor src config w = (Inr g, w')" and s: "s = \<lparr>chs_current = g,
      chs_updates = \<lparr>cse_generation = 0, cse_best_tip = best_tip g\<rparr>, chs_horizon = hz,
      chs_status = nas_new COMPONENT Syncing, chs_config = config\<rparr>"
    using assms(2) by (auto simp: anchored_def split: prod.splits sum.splits)
  obtain h w0 w1 blk roots b where get: "src_get_block src h w0 = (Inr blk, w1)"
    and b: "make_chain_head_block blk roots None = Inr b" "g = from_initial_block b"
    using a by (auto simp: anchor_def bindR_Inr result_simps map_err_reading)
  have "weighed L W (W (bh_prev_hash (blk_header blk))) b"
    using make_chain_head_block_Inr [OF b(1)] serves_ledgerD(1) [OF src get] chb_hash_height [of b blk]
    by (simp add: weighed_def served_def ledger_block_def)
  from initial_weighed [OF this] show "head_ok L W s"
    by (auto simp: s head_ok_def b(2) epoch_def best_tip_def from_initial_block_def)
  show "chs_horizon s = hz" "chs_config s = config" "nas_load (chs_status s) = Syncing" by (simp_all add: s)
qed

lemma run_iteration_cases:
  assumes "run_iteration src c r w = Some (flow, r', w')"
  obtains (cancelled) hz where "flow = BreakLoop"
      "r' = run_closing (r\<lparr>run_service := (run_service r)\<lparr>chs_horizon := hz\<rparr>\<rparr>)"
      "hz = chs_horizon (run_service r) \<or> (\<exists>x s. tick src (run_service r) w = Some (x, s, w') \<and> hz = chs_horizon s)"
  | (ok) s reports where "tick src (run_service r) w = Some (Inr (), s, w')"
      "reports = (if run_announced_ready r then [] else [ReportReady])
        @ [ReportProgress (ucast (height_u32 (br_height (best_tip (chs_current s)))))
             (Some (ucast (height_u32 (br_height (best_tip (chs_current s))))))]"
      "(flow, r') = after_wait c \<lparr>run_service = s, run_announced_ready = True, run_reports = run_reports r @ reports\<rparr>"
  | (err) s e where "tick src (run_service r) w = Some (Inl e, s, w')"
      "(flow, r') = after_wait c (r\<lparr>run_service := chs_apply_status (\<lambda>x. next_status x Failed) s\<rparr>)"
proof (cases "c = CancelledBefore \<or> c = CancelledDuring False")
  case True
  then show ?thesis using assms cancelled [of "chs_horizon (run_service r)"] by (auto simp: run_iteration_def)
next
  case False
  obtain x s w1 where t: "tick src (run_service r) w = Some (x, s, w1)"
    using assms False by (auto simp: run_iteration_def split: option.splits)
  show ?thesis
  proof (cases "c = CancelledDuring True")
    case True
    then show ?thesis using assms t cancelled [of "chs_horizon s"] by (auto simp: run_iteration_def)
  next
    case no: False
    then have c: "c = NotCancelled \<or> c = CancelledWaiting" using False by (cases c) auto
    show ?thesis
    proof (cases x)
      case (Inl e)
      then show ?thesis using assms t c err [of e s] by (auto simp: run_iteration_def Let_def split: prod.splits)
    next
      case (Inr u)
      then show ?thesis using assms t c ok [of s] by (auto simp: run_iteration_def Let_def split: prod.splits)
    qed
  qed
qed

lemma head_run_ok:
  assumes src: "serves_ledger L W src" "honours_height src"
  shows "head_run src d m r iss \<Longrightarrow> head_ok L W (run_service r)"
proof (induction rule: head_run.induct)
  case (start config w s w')
  then show ?case using anchored_head_ok(1) [OF src(1)] by simp
next
  case (pass r iss c w flow r' w')
  from pass(2) show ?case
  proof (cases rule: run_iteration_cases)
    case (cancelled hz)
    with pass.IH show ?thesis by (simp add: run_closing_def)
  next
    case (ok s reports)
    with tick_head_ok [OF src pass.IH ok(1)] show ?thesis
      by (auto simp: after_wait_def run_closing_def split: if_splits)
  next
    case (err s e)
    with tick_head_ok [OF src pass.IH err(1)] show ?thesis
      by (auto simp: after_wait_def run_closing_def split: if_splits)
  qed
qed (simp_all add: run_closing_def)

section \<open>The window and the seam\<close>

definition lowest :: "map_backed_snapshot \<Rightarrow> height" where
  "lowest g = chb_height (hd (best_chain g))"

text \<open>No height lies above the durable tier's watermark and below the window.\<close>

definition seam_closed :: "seam_state \<Rightarrow> map_backed_snapshot \<Rightarrow> bool" where
  "seam_closed hz g \<longleftrightarrow>
     (case horizon_durable hz of None \<Rightarrow> True | Some c \<Rightarrow> hnat (lowest g) \<le> Suc (hnat (committed_height c)))"

lemma lowest_stamp [simp]: "lowest (stamp_generation p n g) = lowest g"
  by (simp add: lowest_def)

lemma trim_lowest:
  assumes g: "graph_ok g" and floor: "floor \<le> chb_height (tip_block g)"
  shows "hnat (lowest (remove_finalised_blocks floor g)) \<le> max (hnat (lowest g)) (hnat floor)"
    and "lowest g \<le> lowest (remove_finalised_blocks floor g)"
proof -
  let ?t = "remove_finalised_blocks floor g" and ?c = "best_chain g"
  have t: "graph_ok ?t" by (rule trim_ok [OF g])
  have chain: "best_chain ?t = filter (\<lambda>c. floor \<le> chb_height c \<or> c = tip_block g) ?c" by (rule trim_best_chain [OF g])
  define i where "i = hnat floor - hnat (lowest g)"
  have "hnat floor \<le> hnat (lowest g) + (length ?c - 1)"
    using floor mbs.tip_height [OF g] by (simp add: lowest_def height_le_iff)
  moreover have "length ?c \<noteq> 0" using mbs.chain_tip [OF g] by simp
  ultimately have i: "i < length ?c" unfolding i_def by linarith
  then have h: "hnat (chb_height (?c ! i)) = max (hnat (lowest g)) (hnat floor)"
    using mbs.chain_heights_nth [OF g i] by (simp add: lowest_def i_def)
  then have "?c ! i \<in> set (best_chain ?t)" using i by (simp add: chain height_le_iff)
  from mbs.chain_height_bounds(1) [OF t this] h
  show "hnat (lowest ?t) \<le> max (hnat (lowest g)) (hnat floor)" by (simp add: lowest_def)
  have "hd (best_chain ?t) \<in> set ?c" using mbs.chain_tip [OF t] chain hd_in_set by fastforce
  from mbs.chain_height_bounds(1) [OF g this] show "lowest g \<le> lowest ?t" by (simp add: lowest_def height_le_iff)
qed

lemma trim_floor_le_tip: "trim_floor config hz g \<le> chb_height (tip_block g)"
proof -
  have "height_below (br_height (best_tip g)) (chc_max_depth config) \<le> chb_height (tip_block g)"
    by (simp add: height_le_iff height_below_def hnat_saturating_sub best_tip_def tip_block_def chb_height_def)
  then show ?thesis
    by (cases "retention_floor hz") (auto simp: trim_floor_def Let_def min_le_iff_disj)
qed

lemma hnat_trim_floor:
  "hnat (trim_floor config hz g) \<le> (case retention_floor hz of None \<Rightarrow> 0 | Some f \<Rightarrow> hnat f)"
  by (auto simp: trim_floor_def Let_def height_le_iff [symmetric] split: option.splits)

lemma publish_horizon_durable [simp]: "horizon_durable (publish_horizon g hz) = horizon_durable hz"
  by (auto simp: publish_horizon_def Let_def horizon_advance_def horizon_durable_def split: option.splits sum.splits if_splits)

lemma next_graph_lowest:
  assumes src: "serves_ledger L W src" "honours_height src" and g: "graph_weighed L W (W a) g"
    and n: "next_graph src config g chain_height hz w = Some (Inr g', hz', w')"
  shows "horizon_durable hz' = horizon_durable hz"
    and "if br_height (best_tip g) < height_below chain_height (chc_max_depth config)
      then height_below chain_height (chc_max_depth config) \<le> lowest g'
      else hnat (lowest g') \<le> max (hnat (lowest g)) (case retention_floor hz of None \<Rightarrow> 0 | Some f \<Rightarrow> hnat f)"
proof -
  obtain start ext mid trimmed a' where
    start: "if br_height (best_tip g) < height_below chain_height (chc_max_depth config)
      then chb_height (hd (best_chain start)) = height_below chain_height (chc_max_depth config) else start = g"
    "graph_weighed L W (W a') start"
    and t: "trimmed = remove_finalised_blocks (trim_floor config hz mid) mid"
    and keeps: "graph_keeps L W (W a') start mid" "graph_weighed L W (W a') mid" "graph_keeps L W (W a') trimmed g'"
    and hz: "hz' = publish_horizon trimmed hz"
    by (rule next_graph_Inr [OF src g n]) blast
  show "horizon_durable hz' = horizon_durable hz" by (simp add: hz)
  have "lowest mid = lowest start" "lowest g' = lowest trimmed"
    using keeps start(2) trim_weighed [OF keeps(2)] by (auto simp: graph_keeps_def lowest_def t)
  with trim_lowest [OF graph_weighedD(2) [OF keeps(2)] trim_floor_le_tip [of config hz mid]] hnat_trim_floor [of config hz mid] start(1)
  show "if br_height (best_tip g) < height_below chain_height (chc_max_depth config)
      then height_below chain_height (chc_max_depth config) \<le> lowest g'
      else hnat (lowest g') \<le> max (hnat (lowest g)) (case retention_floor hz of None \<Rightarrow> 0 | Some f \<Rightarrow> hnat f)"
    by (auto simp: t lowest_def split: if_splits)
qed

section \<open>The writer is an execution of the seam\<close>

lemma publish_horizon_step:
  assumes "height_ok (br_height (best_tip g))"
  shows "\<exists>q'. seam_step\<^sup>*\<^sup>* q q' \<and> seam q' = publish_horizon g (seam q) \<and> set (issued q) \<subseteq> set (issued q')"
proof (cases "publish_horizon g (seam q) = seam q")
  case True
  then show ?thesis by (intro exI [of _ q]) simp
next
  case False
  then obtain b rel where adv: "horizon_advance (br_height (best_tip g)) (chb_hash b) (seam q)
      = Inr (rel, publish_horizon g (seam q))"
    by (auto simp: publish_horizon_def Let_def split: option.splits sum.splits)
  from seam_step.horizon [OF assms adv] show ?thesis by (intro exI conjI, rule r_into_rtranclp) auto
qed

lemma graph_weighed_tip_ok: "graph_weighed L W base g \<Longrightarrow> height_ok (br_height (best_tip g))"
  using graph_weighedD(5) [of L W base g]
  by (simp add: weighed_def best_tip_def tip_block_def chb_height_def)

lemma next_graph_horizon:
  assumes src: "serves_ledger L W src" "honours_height src" and g: "graph_weighed L W (W a) g"
    and n: "next_graph src config g chain_height hz w = Some (r, hz', w')"
  shows "hz' = hz \<or> (\<exists>g'. height_ok (br_height (best_tip g')) \<and> hz' = publish_horizon g' hz)"
proof (rule disjCI)
  assume new: "\<not> (\<exists>g'. height_ok (br_height (best_tip g')) \<and> hz' = publish_horizon g' hz)"
  obtain x w1 where x: "start_graph src config g chain_height w = (x, w1)" by force
  show "hz' = hz"
  proof (cases x)
    case (Inl e)
    then show ?thesis using n x by (simp add: next_graph_def)
  next
    case (Inr start)
    obtain a' where start: "graph_weighed L W (W a') start"
      using start_graph_spec [OF src x [unfolded Inr]] g by (metis (full_types))
    obtain y w2 where y: "extend_to src config chain_height start w1 = Some (y, w2)"
      using n x Inr by (auto simp: next_graph_def split: option.splits)
    show ?thesis
    proof (cases y)
      case (Inl e)
      then show ?thesis using n x Inr y by (simp add: next_graph_def)
    next
      case ext: (Inr ext)
      obtain z w3 where z: "check_for_nonhigher_reorgs src config ext w2 = Some (z, w3)"
        using n x Inr y ext by (auto simp: next_graph_def split: option.splits)
      show ?thesis
      proof (cases z)
        case (Inl e)
        then show ?thesis using n x Inr y ext z by (simp add: next_graph_def)
      next
        case mid: (Inr mid)
        have "graph_keeps L W (W a') start ext" "graph_keeps L W (W a') ext mid"
          using extend_to_spec [OF y src(1)] detect_reorg_spec [OF src(1)] z ext mid
          by (auto simp: extend_post_def detect_post_def check_for_nonhigher_reorgs_def)
        with start have "graph_weighed L W (W a') mid" by (simp add: graph_keeps_def)
        from graph_weighed_tip_ok [OF trim_weighed [OF this]] n x Inr y ext z mid new show ?thesis
          by (auto simp: next_graph_def Let_def split: option.splits)
      qed
    qed
  qed
qed

lemma tick_horizon:
  assumes src: "serves_ledger L W src" "honours_height src" and s: "head_ok L W s" and t: "tick src s w = Some (r, s', w')"
  shows "\<exists>q'. seam_step\<^sup>*\<^sup>* q q' \<and> set (issued q) \<subseteq> set (issued q') \<and> (seam q = chs_horizon s \<longrightarrow> seam q' = chs_horizon s')"
proof -
  obtain a where a: "graph_weighed L W (W a) (chs_current s)" using s by (auto simp: head_ok_def)
  have "chs_horizon s' = chs_horizon s \<or>
      (\<exists>g. height_ok (br_height (best_tip g)) \<and> chs_horizon s' = publish_horizon g (chs_horizon s))"
    using t
  proof (cases rule: tick_cases)
    case (failed k h w1 e hz)
    with next_graph_horizon [OF src a failed(2)] show ?thesis by simp
  next
    case (advanced k h w1 g hz)
    with next_graph_horizon [OF src a advanced(2)] show ?thesis by simp
  qed simp_all
  then show ?thesis using publish_horizon_step [of _ q] by (metis order_refl rtranclp.rtrancl_refl)
qed

lemma note_released_issued:
  assumes "seam_reachable d m q" and "set iss \<subseteq> set (issued q)"
  shows "set (note_released (seam q) iss) \<subseteq> set (issued q)"
  using seam_inv_reachable [OF assms(1)] assms(2)
  by (auto simp: note_released_def seam_inv_def split: option.splits)

lemma after_wait_horizon:
  "(flow, r') = after_wait c r \<Longrightarrow> chs_horizon (run_service r') = chs_horizon (run_service r)"
  by (auto simp: after_wait_def run_closing_def shutdown_def split: if_splits)

lemma head_run_seam:
  assumes src: "serves_ledger L W src" "honours_height src"
  shows "head_run src d m r iss
    \<Longrightarrow> \<exists>q. seam_reachable d m q \<and> seam q = chs_horizon (run_service r) \<and> set iss \<subseteq> set (issued q)"
proof (induction rule: head_run.induct)
  case (start config w s w')
  then show ?case using anchored_head_ok(2) [OF src(1)]
    by (auto simp: seam_reachable_def init_world_def intro!: exI [of _ "init_world d m"])
next
  case (pass r iss c w flow r' w')
  then obtain q where q: "seam_reachable d m q" "seam q = chs_horizon (run_service r)" "set iss \<subseteq> set (issued q)" by blast
  have "chs_horizon (run_service r') = chs_horizon (run_service r) \<or>
      (\<exists>x s. tick src (run_service r) w = Some (x, s, w') \<and> chs_horizon (run_service r') = chs_horizon s)"
    using pass(2)
  proof (cases rule: run_iteration_cases)
    case (cancelled hz)
    then show ?thesis by (auto simp: run_closing_def shutdown_def)
  next
    case (ok s reports)
    then show ?thesis using after_wait_horizon [OF ok(3)] by auto
  next
    case (err s e)
    then show ?thesis using after_wait_horizon [OF err(2)] by (auto simp: chs_apply_status_def)
  qed
  then obtain q' where q': "seam_step\<^sup>*\<^sup>* q q'" "set (issued q) \<subseteq> set (issued q')" "seam q' = chs_horizon (run_service r')"
    using tick_horizon [OF src head_run_ok [OF src pass(1)], of w _ _ w' q] q(2) by (metis order_refl rtranclp.rtrancl_refl)
  then have "seam_reachable d m q'" using q(1) by (simp add: seam_reachable_def)
  with q' q(3) note_released_issued [of d m q' iss] show ?case by (intro exI [of _ q']) auto
next
  case (commit r iss rel to c hz)
  then obtain q where q: "seam_reachable d m q" "seam q = chs_horizon (run_service r)" "set iss \<subseteq> set (issued q)" by blast
  let ?q = "\<lparr>seam = hz, issued = issued q, last_tip = last_tip q\<rparr>"
  have "seam_step q ?q" using seam_step.watermark [of to rel q c hz] commit q by auto
  then have "seam_reachable d m ?q" using q(1) by (simp add: seam_reachable_def)
  with q(3) show ?case by (intro exI [of _ ?q]) simp
next
  case (stop r iss)
  then show ?case by (simp add: run_closing_def shutdown_def)
qed

section \<open>Arriving at the validator's tip\<close>

lemma absent_at_chain:
  assumes "serves_chain src C"
  shows "absent_at src h \<longleftrightarrow> \<not> hnat h < length C"
proof
  assume "absent_at src h"
  then obtain w w' where w: "block_at_height src h w = (Inr None, w')" by (auto simp: absent_at_def)
  show "\<not> hnat h < length C"
  proof
    assume "hnat h < length C"
    with serves_chain_at(1) [OF assms, of h w] w show False by auto
  qed
next
  assume "\<not> hnat h < length C"
  with serves_chain_at(2) [OF assms] show "absent_at src h" unfolding absent_at_def by blast
qed

lemma detected_tip:
  assumes src: "serves_chain src C" "serves_ledger L W src" and start: "graph_weighed L W base start"
    and ext: "extend_post L W base src (chain_top C) start (Inr ext)"
    and det: "detect_post L W base src (br_height (best_tip ext)) ext mid"
  shows "best_tip mid = blk_ref (last C)"
proof -
  note top = chain_top [OF src(1)] and absent = absent_at_chain [OF src(1)]
  have high: "chain_top C \<le> br_height (best_tip ext)"
  proof (rule ccontr)
    assume "\<not> chain_top C \<le> br_height (best_tip ext)"
    then have lt: "br_height (best_tip ext) < chain_top C" by simp
    with ext have "absent_at src (next_height (br_height (best_tip ext)))" by (auto simp: extend_post_def)
    with lt hnat_next_height [OF lt top(2)] top(1,4) show False unfolding absent height_less_iff by linarith
  qed
  obtain t where t: "t \<le> br_height (best_tip ext)"
      "\<forall>h. t < h \<and> h \<le> br_height (best_tip ext) \<longrightarrow> absent_at src h"
      "hnat t = 0 \<and> absent_at src t \<and> mid = ext
       \<or> (\<exists>blk w w'. src_get_block src t w = (Inr blk, w') \<and> br_hash (best_tip mid) = bh_hash (blk_header blk))"
    using det unfolding detect_post_def by blast
  have "\<not> (hnat t = 0 \<and> absent_at src t)" using top(4) absent by (metis (full_types))
  with t(3) obtain blk w w' where blk: "src_get_block src t w = (Inr blk, w')"
    and hash: "br_hash (best_tip mid) = blk_hash blk" by blast
  obtain w1 where "src_get_block src t w
      = (if hnat t < length C then Inr (C ! hnat t) else Inl (Domain (HeightNotFound t)), w1)"
    using src(1) unfolding serves_chain_def by blast
  with blk have served: "hnat t < length C" "blk = C ! hnat t" by (auto split: if_splits)
  have "\<not> t < chain_top C" using t(2) high absent top by auto
  then have "hnat t = length C - 1" using served(1) top(1) by (simp add: height_less_iff)
  with served(2) top(3) have "blk = last C" by simp
  moreover have "graph_weighed L W base mid"
    using start ext det by (auto simp: extend_post_def detect_post_def graph_keeps_def)
  ultimately show ?thesis using tip_on_chain [OF src _ served(1)] hash served(2) by simp
qed

lemma trim_tip [simp]: "mbs_tip (remove_finalised_blocks floor g) = mbs_tip g"
  by (simp add: remove_finalised_blocks_def Let_def)

lemma next_graph_arrives:
  assumes src: "serves_chain src C" "serves_ledger L W src" "honours_height src" and g: "graph_weighed L W (W a) g"
    and n: "next_graph src config g (chain_top C) hz w = Some (Inr g', hz', w')"
  shows "best_tip g' = blk_ref (last C) \<or> W (blk_hash (last C)) < W (br_hash (best_tip g'))"
    and "retention_floor hz = None \<Longrightarrow> \<not> br_height (best_tip g) < height_below (chain_top C) (chc_max_depth config)
      \<Longrightarrow> block_by_hash g k \<noteq> None \<Longrightarrow> W k \<le> W (br_hash (best_tip g'))"
proof -
  obtain start ext mid trimmed a' where start: "if br_height (best_tip g) < height_below (chain_top C) (chc_max_depth config)
      then chb_height (hd (best_chain start)) = height_below (chain_top C) (chc_max_depth config) else start = g"
      "graph_weighed L W (W a') start"
    and ed: "extend_post L W (W a') src (chain_top C) start (Inr ext)"
      "detect_post L W (W a') src (br_height (best_tip ext)) ext mid"
    and t: "trimmed = remove_finalised_blocks (trim_floor config hz mid) mid"
    and mid: "graph_keeps L W (W a') start mid" "graph_weighed L W (W a') mid"
    and tip: "best_tip g' = chb_reference (heaviest_block trimmed)"
    by (rule next_graph_Inr [OF src(2,3) g n]) blast
  have tw: "graph_weighed L W (W a') trimmed" using trim_weighed [OF mid(2)] t by simp
  let ?h = "heaviest_block trimmed"
  have weight: "int (unat (chw_raw (chb_work b))) = W k - W a'" if "block_by_hash trimmed k = Some b" for k b
    using graph_weighedD(4) [OF tw that] block_by_hash_hash [OF graph_weighedD(2) [OF tw] that] by (simp add: weighed_def)
  have h: "block_by_hash trimmed (chb_hash ?h) = Some ?h"
    using heaviest_block_in mbs_blocks_iff [OF graph_weighedD(2) [OF tw]] by blast
  have heavy: "W k \<le> W (br_hash (best_tip g'))" if k: "block_by_hash trimmed k \<noteq> None" for k
  proof -
    from k obtain b where b: "block_by_hash trimmed k = Some b" by blast
    then have "b \<in> set (mbs_blocks trimmed)"
      using mbs_blocks_iff [OF graph_weighedD(2) [OF tw]] block_by_hash_hash [OF graph_weighedD(2) [OF tw] b] by simp
    from heaviest_block_max [OF this] have "unat (chw_raw (chb_work b)) \<le> unat (chw_raw (chb_work ?h))"
      by (simp add: less_eq_chain_head_work_def word_le_nat_alt)
    with weight [OF b] weight [OF h] show ?thesis unfolding tip chb_hash_def by linarith
  qed
  have "best_tip mid = blk_ref (last C)" by (rule detected_tip [OF src(1,2) start(2) ed])
  then have ref: "chb_reference (tip_block trimmed) = blk_ref (last C)" by (simp add: best_tip_def tip_block_def t)
  show "best_tip g' = blk_ref (last C) \<or> W (blk_hash (last C)) < W (br_hash (best_tip g'))"
  proof (cases "?h = tip_block trimmed")
    case True
    then show ?thesis using tip ref by simp
  next
    case False
    then have "chb_work (tip_block trimmed) < chb_work ?h" using heaviest_block_strict by blast
    then have "unat (chw_raw (chb_work (tip_block trimmed))) < unat (chw_raw (chb_work ?h))"
      by (simp add: less_chain_head_work_def word_less_nat_alt)
    moreover have "block_by_hash trimmed (blk_hash (last C)) = Some (tip_block trimmed)"
      using chb_hash_height(1) [OF ref] by (simp add: block_by_hash_def tip_block_def)
    note weight [OF this]
    ultimately show ?thesis using weight [OF h] unfolding tip chb_hash_def by linarith
  qed
  assume none: "retention_floor hz = None" and near: "\<not> br_height (best_tip g) < height_below (chain_top C) (chc_max_depth config)"
    and k: "block_by_hash g k \<noteq> None"
  have "trim_floor config hz mid = GENESIS" using none by (simp add: trim_floor_def)
  then have "block_by_hash trimmed k = block_by_hash mid k" for k
    using trim_view(2) [OF graph_weighedD(2) [OF mid(2)], of GENESIS k]
    by (auto simp: t block_by_hash_def height_le_iff split: option.splits)
  moreover have "block_by_hash mid k \<noteq> None"
    using mid(1) start near k by (simp add: graph_keeps_def retains_def)
  ultimately show "W k \<le> W (br_hash (best_tip g'))" using heavy by simp
qed

section \<open>A concrete validator\<close>

text \<open>A validator that serves a list of blocks and whose world never changes.\<close>

definition example_roots :: tree_roots where
  "example_roots = \<lparr>tr_sapling = None, tr_orchard = None, tr_ironwood = None\<rparr>"

definition example_source :: "block list \<Rightarrow> unit chain_source" where
  "example_source C =
     \<lparr>src_get_chain_tip = (\<lambda>w. (Inr (blk_hash (last C), bh_height (blk_header (last C))), w)),
      src_get_block = (\<lambda>h w. (if hnat h < length C then Inr (C ! hnat h) else Inl (Domain (HeightNotFound h)), w)),
      src_get_block_by_hash = (\<lambda>k w. (case find (\<lambda>blk. blk_hash blk = k) C of
         Some blk \<Rightarrow> Inr blk | None \<Rightarrow> Inl (Domain (NotFound k)), w)),
      src_get_commitment_tree_roots = (\<lambda>_ w. (Inr example_roots, w))\<rparr>"

definition example_work :: work_ledger where
  "example_work k = 8192 * int (length (case k of BlockHash bs \<Rightarrow> bs))"

text \<open>The chain whose tip was reached by the choices \<open>cs\<close>, oldest first.\<close>

definition example_chain :: "u8 list \<Rightarrow> block list" where
  "example_chain cs = map (\<lambda>n. example_raw (rev (take (Suc n) cs))) [0..<length cs]"

lemma length_example_chain [simp]: "length (example_chain cs) = length cs"
  by (simp add: example_chain_def)

lemma example_chain_Nil [simp]: "example_chain cs = [] \<longleftrightarrow> cs = []"
  by (simp add: example_chain_def)

lemma example_chain_nth [simp]: "i < length cs \<Longrightarrow> example_chain cs ! i = example_raw (rev (take (Suc i) cs))"
  by (simp add: example_chain_def)

lemma example_raw_simps [simp]:
  "blk_hash (example_raw bs) = BlockHash bs" "blk_prev (example_raw bs) = BlockHash (tl bs)"
  "bh_height (blk_header (example_raw bs)) = Height (word_of_nat (length (tl bs)))"
  "header_work (blk_header (example_raw bs)) = 8192"
  by (simp_all add: example_raw_def header_work_def)

lemma hnat_of_nat: "n < 2 ^ 32 \<Longrightarrow> hnat (Height (word_of_nat n)) = n"
  by (simp add: hnat_def unat_of_nat)

definition bounded_ledger :: "nat \<Rightarrow> ledger" where
  "bounded_ledger n k = (if length (case k of BlockHash bs \<Rightarrow> bs) \<le> n then example_ledger k else None)"

lemma example_served:
  assumes "bs \<noteq> []" and "length bs \<le> n" and "n < 2 ^ 31"
  shows "served (bounded_ledger n) example_work (example_raw bs)"
  using assms
  by (cases bs) (simp_all add: served_def bounded_ledger_def example_work_def hnat_of_nat height_ok_iff del: hnat_Height)

lemma example_chain_served:
  assumes "blk \<in> set (example_chain cs)" and "length cs \<le> n" and "n < 2 ^ 31"
  shows "served (bounded_ledger n) example_work blk"
proof -
  obtain i where i: "i < length cs" "blk = example_raw (rev (take (Suc i) cs))"
    using assms(1) by (auto simp: example_chain_def)
  then show ?thesis using example_served [of "rev (take (Suc i) cs)" n] assms(2,3) by (cases cs) auto
qed

lemma example_source_get:
  "src_get_block (example_source C) h w = (Inr blk, w') \<Longrightarrow> hnat h < length C \<and> blk = C ! hnat h"
  "src_get_block_by_hash (example_source C) k w = (Inr blk, w') \<Longrightarrow> blk \<in> set C"
  by (auto simp: example_source_def find_Some_iff split: if_splits option.splits)

lemma example_serves_ledger:
  assumes "length cs \<le> n" and "n < 2 ^ 31"
  shows "serves_ledger (bounded_ledger n) example_work (example_source (example_chain cs))"
  unfolding serves_ledger_def
  by (metis example_chain_served [OF _ assms] example_source_get nth_mem)

lemma example_height:
  assumes "length cs < 2 ^ 31" and "i < length cs"
  shows "hnat (bh_height (blk_header (example_chain cs ! i))) = i" "height_ok (bh_height (blk_header (example_chain cs ! i)))"
proof -
  have len: "length (tl (rev (take (Suc i) cs))) = i" using assms(2) by simp
  have "bh_height (blk_header (example_chain cs ! i)) = Height (word_of_nat i)"
    unfolding example_chain_nth [OF assms(2)] example_raw_simps(3) len ..
  moreover have "hnat (Height (word_of_nat i)) = i" using assms by (intro hnat_of_nat) simp
  ultimately show "hnat (bh_height (blk_header (example_chain cs ! i))) = i"
    "height_ok (bh_height (blk_header (example_chain cs ! i)))"
    using assms by (simp_all only: height_ok_iff)
qed

lemma example_honours_height:
  assumes "length cs < 2 ^ 31" and "cs \<noteq> []"
  shows "honours_height (example_source (example_chain cs))"
proof -
  have "bh_height (blk_header blk) = h"
    if "src_get_block (example_source (example_chain cs)) h w = (Inr blk, w')" for h blk and w w' :: unit
    using example_source_get(1) [OF that] example_height(1) [OF assms(1), of "hnat h"]
    by (metis hnat_inject length_example_chain)
  moreover have "height_ok (bh_height (blk_header (last (example_chain cs))))"
    using example_height(2) [OF assms(1), of "length cs - 1"] assms(2)
    by (simp add: last_conv_nth del: example_chain_nth)
  ultimately show ?thesis unfolding honours_height_def by (auto simp: example_source_def)
qed

lemma example_find:
  assumes i: "i < length cs"
  shows "find (\<lambda>blk. blk_hash blk = blk_hash (example_chain cs ! i)) (example_chain cs) = Some (example_chain cs ! i)"
proof -
  have "blk_hash (example_chain cs ! j) \<noteq> blk_hash (example_chain cs ! i)" if "j < i" for j
  proof
    assume "blk_hash (example_chain cs ! j) = blk_hash (example_chain cs ! i)"
    then have "length (rev (take (Suc j) cs)) = length (rev (take (Suc i) cs))" using that i by simp
    with that i show False by simp
  qed
  with i show ?thesis unfolding find_Some_iff by (intro exI [of _ i]) simp
qed

lemma example_serves_chain:
  assumes "length cs < 2 ^ 31" and "cs \<noteq> []"
  shows "serves_chain (example_source (example_chain cs)) (example_chain cs)"
proof -
  have "blk_prev (example_chain cs ! Suc i) = blk_hash (example_chain cs ! i)" if "Suc i < length cs" for i
    using that by (simp add: take_Suc_conv_app_nth)
  then show ?thesis
    unfolding serves_chain_def using assms(2) example_height [OF assms(1)] example_find
    by (simp add: example_source_def del: example_chain_nth)
qed

lemma example_work_fits:
  assumes "length cs < 2 ^ 31"
  shows "work_fits example_work (example_chain cs)"
proof -
  have "example_work (blk_hash blk) < 2 ^ 128" if blk: "blk \<in> set (example_chain cs)" for blk
  proof -
    obtain n where "n < length cs" "blk = example_raw (rev (take (Suc n) cs))"
      using blk by (auto simp: example_chain_def)
    with assms show ?thesis by (simp add: example_work_def)
  qed
  then show ?thesis by (simp add: work_fits_def example_work_def)
qed

text \<open>A head holding the example graph, beside a durable tier that holds nothing.\<close>

definition example_config :: chain_head_config where
  "example_config = \<lparr>chc_max_depth = 100, chc_poll_interval_ms = 1000\<rparr>"

definition example_head :: chain_head_service where
  "example_head =
     \<lparr>chs_current = example_graph, chs_updates = epoch example_graph, chs_horizon = seam_new 100 10,
      chs_status = nas_new COMPONENT Syncing, chs_config = example_config\<rparr>"

lemma example_graph_weighed:
  assumes "2 \<le> n"
  shows "graph_weighed (bounded_ledger n) example_work (example_work (BlockHash [0])) example_graph"
proof -
  have w: "weighed (bounded_ledger n) example_work (example_work (BlockHash [0])) (example_block [0])"
    "weighed (bounded_ledger n) example_work (example_work (BlockHash [0])) (example_block [1, 0])"
    using assms by (simp_all add: weighed_def ledger_block_def bounded_ledger_def example_work_def height_ok_iff)
      (simp_all add: example_block_def)
  from extend_weighed(1) [OF initial_weighed [OF w(1)] w(2) example_graph_extend] show ?thesis .
qed

lemma example_head_ok: "head_ok (bounded_ledger 3) example_work example_head"
  using example_graph_weighed [of 3] by (auto simp: head_ok_def example_head_def)

lemma example_graph_best_tip: "best_tip example_graph = \<lparr>br_hash = BlockHash [1, 0], br_height = Height 1\<rparr>"
  using example_graph_tip by (simp add: best_tip_def tip_block_def example_block_def)

lemma example_meets: "meets_at example_graph (example_chain [0, 2, 3]) 100 0"
proof -
  have "chb_reference (example_block [0]) \<in> chb_reference ` set (best_chain example_graph)"
    by (simp add: example_graph_chain)
  then have "is_on_best_chain example_graph (chb_reference (example_block [0]))"
    using on_best_chain_iff [OF graph_weighedD(2) [OF example_graph_weighed [OF order_refl]]] by blast
  then show ?thesis by (simp add: meets_at_def example_graph_best_tip example_block_def)
qed

lemma bounded_ledger_max:
  "length cs = n \<Longrightarrow> cs \<noteq> [] \<Longrightarrow> bounded_ledger n k \<noteq> None \<Longrightarrow> example_work k \<le> example_work (blk_hash (last (example_chain cs)))"
  by (auto simp: bounded_ledger_def example_work_def last_conv_nth split: if_splits)

lemma tick_succeeds:
  assumes "serves_chain src C" and "serves_ledger L W src" and "work_fits W C"
    and "graph_weighed L W (W a) (chs_current s)" and "chc_max_depth (chs_config s) < 0xFFFFFFFF"
    and "best_tip (chs_current s) = blk_ref (last C)
      \<or> br_height (best_tip (chs_current s)) < height_below (chain_top C) (chc_max_depth (chs_config s))
      \<or> meets_at (chs_current s) C (chc_max_depth (chs_config s)) f"
    and "\<forall>k. L k \<noteq> None \<longrightarrow> W k \<le> W (blk_hash (last C))"
  shows "\<exists>s' w'. tick src s w = Some (Inr (), s', w') \<and> best_tip (chs_current s') = blk_ref (last C)
    \<and> nas_load (chs_status s') = next_status (nas_load (chs_status s)) Advanced"
proof -
  obtain w1 where tip: "src_get_chain_tip src w = (Inr (blk_hash (last C), chain_top C), w1)"
    using assms(1) unfolding serves_chain_def by blast
  show ?thesis
  proof (cases "best_tip (chs_current s) = blk_ref (last C)")
    case True
    with tip have "tick src s w = Some (Inr (), mark_fresh s, w1)" by (simp add: tick_def chain_tip_of_source_def)
    then show ?thesis using True by simp
  next
    case False
    obtain g hz w2 where "next_graph src (chs_config s) (chs_current s) (chain_top C) (chs_horizon s) w1 = Some (Inr g, hz, w2)"
      "best_tip g = blk_ref (last C)"
      using next_graph_succeeds [OF assms(1-5) _ assms(7)] assms(6) False by blast
    with False tip show ?thesis by (auto simp: tick_def chain_tip_of_source_def Let_def)
  qed
qed

section \<open>Properties of the writer\<close>

text \<open>C1. One tick converges. Let the validator stand still on a chain whose tip has the most
  work of the ledger, with every tree root available and works that fit the accumulator. If the
  writer's graph is already there, or is so far behind that it must re-anchor, or meets the
  validator's chain at a canonical block no deeper under its tip than the configured depth,
  then the tick returns successfully, the published tip is the validator's tip, and the
  status is \<open>Ready\<close> unless the head is closing.\<close>

theorem tick_converges:
  assumes "serves_chain src C" and "serves_ledger L W src" and "work_fits W C"
    and "graph_weighed L W (W a) (chs_current s)" and "chc_max_depth (chs_config s) < 0xFFFFFFFF"
    and "best_tip (chs_current s) = blk_ref (last C)
      \<or> br_height (best_tip (chs_current s)) < height_below (chain_top C) (chc_max_depth (chs_config s))
      \<or> meets_at (chs_current s) C (chc_max_depth (chs_config s)) f"
    and "\<forall>k. L k \<noteq> None \<longrightarrow> W k \<le> W (blk_hash (last C))"
  shows "\<exists>s' w'. tick src s w = Some (Inr (), s', w') \<and> best_tip (chs_current s') = blk_ref (last C)
    \<and> nas_load (chs_status s') = (if nas_load (chs_status s) = Closing then Closing else Ready)"
proof -
  have "next_status st Advanced = (if st = Closing then Closing else Ready)" for st by (cases st) simp_all
  with tick_succeeds [OF assms, of w] show ?thesis by simp
qed

lemma example_tick_hypotheses:
  "serves_chain (example_source (example_chain [0, 2, 3])) (example_chain [0, 2, 3])"
  "serves_ledger (bounded_ledger 3) example_work (example_source (example_chain [0, 2, 3]))"
  "honours_height (example_source (example_chain [0, 2, 3]))"
  "work_fits example_work (example_chain [0, 2, 3])"
  "graph_weighed (bounded_ledger 3) example_work (example_work (BlockHash [0])) (chs_current example_head)"
  "chc_max_depth (chs_config example_head) < 0xFFFFFFFF"
  "best_tip (chs_current example_head) = blk_ref (last (example_chain [0, 2, 3]))
      \<or> br_height (best_tip (chs_current example_head))
          < height_below (chain_top (example_chain [0, 2, 3])) (chc_max_depth (chs_config example_head))
      \<or> meets_at (chs_current example_head) (example_chain [0, 2, 3]) (chc_max_depth (chs_config example_head)) 0"
  "\<forall>k. bounded_ledger 3 k \<noteq> None \<longrightarrow> example_work k \<le> example_work (blk_hash (last (example_chain [0, 2, 3])))"
  using bounded_ledger_max [of "[0, 2, 3]" 3] example_meets example_graph_weighed [of 3]
  by (simp_all add: example_serves_chain example_serves_ledger example_honours_height example_work_fits
      example_head_def example_config_def)

lemma example_last: "blk_ref (last (example_chain [0, 2, 3])) = \<lparr>br_hash = BlockHash [3, 2, 0], br_height = Height 2\<rparr>"
  by (simp add: last_conv_nth)

theorem tick_converges_witness:
  "\<exists>s'. tick (example_source (example_chain [0, 2, 3])) example_head () = Some (Inr (), s', ())
     \<and> best_tip (chs_current example_head) = \<lparr>br_hash = BlockHash [1, 0], br_height = Height 1\<rparr>
     \<and> best_tip (chs_current s') = \<lparr>br_hash = BlockHash [3, 2, 0], br_height = Height 2\<rparr>
     \<and> nas_load (chs_status s') = Ready"
  using tick_converges [OF example_tick_hypotheses(1,2,4-8), of "()"]
  unfolding example_last by (simp add: example_head_def example_graph_best_tip)

text \<open>C17. What a successful tick means. Against a validator that stands still on a chain, a
  successful tick leaves the head on the validator's tip or on a block with strictly more work;
  so it is the validator's tip whenever no block of the ledger has more work.\<close>

theorem tick_arrives:
  assumes "serves_chain src C" and "serves_ledger L W src" and "honours_height src" and "head_ok L W s"
    and "tick src s w = Some (Inr (), s', w')"
  shows "(best_tip (chs_current s') = blk_ref (last C)
      \<or> W (blk_hash (last C)) < W (br_hash (best_tip (chs_current s'))))
    \<and> ((\<forall>k. L k \<noteq> None \<longrightarrow> W k \<le> W (blk_hash (last C))) \<longrightarrow> best_tip (chs_current s') = blk_ref (last C))"
proof -
  obtain w1 where tip: "src_get_chain_tip src w = (Inr (blk_hash (last C), chain_top C), w1)"
    using assms(1) unfolding serves_chain_def by blast
  obtain a where a: "graph_weighed L W (W a) (chs_current s)" using assms(4) by (auto simp: head_ok_def)
  have arrive: "best_tip (chs_current s') = blk_ref (last C)
      \<or> W (blk_hash (last C)) < W (br_hash (best_tip (chs_current s')))"
    using assms(5)
  proof (cases rule: tick_cases)
    case (advanced k h w2 g hz)
    with tip have n: "next_graph src (chs_config s) (chs_current s) (chain_top C) (chs_horizon s) w1 = Some (Inr g, hz, w')"
      by simp
    from next_graph_arrives(1) [OF assms(1-3) a n] advanced(4) show ?thesis by simp
  qed (use tip in auto)
  have "head_ok L W s'" by (rule tick_head_ok [OF assms(2-5)])
  then obtain a' where "graph_weighed L W (W a') (chs_current s')" by (auto simp: head_ok_def)
  then have "ledger_block L (tip_block (chs_current s'))" using graph_weighedD(5) by (simp add: weighed_def)
  then have "L (br_hash (best_tip (chs_current s'))) \<noteq> None"
    by (simp add: ledger_block_def best_tip_def tip_block_def chb_hash_def)
  with arrive show ?thesis by (meson leD)
qed

theorem tick_arrives_witness:
  "\<exists>s'. tick (example_source (example_chain [0, 2, 3])) example_head () = Some (Inr (), s', ())
     \<and> best_tip (chs_current s') = \<lparr>br_hash = BlockHash [3, 2, 0], br_height = Height 2\<rparr>"
proof -
  obtain s' where s': "tick (example_source (example_chain [0, 2, 3])) example_head () = Some (Inr (), s', ())"
    using tick_succeeds [OF example_tick_hypotheses(1,2,4-8), of "()"] by auto
  from tick_arrives [OF example_tick_hypotheses(1-3) example_head_ok s'] example_tick_hypotheses(8) s' show ?thesis
    unfolding example_last by blast
qed

text \<open>C31. A rollback is undone while the abandoned branch is retained. If the durable tier holds
  nothing, the writer need not re-anchor, and it retains a block with more work than the
  validator's tip, then a successful tick does not end on the validator's tip, although it
  reports the head as up to date.\<close>

theorem rollback_undone:
  assumes "serves_chain src C" and "serves_ledger L W src" and "honours_height src" and "head_ok L W s"
    and "tick src s w = Some (Inr (), s', w')" and "horizon_durable (chs_horizon s) = None"
    and "\<not> br_height (best_tip (chs_current s)) < height_below (chain_top C) (chc_max_depth (chs_config s))"
    and "block_by_hash (chs_current s) k \<noteq> None" and "W (blk_hash (last C)) < W k"
    and "best_tip (chs_current s) \<noteq> blk_ref (last C)"
  shows "best_tip (chs_current s') \<noteq> blk_ref (last C) \<and> W k \<le> W (br_hash (best_tip (chs_current s')))
    \<and> nas_load (chs_status s') = (if nas_load (chs_status s) = Closing then Closing else Ready)"
proof -
  obtain w1 where tip: "src_get_chain_tip src w = (Inr (blk_hash (last C), chain_top C), w1)"
    using assms(1) unfolding serves_chain_def by blast
  obtain a where a: "graph_weighed L W (W a) (chs_current s)" using assms(4) by (auto simp: head_ok_def)
  have st: "next_status x Advanced = (if x = Closing then Closing else Ready)" for x by (cases x) simp_all
  have none: "retention_floor (chs_horizon s) = None" using assms(6) by (simp add: retention_floor_def)
  have "W k \<le> W (br_hash (best_tip (chs_current s')))
    \<and> nas_load (chs_status s') = next_status (nas_load (chs_status s)) Advanced"
    using assms(5)
  proof (cases rule: tick_cases)
    case (advanced k' h w2 g hz)
    with tip have n: "next_graph src (chs_config s) (chs_current s) (chain_top C) (chs_horizon s) w1 = Some (Inr g, hz, w')"
      by simp
    from next_graph_arrives(2) [OF assms(1-3) a n none assms(7,8)] advanced(4) show ?thesis
      by (simp add: mark_fresh_def chs_apply_status_def)
  qed (use tip assms(10) in auto)
  with assms(9) show ?thesis by (auto simp: st)
qed

text \<open>
  The validator rolls back from \<open>[7, 1, 0]\<close> to \<open>[1, 0]\<close>: the walk follows it down, and the heaviest
  retained block is laid straight back.
\<close>

definition rollback_ledger :: ledger where
  "rollback_ledger k = (if k \<in> {BlockHash [0], BlockHash [1, 0], BlockHash [7, 1, 0]} then example_ledger k else None)"

definition rollback_graph :: map_backed_snapshot where
  "rollback_graph = (case graph_extend (example_block [7, 1, 0]) example_graph of Inl _ \<Rightarrow> example_graph | Inr g \<Rightarrow> g)"

definition rollback_head :: chain_head_service where
  "rollback_head = example_head\<lparr>chs_current := rollback_graph, chs_updates := epoch rollback_graph\<rparr>"

lemma to_heaviest_child:
  assumes g: "graph_weighed L W base g" and c: "child_of (tip_block g) (heaviest_block g)"
  shows "\<exists>g'. to_heaviest src config g w = Some (Inr g', w)"
proof -
  let ?h = "heaviest_block g"
  have "forks_at g (pending_parent_hash (Retained ?h)) (tip_block g)"
    using c graph_okD(5) [OF graph_weighedD(2) [OF g]]
    by (auto simp: forks_at_def child_of_def block_by_hash_def tip_block_def is_on_best_chain_def chb_height_def chb_hash_def)
  then have "reorg_walk src (chc_max_depth config) g (pending_parent_hash (Retained ?h)) 0 [] w = Some (Inr (tip_block g, []), w)"
    by (rule reorg_walk_found) simp
  moreover have "rewind_to (chb_reference (tip_block g)) g = Inr g" by (simp add: rewind_to_def tip_block_def)
  moreover obtain g' where "graph_extend ?h g = Inr g'" using c by (simp add: extend_Inr tip_block_def)
  ultimately show ?thesis
    by (simp add: to_heaviest_def handle_reorg_def finish_reorg_def bindR_def Let_def)
qed

lemma rollback_weighed: "weighed rollback_ledger example_work (example_work (BlockHash [0])) (example_block bs)"
  if "bs \<in> {[0], [1, 0], [7, 1, 0]}"
  using that
  by (auto simp: weighed_def ledger_block_def rollback_ledger_def example_work_def height_ok_iff)
    (simp_all add: example_block_def)

lemma rollback_graph_weighed:
  "graph_weighed rollback_ledger example_work (example_work (BlockHash [0])) rollback_graph"
  "tip_block rollback_graph = example_block [7, 1, 0]"
  "best_chain rollback_graph = [example_block [0], example_block [1, 0], example_block [7, 1, 0]]"
proof -
  note g = extend_weighed [OF initial_weighed [OF rollback_weighed] rollback_weighed example_graph_extend]
  have "child_of (tip_block example_graph) (example_block [7, 1, 0])"
    using example_child [of "[0]" 1 7] by (simp add: example_graph_tip)
  then obtain g' where "graph_extend (example_block [7, 1, 0]) example_graph = Inr g'"
    by (simp add: extend_Inr tip_block_def)
  then have e: "graph_extend (example_block [7, 1, 0]) example_graph = Inr rollback_graph"
    by (simp add: rollback_graph_def)
  show "graph_weighed rollback_ledger example_work (example_work (BlockHash [0])) rollback_graph"
    "tip_block rollback_graph = example_block [7, 1, 0]"
    "best_chain rollback_graph = [example_block [0], example_block [1, 0], example_block [7, 1, 0]]"
    using extend_weighed [OF g(1) rollback_weighed e] by (simp_all add: example_graph_chain)
qed

lemma rollback_source:
  "serves_chain (example_source (example_chain [0, 1])) (example_chain [0, 1])"
  "serves_ledger rollback_ledger example_work (example_source (example_chain [0, 1]))"
  "honours_height (example_source (example_chain [0, 1]))"
  "work_fits example_work (example_chain [0, 1])"
  "head_ok rollback_ledger example_work rollback_head"
  "meets_at rollback_graph (example_chain [0, 1]) 100 0"
proof -
  show "serves_chain (example_source (example_chain [0, 1])) (example_chain [0, 1])"
    "honours_height (example_source (example_chain [0, 1]))" "work_fits example_work (example_chain [0, 1])"
    by (simp_all add: example_serves_chain example_honours_height example_work_fits)
  have "served rollback_ledger example_work blk" if "blk \<in> set (example_chain [0, 1])" for blk
    using that example_chain_served [OF that, of 2]
    by (auto simp: served_def rollback_ledger_def bounded_ledger_def example_chain_def)
  then show "serves_ledger rollback_ledger example_work (example_source (example_chain [0, 1]))"
    unfolding serves_ledger_def by (metis example_source_get nth_mem)
  show "head_ok rollback_ledger example_work rollback_head"
    using rollback_graph_weighed(1) by (auto simp: head_ok_def rollback_head_def)
  have "is_on_best_chain rollback_graph (chb_reference (example_block [0]))"
    using on_best_chain_iff [OF graph_weighedD(2) [OF rollback_graph_weighed(1)]] by (simp add: rollback_graph_weighed(3))
  moreover have "br_height (best_tip rollback_graph) = Height 2"
    using rollback_graph_weighed(2) by (simp add: best_tip_def tip_block_def example_block_def)
  ultimately show "meets_at rollback_graph (example_chain [0, 1]) 100 0"
    by (simp add: meets_at_def example_block_def)
qed

lemma rollback_heaviest:
  assumes t: "graph_weighed rollback_ledger example_work base t"
    and tip: "best_tip t = blk_ref (example_raw [1, 0])" and keep: "block_by_hash t (BlockHash [7, 1, 0]) \<noteq> None"
  shows "child_of (tip_block t) (heaviest_block t)"
proof -
  let ?h = "heaviest_block t"
  have h: "weighed rollback_ledger example_work base ?h"
    using graph_weighedD(2,4) [OF t] heaviest_block_in mbs_blocks_iff by blast
  from keep obtain b where b: "block_by_hash t (BlockHash [7, 1, 0]) = Some b" by blast
  have bh: "chb_hash b = BlockHash [7, 1, 0]" by (rule block_by_hash_hash [OF graph_weighedD(2) [OF t] b])
  have "b \<in> set (mbs_blocks t)" using mbs_blocks_iff [OF graph_weighedD(2) [OF t]] b bh by simp
  from heaviest_block_max [OF this] have "unat (chw_raw (chb_work b)) \<le> unat (chw_raw (chb_work ?h))"
    by (simp add: less_eq_chain_head_work_def word_le_nat_alt)
  then have "example_work (BlockHash [7, 1, 0]) \<le> example_work (chb_hash ?h)"
    using h graph_weighedD(4) [OF t b] unfolding weighed_def bh by linarith
  moreover have "rollback_ledger (chb_hash ?h) = Some (hnat (chb_height ?h), chb_parent_hash ?h)"
    using h by (simp add: weighed_def ledger_block_def)
  ultimately have "hnat (chb_height ?h) = 2" "chb_parent_hash ?h = BlockHash [1, 0]"
    by (auto simp: rollback_ledger_def example_work_def split: if_splits)
  moreover have "chb_hash (tip_block t) = BlockHash [1, 0]" "hnat (chb_height (tip_block t)) = 1"
    using tip by (simp_all add: best_tip_def tip_block_def chb_hash_def chb_height_def)
  ultimately show ?thesis by (simp add: child_of_def height_checked_add_one height_ok_iff)
qed

lemma rollback_tick:
  "\<exists>s'. tick (example_source (example_chain [0, 1])) rollback_head () = Some (Inr (), s', ())"
proof -
  let ?src = "example_source (example_chain [0, 1])" and ?C = "example_chain [0, 1]" and ?cfg = "chs_config rollback_head"
  have tip: "best_tip rollback_graph = \<lparr>br_hash = BlockHash [7, 1, 0], br_height = Height 2\<rparr>"
    using rollback_graph_weighed(2) by (simp add: best_tip_def tip_block_def example_block_def)
  have top: "last ?C = example_raw [1, 0]" by (simp add: last_conv_nth)
  have cfg: "chc_max_depth ?cfg = 100" by (simp add: rollback_head_def example_head_def example_config_def)
  have start: "start_graph ?src ?cfg rollback_graph (chain_top ?C) () = (Inr rollback_graph, ())"
    by (simp add: start_graph_def Let_def tip top cfg height_below_def height_less_iff hnat_saturating_sub)
  have ext: "extend_to ?src ?cfg (chain_top ?C) rollback_graph () = Some (Inr rollback_graph, ())"
    by (subst extend_to.simps) (simp add: tip top)
  obtain g where det: "check_for_nonhigher_reorgs ?src ?cfg rollback_graph () = Some (Inr g, ())"
    and g: "graph_weighed rollback_ledger example_work (example_work (BlockHash [0])) g" "best_tip g = blk_ref (last ?C)"
    unfolding check_for_nonhigher_reorgs_def
    using detect_reorg_succeeds [OF rollback_source(1,2,4) rollback_graph_weighed(1), of ?cfg 0 "br_height (best_tip rollback_graph)" "()"]
      rollback_source(6) cfg tip by auto
  have "retains rollback_graph g"
    using detect_reorg_spec [OF rollback_source(2)] det rollback_graph_weighed(1)
    by (auto simp: check_for_nonhigher_reorgs_def detect_post_def graph_keeps_def)
  then have keep: "block_by_hash g (BlockHash [7, 1, 0]) \<noteq> None"
    using rollback_graph_weighed(2) by (auto simp: retains_def block_by_hash_def tip_block_def)
  let ?t = "remove_finalised_blocks (trim_floor ?cfg (chs_horizon rollback_head) g) g"
  have "trim_floor ?cfg (chs_horizon rollback_head) g = GENESIS"
    by (simp add: trim_floor_def rollback_head_def example_head_def retention_floor_def horizon_durable_def seam_new_def)
  then have bt: "block_by_hash ?t k = block_by_hash g k" for k
    using trim_view(2) [OF graph_weighedD(2) [OF g(1)], of GENESIS k]
    by (auto simp: block_by_hash_def height_le_iff split: option.splits)
  have "child_of (tip_block ?t) (heaviest_block ?t)"
    by (rule rollback_heaviest [OF trim_weighed [OF g(1)]]) (use g(2) keep bt top in \<open>simp_all add: best_tip_def\<close>)
  from to_heaviest_child [OF trim_weighed [OF g(1)] this, of ?src ?cfg "()"]
  obtain g' where "to_heaviest ?src ?cfg ?t () = Some (Inr g', ())" by blast
  with start ext det have "next_graph ?src ?cfg rollback_graph (chain_top ?C) (chs_horizon rollback_head) ()
      = Some (Inr g', publish_horizon ?t (chs_horizon rollback_head), ())" by (simp add: next_graph_def Let_def)
  then show ?thesis
    using tip top by (auto simp: tick_def chain_tip_of_source_def example_source_def rollback_head_def Let_def)
qed

theorem rollback_undone_witness:
  "\<exists>s'. tick (example_source (example_chain [0, 1])) rollback_head () = Some (Inr (), s', ())
     \<and> src_get_chain_tip (example_source (example_chain [0, 1])) () = (Inr (BlockHash [1, 0], Height 1), ())
     \<and> best_tip (chs_current s') \<noteq> \<lparr>br_hash = BlockHash [1, 0], br_height = Height 1\<rparr>
     \<and> nas_load (chs_status s') = Ready"
proof -
  obtain s' where s': "tick (example_source (example_chain [0, 1])) rollback_head () = Some (Inr (), s', ())"
    using rollback_tick by blast
  have last: "last (example_chain [0, 1]) = example_raw [1, 0]" by (simp add: last_conv_nth)
  have tip: "best_tip rollback_graph = \<lparr>br_hash = BlockHash [7, 1, 0], br_height = Height 2\<rparr>"
    using rollback_graph_weighed(2) by (simp add: best_tip_def tip_block_def example_block_def)
  have head: "chs_current rollback_head = rollback_graph" "chs_config rollback_head = example_config"
    "chs_horizon rollback_head = seam_new 100 10" "nas_load (chs_status rollback_head) = Syncing"
    by (simp_all add: rollback_head_def example_head_def)
  have k: "block_by_hash (chs_current rollback_head) (BlockHash [7, 1, 0]) \<noteq> None"
    using tip by (simp add: head block_by_hash_def best_tip_def chb_hash_def)
  have "best_tip (chs_current s') \<noteq> blk_ref (last (example_chain [0, 1])) \<and> nas_load (chs_status s') = Ready"
    using rollback_undone [OF rollback_source(1-3,5) s' _ _ k]
    by (simp add: head last tip horizon_durable_def seam_new_def height_less_iff height_below_def hnat_saturating_sub
        example_config_def example_work_def)
  with s' last show ?thesis by (simp add: example_source_def)
qed

text \<open>C2. What a run publishes. Whatever the validator answers (as long as the blocks it serves are
  entries of one ledger and each height's block has that height), and however passes of the
  loop, commits of the durable tier and shutdowns interleave, the published snapshot is a graph
  with the graph invariants, the epoch sent to subscribers is the epoch of that snapshot, and
  the retained blocks weigh the true cumulative work of their chains above one common base.\<close>

theorem head_run_publishes:
  assumes "serves_ledger L W src" and "honours_height src" and "head_run src d m r iss"
  shows "graph_run L (chs_current (run_service r))
    \<and> chs_updates (run_service r) = epoch (chs_current (run_service r))
    \<and> (\<exists>base. \<forall>k b. block_by_hash (chs_current (run_service r)) k = Some b
        \<longrightarrow> int (unat (chw_raw (chb_work b))) = W k - base)"
proof -
  obtain a where a: "graph_weighed L W (W a) (chs_current (run_service r))"
    and u: "chs_updates (run_service r) = epoch (chs_current (run_service r))"
    using head_run_ok [OF assms] by (auto simp: head_ok_def)
  have "int (unat (chw_raw (chb_work b))) = W k - W a" if "block_by_hash (chs_current (run_service r)) k = Some b" for k b
    using graph_weighedD(4) [OF a that] block_by_hash_hash [OF graph_weighedD(2) [OF a] that] by (simp add: weighed_def)
  with graph_weighedD(1) [OF a] u show ?thesis by blast
qed

lemma example_anchored: "\<exists>s. anchored (example_source (example_chain [0, 1])) example_config (seam_new 100 10) () = (Inr s, ())
    \<and> chs_horizon s = seam_new 100 10"
  by (auto simp: anchored_def anchor_def bindR_def chain_tip_of_source_def example_source_def tree_roots_at_def
      make_chain_head_block_def Let_def example_config_def height_below_def height_saturating_sub_def saturating_sub_def
      last_conv_nth word_le_nat_alt)

lemma example_run:
  "\<exists>s. head_run (example_source (example_chain [0, 1])) 100 10
     \<lparr>run_service = s, run_announced_ready = False, run_reports = []\<rparr> []"
  using example_anchored head_run.start by fast

lemmas example_run_source =
  example_serves_ledger [of "[0, 1]" 2] example_honours_height [of "[0, 1]"]

theorem head_run_publishes_witness:
  "\<exists>r. head_run (example_source (example_chain [0, 1])) 100 10 r []
     \<and> graph_run (bounded_ledger 2) (chs_current (run_service r))
     \<and> chs_updates (run_service r) = epoch (chs_current (run_service r))"
proof -
  obtain r where r: "head_run (example_source (example_chain [0, 1])) 100 10 r []" using example_run by blast
  from head_run_publishes [OF example_run_source r] r show ?thesis by auto
qed



text \<open>C29. Every outcome of a tick. A failed tick leaves the published snapshot, the epoch channel,
  the status and the configuration as they were; only the horizon may have moved. A
  successful tick makes the status \<open>Ready\<close>, unless the head is closing, and sends an epoch exactly
  when the tip changed: its generation is one above the last one sent, saturating; otherwise
  the snapshot keeps the previous generation.\<close>

theorem tick_outcome:
  assumes "tick src s w = Some (r, s', w')"
  shows "case r of
      Inl e \<Rightarrow> s' = s\<lparr>chs_horizon := chs_horizon s'\<rparr>
    | Inr _ \<Rightarrow> chs_config s' = chs_config s
        \<and> nas_load (chs_status s') = (if nas_load (chs_status s) = Closing then Closing else Ready)
        \<and> (if best_tip (chs_current s') = best_tip (chs_current s)
           then chs_updates s' = chs_updates s \<and> mbs_generation (chs_current s') = mbs_generation (chs_current s)
           else chs_updates s' = epoch (chs_current s')
             \<and> unat (cse_generation (chs_updates s')) = min (Suc (unat (cse_generation (chs_updates s)))) (2 ^ 64 - 1))"
proof -
  have st: "next_status x Advanced = (if x = Closing then Closing else Ready)" for x by (cases x) simp_all
  from assms show ?thesis
  proof (cases rule: tick_cases)
    case (advanced k h w1 g hz)
    then show ?thesis
      by (auto simp: st mark_fresh_def chs_apply_status_def epoch_def stamp_generation_def best_tip_def unat_saturating_add)
  qed (auto simp: st)
qed

lemma extend_generation: "graph_extend b g = Inr g' \<Longrightarrow> mbs_generation g' = mbs_generation g"
  by (auto simp: extend_Inr)

theorem tick_outcome_witness:
  "\<exists>s'. tick (example_source (example_chain [0, 2, 3])) example_head () = Some (Inr (), s', ())
     \<and> chs_updates s' = epoch (chs_current s') \<and> unat (cse_generation (chs_updates s')) = 1"
proof -
  obtain s' where s': "tick (example_source (example_chain [0, 2, 3])) example_head () = Some (Inr (), s', ())"
    and tip: "best_tip (chs_current s') = \<lparr>br_hash = BlockHash [3, 2, 0], br_height = Height 2\<rparr>"
    using tick_succeeds [OF example_tick_hypotheses(1,2,4-8), of "()"] unfolding example_last by auto
  have "mbs_generation example_graph = 0"
    using extend_generation [OF example_graph_extend] by (simp add: from_initial_block_def)
  then have "cse_generation (chs_updates example_head) = 0" by (simp add: example_head_def epoch_def)
  moreover have "best_tip (chs_current s') \<noteq> best_tip (chs_current example_head)"
    using tip by (simp add: example_head_def example_graph_best_tip)
  ultimately show ?thesis using tick_outcome [OF s'] s' by auto
qed

text \<open>C18. A tick returns: for every graph, every world and whatever the validator answers, as long as
  the block it serves for a height has that height and the configured depth is below the
  largest machine word (at which the walk's saturating counter could never pass it).\<close>

theorem tick_returns:
  assumes "honours_height src" and "chc_max_depth (chs_config s) < 0xFFFFFFFF"
  shows "\<exists>r s' w'. tick src s w = Some (r, s', w')"
proof -
  obtain x w1 where x: "src_get_chain_tip src w = (x, w1)" by force
  show ?thesis
  proof (cases x)
    case (Inl e)
    then show ?thesis using x by (simp add: tick_def chain_tip_of_source_def)
  next
    case (Inr kh)
    then obtain k h where kh: "x = Inr (k, h)" by (cases kh) auto
    then have "height_ok h" using assms(1) x unfolding honours_height_def by blast
    then obtain y hz w2 where "next_graph src (chs_config s) (chs_current s) h (chs_horizon s) w1 = Some (y, hz, w2)"
      using next_graph_returns [OF assms] by fastforce
    with x kh show ?thesis by (cases y) (auto simp: tick_def chain_tip_of_source_def Let_def)
  qed
qed

theorem tick_returns_witness:
  "honours_height (example_source (example_chain [0, 2, 3]))
   \<and> (\<exists>r s' w'. tick (example_source (example_chain [0, 2, 3])) example_head () = Some (r, s', w'))"
  using tick_returns [OF example_tick_hypotheses(3,6), of "()"] example_tick_hypotheses(3) by simp

text \<open>C19. The seam stays closed. A successful tick that does not re-anchor drops nothing above the
  durable tier's watermark less the overlap: the lowest canonical height afterwards is at most
  the larger of the one before and the retention floor (genesis while the durable tier holds
  nothing), and if no height was above the watermark and below the window before, none is
  after.\<close>

theorem tick_keeps_seam_closed:
  assumes "serves_ledger L W src" and "honours_height src" and "head_ok L W s"
    and "tick src s w = Some (Inr (), s', w')" and "src_get_chain_tip src w = (Inr (k, h), w1)"
    and "\<not> br_height (best_tip (chs_current s)) < height_below h (chc_max_depth (chs_config s))"
  shows "horizon_durable (chs_horizon s') = horizon_durable (chs_horizon s)
    \<and> hnat (lowest (chs_current s')) \<le> max (hnat (lowest (chs_current s)))
        (case retention_floor (chs_horizon s) of None \<Rightarrow> 0 | Some f \<Rightarrow> hnat f)
    \<and> (seam_closed (chs_horizon s) (chs_current s) \<longrightarrow> seam_closed (chs_horizon s') (chs_current s'))"
proof -
  obtain a where a: "graph_weighed L W (W a) (chs_current s)" using assms(3) by (auto simp: head_ok_def)
  have "horizon_durable (chs_horizon s') = horizon_durable (chs_horizon s)
    \<and> hnat (lowest (chs_current s')) \<le> max (hnat (lowest (chs_current s)))
        (case retention_floor (chs_horizon s) of None \<Rightarrow> 0 | Some f \<Rightarrow> hnat f)"
    using assms(4)
  proof (cases rule: tick_cases)
    case (advanced k' h' w2 g hz)
    with assms(5) have "next_graph src (chs_config s) (chs_current s) h (chs_horizon s) w1 = Some (Inr g, hz, w')" by simp
    from next_graph_lowest [OF assms(1,2) a this] advanced(4) assms(6) show ?thesis by simp
  qed simp_all
  then show ?thesis
    by (auto simp: seam_closed_def retention_floor_def hnat_saturating_sub split: option.splits)
qed

theorem tick_keeps_seam_closed_witness:
  "\<exists>s'. tick (example_source (example_chain [0, 2, 3])) example_head () = Some (Inr (), s', ())
     \<and> lowest (chs_current s') = GENESIS"
proof -
  obtain s' where s': "tick (example_source (example_chain [0, 2, 3])) example_head () = Some (Inr (), s', ())"
    using tick_succeeds [OF example_tick_hypotheses(1,2,4-8), of "()"] by auto
  have "src_get_chain_tip (example_source (example_chain [0, 2, 3])) () = (Inr (BlockHash [3, 2, 0], Height 2), ())"
    by (simp add: example_source_def last_conv_nth)
  from tick_keeps_seam_closed [OF example_tick_hypotheses(2,3) example_head_ok s' this] s' show ?thesis
    by (auto simp: example_head_def example_config_def example_graph_best_tip height_less_iff height_below_def
        hnat_saturating_sub lowest_def example_graph_chain retention_floor_def horizon_durable_def seam_new_def
        GENESIS_def simp flip: hnat_inject)
qed

text \<open>C32. Re-anchoring can open the seam. When the validator's chain has moved further than the
  configured depth beyond the writer's tip, a successful tick drops everything below the new
  anchor whatever the durable tier holds; if the watermark is more than one below the anchor,
  the heights between are served by neither tier.\<close>

theorem reanchor_opens_seam:
  assumes "serves_ledger L W src" and "honours_height src" and "head_ok L W s"
    and "tick src s w = Some (Inr (), s', w')" and "src_get_chain_tip src w = (Inr (k, h), w1)"
    and "br_height (best_tip (chs_current s)) < height_below h (chc_max_depth (chs_config s))"
    and "horizon_durable (chs_horizon s) = Some c"
    and "Suc (hnat (committed_height c)) < hnat (height_below h (chc_max_depth (chs_config s)))"
  shows "\<not> seam_closed (chs_horizon s') (chs_current s')"
proof -
  obtain a where a: "graph_weighed L W (W a) (chs_current s)" using assms(3) by (auto simp: head_ok_def)
  show ?thesis
    using assms(4)
  proof (cases rule: tick_cases)
    case (steady k' h' w2)
    with assms(5,6) show ?thesis by (simp add: height_less_iff height_below_def hnat_saturating_sub)
  next
    case (advanced k' h' w2 g hz)
    with assms(5) have "next_graph src (chs_config s) (chs_current s) h (chs_horizon s) w1 = Some (Inr g, hz, w')" by simp
    from next_graph_lowest [OF assms(1,2) a this] advanced(4) assms(6-8) show ?thesis
      by (simp add: seam_closed_def height_le_iff)
  qed simp_all
qed

definition reanchor_head :: chain_head_service where
  "reanchor_head = example_head\<lparr>chs_config := \<lparr>chc_max_depth = 1, chc_poll_interval_ms = 1000\<rparr>,
     chs_horizon := (seam_new 1 10)\<lparr>seam_released := Some \<lparr>released_height = Height 0, released_hash = BlockHash [0]\<rparr>,
       seam_committed := Some \<lparr>committed_height = Height 0\<rparr>\<rparr>\<rparr>"

theorem reanchor_opens_seam_witness:
  "\<exists>s'. tick (example_source (example_chain [0, 2, 3, 4])) reanchor_head () = Some (Inr (), s', ())
     \<and> seam_closed (chs_horizon reanchor_head) (chs_current reanchor_head)
     \<and> \<not> seam_closed (chs_horizon s') (chs_current s')"
proof -
  let ?C = "example_chain [0, 2, 3, 4]" and ?s = reanchor_head
  have last: "last ?C = example_raw [4, 3, 2, 0]" by (simp add: last_conv_nth)
  have src: "serves_chain (example_source ?C) ?C" "serves_ledger (bounded_ledger 4) example_work (example_source ?C)"
    "work_fits example_work ?C" "honours_height (example_source ?C)"
    by (simp_all add: example_serves_chain example_serves_ledger example_honours_height example_work_fits)
  have s: "chs_current ?s = example_graph" "chc_max_depth (chs_config ?s) = 1"
    "horizon_durable (chs_horizon ?s) = Some \<lparr>committed_height = Height 0\<rparr>" "chs_updates ?s = epoch example_graph"
    by (simp_all add: reanchor_head_def example_head_def horizon_durable_def seam_new_def)
  have g: "graph_weighed (bounded_ledger 4) example_work (example_work (BlockHash [0])) (chs_current ?s)"
    using example_graph_weighed [of 4] by (simp add: s)
  have top: "chain_top ?C = Height 3" by (simp add: last)
  have far: "br_height (best_tip (chs_current ?s)) < height_below (Height 3) (chc_max_depth (chs_config ?s))"
    by (simp add: s example_graph_best_tip height_less_iff height_below_def hnat_saturating_sub)
  have max: "\<forall>k. bounded_ledger 4 k \<noteq> None \<longrightarrow> example_work k \<le> example_work (blk_hash (last ?C))"
    using bounded_ledger_max [of "[0, 2, 3, 4]" 4] by simp
  obtain s' where s': "tick (example_source ?C) ?s () = Some (Inr (), s', ())"
    using tick_succeeds [OF src(1-3) g, of 0 "()"] far max by (auto simp: s top)
  have tip: "src_get_chain_tip (example_source ?C) () = (Inr (BlockHash [4, 3, 2, 0], Height 3), ())"
    by (simp add: example_source_def last)
  have "head_ok (bounded_ledger 4) example_work ?s" using g by (auto simp: head_ok_def s)
  from reanchor_opens_seam [OF src(2,4) this s' tip far s(3)] have "\<not> seam_closed (chs_horizon s') (chs_current s')"
    by (simp add: s height_below_def hnat_saturating_sub)
  moreover have "seam_closed (chs_horizon ?s) (chs_current ?s)"
    by (simp add: seam_closed_def s lowest_def example_graph_chain)
  ultimately show ?thesis using s' by blast
qed

definition reports_ok :: "run_state \<Rightarrow> bool" where
  "reports_ok r \<longleftrightarrow> (run_announced_ready r \<longleftrightarrow> run_reports r \<noteq> [])
     \<and> (run_reports r \<noteq> [] \<longrightarrow> hd (run_reports r) = ReportReady \<and> ReportReady \<notin> set (tl (run_reports r)))"

lemma after_wait_reports: "(flow, r') = after_wait c r \<Longrightarrow> reports_ok r' = reports_ok r"
  by (auto simp: after_wait_def run_closing_def reports_ok_def split: if_splits)

lemma run_iteration_reports:
  assumes "run_iteration src c r w = Some (flow, r', w')" and "reports_ok r"
  shows "reports_ok r'"
  using assms(1)
proof (cases rule: run_iteration_cases)
  case (cancelled hz)
  with assms(2) show ?thesis by (simp add: run_closing_def reports_ok_def)
next
  case (ok s reports)
  with assms(2) show ?thesis
    unfolding after_wait_reports [OF ok(3)] by (cases "run_reports r") (auto simp: reports_ok_def)
next
  case (err s e)
  with assms(2) show ?thesis unfolding after_wait_reports [OF err(2)] by (simp add: reports_ok_def)
qed

lemma head_run_reports: "head_run src d m r iss \<Longrightarrow> reports_ok r"
proof (induction rule: head_run.induct)
  case (pass r iss c w flow r' w')
  show ?case by (rule run_iteration_reports [OF pass(2) pass.IH])
qed (simp_all add: reports_ok_def run_closing_def)

lemma run_iteration_flow:
  "run_iteration src c r w = Some (flow, r', w') \<Longrightarrow> flow = BreakLoop \<longleftrightarrow> c \<noteq> NotCancelled"
  by (cases c) (auto simp: run_iteration_def after_wait_def Let_def split: if_splits option.splits sum.splits)

lemma run_closing_status [simp]: "nas_load (chs_status (run_service (run_closing r))) = Closing"
  by (simp add: run_closing_def shutdown_def)

lemma after_wait_status:
  "(flow, r') = after_wait c r \<Longrightarrow> nas_load (chs_status (run_service r')) =
    (if flow = BreakLoop then Closing else nas_load (chs_status (run_service r)))"
  by (auto simp: after_wait_def split: if_splits)

lemma tick_closing:
  assumes "tick src s w = Some (x, s', w')" and "nas_load (chs_status s) = Closing"
  shows "nas_load (chs_status s') = Closing"
  using assms(1)
proof (cases rule: tick_cases)
  case (advanced k h w1 g hz)
  with assms(2) show ?thesis by (simp add: mark_fresh_def chs_apply_status_def)
qed (use assms(2) in simp_all)

lemma run_iteration_closing:
  assumes "run_iteration src c r w = Some (flow, r', w')"
    and "flow = BreakLoop \<or> nas_load (chs_status (run_service r)) = Closing"
  shows "nas_load (chs_status (run_service r')) = Closing"
  using assms(1)
proof (cases rule: run_iteration_cases)
  case (ok s reports)
  then show ?thesis using after_wait_status [OF ok(3)] tick_closing [OF ok(1)] assms(2) by auto
next
  case (err s e)
  then show ?thesis using after_wait_status [OF err(2)] tick_closing [OF err(1)] assms(2)
    by (auto simp: chs_apply_status_def)
qed simp

text \<open>C30. The run loop's contract. Readiness is reported exactly once, before any progress, by the
  first pass whose tick succeeds. A pass leaves the loop exactly when it is cancelled, and then
  the status is \<open>Closing\<close>; and once the status is \<open>Closing\<close> no later pass changes it.\<close>

theorem run_loop_contract:
  assumes "head_run src d m r iss" and "run_iteration src c r w = Some (flow, r', w')"
  shows "(run_announced_ready r' \<longleftrightarrow> run_reports r' \<noteq> [])
    \<and> (run_reports r' \<noteq> [] \<longrightarrow> hd (run_reports r') = ReportReady \<and> ReportReady \<notin> set (tl (run_reports r')))
    \<and> (flow = BreakLoop \<longleftrightarrow> c \<noteq> NotCancelled)
    \<and> (flow = BreakLoop \<or> nas_load (chs_status (run_service r)) = Closing
        \<longrightarrow> nas_load (chs_status (run_service r')) = Closing)"
  using run_iteration_reports [OF assms(2) head_run_reports [OF assms(1)]] run_iteration_flow [OF assms(2)]
    run_iteration_closing [OF assms(2)]
  unfolding reports_ok_def by blast

theorem run_loop_contract_witness:
  "\<exists>r r'. head_run (example_source (example_chain [0, 1])) 100 10 r []
     \<and> run_iteration (example_source (example_chain [0, 1])) CancelledBefore r () = Some (BreakLoop, r', ())
     \<and> run_reports r' = [] \<and> nas_load (chs_status (run_service r')) = Closing"
proof -
  obtain s where r: "head_run (example_source (example_chain [0, 1])) 100 10
      \<lparr>run_service = s, run_announced_ready = False, run_reports = []\<rparr> []"
    using example_run by blast
  have "run_iteration (example_source (example_chain [0, 1])) CancelledBefore
      \<lparr>run_service = s, run_announced_ready = False, run_reports = []\<rparr> ()
    = Some (BreakLoop, run_closing \<lparr>run_service = s, run_announced_ready = False, run_reports = []\<rparr>, ())"
    by (simp add: run_iteration_def)
  from run_loop_contract [OF r this] this r show ?thesis by (auto simp: run_closing_def)
qed

end
