(* ===== verification/Zaino_Encoding.thy ===== *)
theory Zaino_Encoding
  imports Zaino_Prelude
begin

text \<open>
  The byte encodings of \<^verbatim>\<open>zaino-encoding/src/lib.rs\<close>.

  A reader takes the bytes still to be read and gives a value with the bytes it left, or an
  input/output error. A writer gives the bytes it appends: every caller writes into a
  \<^verbatim>\<open>Vec<u8>\<close>, whose \<^verbatim>\<open>write_all\<close> does not fail, so an encoder fails only where the
  source makes the error itself. A Rust panic is the distinguished error \<open>Panic\<close>. A
  \<^verbatim>\<open>usize\<close> has 64 bits. The trait \<^verbatim>\<open>ZainoVersionedSerde\<close> is a record of its
  required items, and its provided methods are functions of that record.

  The locale \<open>codec\<close> is the contract of one encoder and decoder pair (reading back what was
  written, and well-formedness of what is read); \<open>versioned_serde\<close> is the contract of a
  versioned record, including what the store relies on for rows written by older versions.
  The property shown here is that the compact size reader accepts exactly the canonical
  encodings of the sizes up to its bound.
\<close>

named_theorems codec_simps \<open>reading back what was written\<close>

section \<open>Readers and writers\<close>

datatype io_error = UnexpectedEof | InvalidInput string | InvalidData string | Panic string

type_synonym 'a reader = "u8 list \<Rightarrow> io_error + 'a \<times> u8 list"

definition rpure :: "'a \<Rightarrow> 'a reader" where
  "rpure x bs = Inr (x, bs)"

definition rfail :: "io_error \<Rightarrow> 'a reader" where
  "rfail e bs = Inl e"

definition rbind :: "'a reader \<Rightarrow> ('a \<Rightarrow> 'b reader) \<Rightarrow> 'b reader" where
  "rbind r f bs = bindE (r bs) (\<lambda>(x, rest). f x rest)"

definition read_exact :: "nat \<Rightarrow> u8 list reader" where
  "read_exact n bs = (if n \<le> length bs then Inr (take n bs, drop n bs) else Inl UnexpectedEof)"

text \<open>A sequence of writes, each followed by the question mark: the first error ends it.\<close>

fun writes :: "(io_error + u8 list) list \<Rightarrow> io_error + u8 list" where
  "writes [] = Inr []"
| "writes (w # ws) = bindE w (\<lambda>bs. bindE (writes ws) (\<lambda>rest. Inr (bs @ rest)))"

text \<open>A number as a format string prints it.\<close>

fun show_nat :: "nat \<Rightarrow> string" where
  "show_nat n = (if n < 10 then [char_of (48 + n)] else show_nat (n div 10) @ [char_of (48 + n mod 10)])"

declare show_nat.simps [simp del]

lemma reader_simps [simp]:
  "rpure x bs = Inr (x, bs)"
  "rfail e bs = Inl e"
  by (simp_all add: rpure_def rfail_def)

lemma rbind_Inr [simp]: "r bs = Inr (x, rest) \<Longrightarrow> rbind r f bs = f x rest"
  by (simp add: rbind_def)

lemma rbind_eq_Inr [result_simps]:
  "rbind r f bs = Inr (y, rest) \<longleftrightarrow> (\<exists>x mid. r bs = Inr (x, mid) \<and> f x mid = Inr (y, rest))"
  by (auto simp: rbind_def bindE_eq_Inr)

lemma read_exact_append [codec_simps]: "length xs = n \<Longrightarrow> read_exact n (xs @ rest) = Inr (xs, rest)"
  by (simp add: read_exact_def)

lemma read_exact_Cons [codec_simps]: "read_exact (Suc 0) (x # rest) = Inr ([x], rest)"
  by (simp add: read_exact_def)

lemma read_exact_eq_Inr [result_simps]:
  "read_exact n bs = Inr (xs, rest) \<longleftrightarrow> length xs = n \<and> bs = xs @ rest"
  by (auto simp: read_exact_def)

lemma read_exact_1_eq_Inr:
  "read_exact 1 bs = Inr (xs, rest) \<longleftrightarrow> (\<exists>b. xs = [b] \<and> bs = b # rest)"
  by (auto simp: read_exact_eq_Inr length_Suc_conv)

section \<open>Compact sizes\<close>

definition MAX_COMPACT_SIZE :: u32 where "MAX_COMPACT_SIZE = 0x02000000"

definition compact_size_read :: "u64 reader" where
  "compact_size_read =
     rbind (read_exact 1) (\<lambda>flag_bytes.
       let flag = flag_bytes ! 0 in
       rbind
         (if flag < 253 then rpure (ucast flag)
          else if flag = 253 then
            rbind (read_exact 2) (\<lambda>bytes.
              let n = from_le bytes :: u16
              in if n < 253 then rfail (InvalidInput ''non-canonical CompactSize'') else rpure (ucast n))
          else if flag = 254 then
            rbind (read_exact 4) (\<lambda>bytes.
              let n = from_le bytes :: u32
              in if n < 0x10000 then rfail (InvalidInput ''non-canonical CompactSize'') else rpure (ucast n))
          else
            rbind (read_exact 8) (\<lambda>bytes.
              let n = from_le bytes :: u64
              in if n < 0x100000000 then rfail (InvalidInput ''non-canonical CompactSize'') else rpure n))
         (\<lambda>result. if result > ucast MAX_COMPACT_SIZE then rfail (InvalidInput ''CompactSize too large'')
                    else rpure result))"

text \<open>\<^verbatim>\<open>T::try_from(n)\<close> is the argument: the target type's checked conversion.\<close>

definition compact_size_read_t :: "(u64 \<Rightarrow> 'a option) \<Rightarrow> 'a reader" where
  "compact_size_read_t try_from =
     rbind compact_size_read (\<lambda>n.
       case try_from n of
         None \<Rightarrow> rfail (InvalidInput ''CompactSize value exceeds range of target type.'')
       | Some t \<Rightarrow> rpure t)"

definition compact_size_write :: "u64 \<Rightarrow> u8 list" where
  "compact_size_write sz =
     (if sz < 253 then [ucast sz]
      else if sz \<le> 0xFFFF then 253 # to_le 2 (ucast sz :: u16)
      else if sz \<le> 0xFFFFFFFF then 254 # to_le 4 (ucast sz :: u32)
      else 255 # to_le 8 sz)"

definition serialized_size :: "u64 \<Rightarrow> nat" where
  "serialized_size sz =
     (if sz < 253 then 1 else if sz \<le> 0xFFFF then 3 else if sz \<le> 0xFFFFFFFF then 5 else 9)"

section \<open>Integers and fixed arrays\<close>

definition read_u8 :: "u8 reader" where
  "read_u8 = rbind (read_exact 1) (\<lambda>buf. rpure (buf ! 0))"

definition write_u8 :: "u8 \<Rightarrow> u8 list" where "write_u8 v = [v]"

definition read_u16_le :: "u16 reader" where "read_u16_le = rbind (read_exact 2) (\<lambda>buf. rpure (from_le buf))"
definition read_u16_be :: "u16 reader" where "read_u16_be = rbind (read_exact 2) (\<lambda>buf. rpure (from_be buf))"
definition write_u16_le :: "u16 \<Rightarrow> u8 list" where "write_u16_le v = to_le 2 v"
definition write_u16_be :: "u16 \<Rightarrow> u8 list" where "write_u16_be v = to_be 2 v"

definition read_u32_le :: "u32 reader" where "read_u32_le = rbind (read_exact 4) (\<lambda>buf. rpure (from_le buf))"
definition read_u32_be :: "u32 reader" where "read_u32_be = rbind (read_exact 4) (\<lambda>buf. rpure (from_be buf))"
definition write_u32_le :: "u32 \<Rightarrow> u8 list" where "write_u32_le v = to_le 4 v"
definition write_u32_be :: "u32 \<Rightarrow> u8 list" where "write_u32_be v = to_be 4 v"

definition read_u64_le :: "u64 reader" where "read_u64_le = rbind (read_exact 8) (\<lambda>buf. rpure (from_le buf))"
definition read_u64_be :: "u64 reader" where "read_u64_be = rbind (read_exact 8) (\<lambda>buf. rpure (from_be buf))"
definition write_u64_le :: "u64 \<Rightarrow> u8 list" where "write_u64_le v = to_le 8 v"
definition write_u64_be :: "u64 \<Rightarrow> u8 list" where "write_u64_be v = to_be 8 v"

text \<open>An \<^verbatim>\<open>i64\<close> is its 64-bit pattern.\<close>

definition read_i64_le :: "64 word reader" where "read_i64_le = rbind (read_exact 8) (\<lambda>buf. rpure (from_le buf))"
definition read_i64_be :: "64 word reader" where "read_i64_be = rbind (read_exact 8) (\<lambda>buf. rpure (from_be buf))"
definition write_i64_le :: "64 word \<Rightarrow> u8 list" where "write_i64_le v = to_le 8 v"
definition write_i64_be :: "64 word \<Rightarrow> u8 list" where "write_i64_be v = to_be 8 v"

text \<open>The length \<open>n\<close> is the const parameter \<^verbatim>\<open>N\<close>; an array argument has that length.\<close>

definition read_fixed_le :: "nat \<Rightarrow> u8 list reader" where "read_fixed_le n = read_exact n"
definition write_fixed_le :: "u8 list \<Rightarrow> u8 list" where "write_fixed_le bytes = bytes"
definition read_fixed_be :: "nat \<Rightarrow> u8 list reader" where
  "read_fixed_be n = rbind (read_exact n) (\<lambda>buf. rpure (rev buf))"
definition write_fixed_be :: "u8 list \<Rightarrow> u8 list" where "write_fixed_be bytes = rev bytes"

section \<open>Options and vectors\<close>

definition write_option :: "('a \<Rightarrow> io_error + u8 list) \<Rightarrow> 'a option \<Rightarrow> io_error + u8 list" where
  "write_option f value =
     (case value of None \<Rightarrow> Inr [0] | Some val \<Rightarrow> writes [Inr [1], f val])"

definition read_option :: "'a reader \<Rightarrow> 'a option reader" where
  "read_option f =
     rbind (read_exact 1) (\<lambda>flag.
       if flag ! 0 = 0 then rpure None
       else if flag ! 0 = 1 then rbind f (\<lambda>x. rpure (Some x))
       else rfail (InvalidData ''non-canonical Option tag''))"

definition write_vec :: "('a \<Rightarrow> io_error + u8 list) \<Rightarrow> 'a list \<Rightarrow> io_error + u8 list" where
  "write_vec f vec = writes (Inr (compact_size_write (of_nat (length vec))) # map f vec)"

fun read_items :: "nat \<Rightarrow> 'a reader \<Rightarrow> 'a list reader" where
  "read_items 0 f = rpure []"
| "read_items (Suc n) f = rbind f (\<lambda>x. rbind (read_items n f) (\<lambda>xs. rpure (x # xs)))"

definition read_vec :: "'a reader \<Rightarrow> 'a list reader" where
  "read_vec f = rbind compact_size_read (\<lambda>len. read_items (unat len) f)"

text \<open>\<^verbatim>\<open>collect\<close> into the container is the argument.\<close>

definition read_vec_into :: "('a list \<Rightarrow> 'c) \<Rightarrow> 'a reader \<Rightarrow> 'c reader" where
  "read_vec_into collect f =
     rbind compact_size_read (\<lambda>len. rbind (read_items (unat len) f) (\<lambda>xs. rpure (collect xs)))"

section \<open>Versioned records\<close>

definition V1 :: u8 where "V1 = 1"
definition V2 :: u8 where "V2 = 2"

record 'a serde =
  VERSION :: u8
  encode_latest :: "'a \<Rightarrow> io_error + u8 list"
  decode_latest :: "'a reader"
  encode_v1 :: "'a \<Rightarrow> io_error + u8 list"
  encode_v2 :: "'a \<Rightarrow> io_error + u8 list"
  decode_v1 :: "'a reader"
  decode_v2 :: "'a reader"

text \<open>The provided bodies of the version encoders and decoders.\<close>

definition encode_v1_default :: "'a \<Rightarrow> io_error + u8 list" where
  "encode_v1_default x = Inl (InvalidInput ''v1 encode unsupported'')"
definition encode_v2_default :: "'a \<Rightarrow> io_error + u8 list" where
  "encode_v2_default x = Inl (InvalidInput ''v2 encode unsupported'')"
definition decode_v1_default :: "'a reader" where
  "decode_v1_default = rfail (InvalidData ''v1 unsupported'')"
definition decode_v2_default :: "'a reader" where
  "decode_v2_default = rfail (InvalidData ''v2 unsupported'')"

definition encode_body :: "'a serde \<Rightarrow> 'a \<Rightarrow> u8 \<Rightarrow> io_error + u8 list" where
  "encode_body S x version_tag =
     (if version_tag = VERSION S then encode_latest S x
      else if version_tag = V1 then encode_v1 S x
      else if version_tag = V2 then encode_v2 S x
      else Inl (InvalidInput (''unsupported encode version '' @ show_nat (unat version_tag))))"

definition decode_body :: "'a serde \<Rightarrow> u8 \<Rightarrow> 'a reader" where
  "decode_body S version_tag =
     (if version_tag = VERSION S then decode_latest S
      else if version_tag = V1 then decode_v1 S
      else if version_tag = V2 then decode_v2 S
      else rfail (InvalidData (''unsupported Zaino version tag '' @ show_nat (unat version_tag))))"

definition serialize_with_version :: "'a serde \<Rightarrow> 'a \<Rightarrow> u8 \<Rightarrow> io_error + u8 list" where
  "serialize_with_version S x version = writes [Inr [version], encode_body S x version]"

definition serialize :: "'a serde \<Rightarrow> 'a \<Rightarrow> io_error + u8 list" where
  "serialize S x = serialize_with_version S x (VERSION S)"

definition deserialize :: "'a serde \<Rightarrow> 'a reader" where
  "deserialize S = rbind (read_exact 1) (\<lambda>tag. decode_body S (tag ! 0))"

definition to_bytes_with_version :: "'a serde \<Rightarrow> 'a \<Rightarrow> u8 \<Rightarrow> io_error + u8 list" where
  "to_bytes_with_version S x version = serialize_with_version S x version"

definition to_bytes :: "'a serde \<Rightarrow> 'a \<Rightarrow> io_error + u8 list" where
  "to_bytes S x = to_bytes_with_version S x (VERSION S)"

definition from_bytes :: "'a serde \<Rightarrow> u8 list \<Rightarrow> io_error + 'a" where
  "from_bytes S data = bindE (deserialize S data) (\<lambda>(x, rest). Inr x)"

text \<open>
  \<^verbatim>\<open>FixedEncodedLen\<close>: the required \<^verbatim>\<open>encoded_len\<close> is the argument \<open>len\<close>.
\<close>

definition VERSION_TAG_LEN :: nat where "VERSION_TAG_LEN = 1"

definition versioned_len :: "(u8 \<Rightarrow> nat option) \<Rightarrow> u8 \<Rightarrow> nat option" where
  "versioned_len len version = map_option (\<lambda>n. n + VERSION_TAG_LEN) (len version)"

definition latest_encoded_len :: "'a serde \<Rightarrow> (u8 \<Rightarrow> nat option) \<Rightarrow> io_error + nat" where
  "latest_encoded_len S len =
     ok_or (len (VERSION S))
       (InvalidData (''no fixed len available for version tag '' @ show_nat (unat (VERSION S))))"

definition latest_versioned_len :: "'a serde \<Rightarrow> (u8 \<Rightarrow> nat option) \<Rightarrow> io_error + nat" where
  "latest_versioned_len S len =
     ok_or (versioned_len len (VERSION S))
       (InvalidData (''no fixed versioned len available for version tag '' @ show_nat (unat (VERSION S))))"

text \<open>The two shapes the store's implementations have: one version, or two with their own layouts.\<close>

definition serde_v1 :: "('a \<Rightarrow> io_error + u8 list) \<Rightarrow> 'a reader \<Rightarrow> 'a serde" where
  "serde_v1 enc dec =
     \<lparr>VERSION = V1, encode_latest = enc, decode_latest = dec, encode_v1 = enc,
      encode_v2 = encode_v2_default, decode_v1 = dec, decode_v2 = decode_v2_default\<rparr>"

definition serde_v2 ::
  "('a \<Rightarrow> io_error + u8 list) \<Rightarrow> ('a \<Rightarrow> io_error + u8 list) \<Rightarrow> 'a reader \<Rightarrow> 'a reader \<Rightarrow> 'a serde" where
  "serde_v2 enc1 enc2 dec1 dec2 =
     \<lparr>VERSION = V2, encode_latest = enc2, decode_latest = dec2, encode_v1 = enc1,
      encode_v2 = enc2, decode_v1 = dec1, decode_v2 = dec2\<rparr>"

section \<open>Reading back primitives\<close>

lemmas int_readers = read_u8_def read_u16_le_def read_u16_be_def read_u32_le_def read_u32_be_def
  read_u64_le_def read_u64_be_def read_i64_le_def read_i64_be_def read_fixed_le_def read_fixed_be_def

lemmas int_writers [simp] = write_u8_def write_u16_le_def write_u16_be_def write_u32_le_def write_u32_be_def
  write_u64_le_def write_u64_be_def write_i64_le_def write_i64_be_def write_fixed_le_def write_fixed_be_def

lemma read_back [codec_simps]:
  "read_u8 (b # rest) = Inr (b, rest)"
  "read_u16_le (to_le 2 a @ rest) = Inr (a, rest)"
  "read_u16_be (to_be 2 a @ rest) = Inr (a, rest)"
  "read_u32_le (to_le 4 c @ rest) = Inr (c, rest)"
  "read_u32_be (to_be 4 c @ rest) = Inr (c, rest)"
  "read_u64_le (to_le 8 d @ rest) = Inr (d, rest)"
  "read_u64_be (to_be 8 d @ rest) = Inr (d, rest)"
  "read_i64_le (to_le 8 d @ rest) = Inr (d, rest)"
  "read_i64_be (to_be 8 d @ rest) = Inr (d, rest)"
  "length xs = n \<Longrightarrow> read_fixed_le n (xs @ rest) = Inr (xs, rest)"
  "length xs = n \<Longrightarrow> read_fixed_be n (rev xs @ rest) = Inr (xs, rest)"
  by (simp_all add: int_readers rbind_def read_exact_def)

lemma read_fixed_le_eq_Inr [result_simps]:
  "read_fixed_le n bs = Inr (xs, rest) \<longleftrightarrow> length xs = n \<and> bs = xs @ rest"
  by (auto simp: read_fixed_le_def read_exact_eq_Inr)

lemma writes_eq_Inr [result_simps]:
  "writes (w # ws) = Inr bs \<longleftrightarrow> (\<exists>a b. w = Inr a \<and> writes ws = Inr b \<and> bs = a @ b)"
  by (auto simp: bindE_eq_Inr)

subsection \<open>Compact sizes\<close>

lemma ucast_ucast_down:
  fixes w :: "'a::len word"
  assumes "unat w < 2 ^ LENGTH('b::len)" and "LENGTH('b) \<le> LENGTH('a)"
  shows "ucast (ucast w :: 'b word) = w"
  using assms by (simp add: word_unat_eq_iff unat_ucast_down unat_ucast_up)

lemma ucast_ucast_up:
  fixes w :: "'a::len word"
  assumes "LENGTH('a) \<le> LENGTH('b::len)"
  shows "ucast (ucast w :: 'b word) = w"
  using assms by (simp add: word_unat_eq_iff unat_ucast_down unat_ucast_up)

lemma length_compact_size_write: "length (compact_size_write n) = serialized_size n"
  by (simp add: compact_size_write_def serialized_size_def)

text \<open>The size the reader ends with, checked against the bound.\<close>

definition bounded_size :: "u64 \<Rightarrow> u64 reader" where
  "bounded_size n = (if n > ucast MAX_COMPACT_SIZE then rfail (InvalidInput ''CompactSize too large'') else rpure n)"

lemma compact_size_read_1: "f < 253 \<Longrightarrow> compact_size_read (f # rest) = bounded_size (ucast f) rest"
  by (simp add: compact_size_read_def bounded_size_def Let_def rbind_def read_exact_def)

lemma compact_size_read_2:
  "compact_size_read (253 # bs) =
     bindE (read_exact 2 bs) (\<lambda>(bytes, rest). let n = from_le bytes :: u16
       in if n < 253 then Inl (InvalidInput ''non-canonical CompactSize'') else bounded_size (ucast n) rest)"
  by (cases "2 \<le> length bs") (simp_all add: compact_size_read_def bounded_size_def Let_def rbind_def read_exact_def)

lemma compact_size_read_4:
  "compact_size_read (254 # bs) =
     bindE (read_exact 4 bs) (\<lambda>(bytes, rest). let n = from_le bytes :: u32
       in if n < 0x10000 then Inl (InvalidInput ''non-canonical CompactSize'') else bounded_size (ucast n) rest)"
  by (cases "4 \<le> length bs") (simp_all add: compact_size_read_def bounded_size_def Let_def rbind_def read_exact_def)

lemma compact_size_read_8:
  "compact_size_read (255 # bs) =
     bindE (read_exact 8 bs) (\<lambda>(bytes, rest). let n = from_le bytes :: u64
       in if n < 0x100000000 then Inl (InvalidInput ''non-canonical CompactSize'') else bounded_size n rest)"
  by (cases "8 \<le> length bs") (simp_all add: compact_size_read_def bounded_size_def Let_def rbind_def read_exact_def)

lemma compact_size_cases:
  fixes n :: u64
  obtains (one) "n < 253" | (two) "\<not> n < 253" "n \<le> 0xFFFF"
    | (four) "\<not> n < 253" "\<not> n \<le> 0xFFFF" "n \<le> 0xFFFFFFFF"
    | (eight) "\<not> n < 253" "\<not> n \<le> 0xFFFF" "\<not> n \<le> 0xFFFFFFFF"
proof (cases "n < 253"; cases "n \<le> 0xFFFF"; cases "n \<le> 0xFFFFFFFF")
qed (use that in \<open>auto simp: word_less_nat_alt word_le_nat_alt\<close>)

lemma compact_size_read_write:
  "compact_size_read (compact_size_write n @ rest) = bounded_size n rest"
proof (cases n rule: compact_size_cases)
  case one
  then have u: "unat n < 253" by (simp add: word_less_nat_alt)
  then have "(ucast n :: u8) < 253" and "ucast (ucast n :: u8) = n"
    by (simp_all add: word_less_nat_alt unat_ucast_down ucast_ucast_down)
  with one show ?thesis by (simp add: compact_size_write_def compact_size_read_1)
next
  case two
  then have "unat n < 2 ^ 16" "253 \<le> unat n" by (simp_all add: word_le_nat_alt word_less_nat_alt)
  then have "\<not> (ucast n :: u16) < 253" and "ucast (ucast n :: u16) = n"
    by (simp_all add: word_less_nat_alt unat_ucast_down ucast_ucast_down)
  with two show ?thesis by (simp add: compact_size_write_def compact_size_read_2 codec_simps)
next
  case four
  then have "unat n < 2 ^ 32" "0x10000 \<le> unat n" by (simp_all add: word_le_nat_alt word_less_nat_alt)
  then have "\<not> (ucast n :: u32) < 0x10000" and "ucast (ucast n :: u32) = n"
    by (simp_all add: word_less_nat_alt unat_ucast_down ucast_ucast_down)
  with four show ?thesis by (simp add: compact_size_write_def compact_size_read_4 codec_simps)
next
  case eight
  then have "\<not> n < 0x100000000" by (simp add: word_less_nat_alt word_le_nat_alt)
  with eight show ?thesis by (simp add: compact_size_write_def compact_size_read_8 codec_simps)
qed

lemma bounded_size_eq_Inr [result_simps]:
  "bounded_size n bs = Inr (m, rest) \<longleftrightarrow> m = n \<and> rest = bs \<and> n \<le> ucast MAX_COMPACT_SIZE"
  by (auto simp: bounded_size_def)

lemma flag_cases: "(f :: u8) < 253 \<or> f = 253 \<or> f = 254 \<or> f = 255"
  using unat_less_exp [of f] by (auto simp: word_less_nat_alt word_unat_eq_iff)

lemma compact_size_read_canonical:
  assumes "compact_size_read bs = Inr (n, rest)"
  shows "n \<le> ucast MAX_COMPACT_SIZE \<and> bs = compact_size_write n @ rest"
proof (cases bs)
  case Nil
  with assms show ?thesis by (simp add: compact_size_read_def rbind_def read_exact_def)
next
  case (Cons f bs')
  consider (one) "f < 253" | (two) "f = 253" | (four) "f = 254" | (eight) "f = 255"
    using flag_cases by blast
  then show ?thesis
  proof cases
    case one
    with assms Cons have n: "n = ucast f" "bs' = rest" "n \<le> ucast MAX_COMPACT_SIZE"
      by (auto simp: compact_size_read_1 result_simps)
    moreover have "n < 253" using one n(1) by (simp add: word_less_nat_alt unat_ucast_up)
    ultimately show ?thesis using Cons by (simp add: compact_size_write_def ucast_ucast_up)
  next
    case two
    with assms Cons obtain bytes where b: "length bytes = 2" "bs' = bytes @ rest"
      and n: "n = ucast (from_le bytes :: u16)" "\<not> (from_le bytes :: u16) < 253" "n \<le> ucast MAX_COMPACT_SIZE"
      by (auto simp: compact_size_read_2 result_simps Let_def split: if_splits)
    from n have "\<not> n < 253" by (simp add: word_less_nat_alt unat_ucast_up)
    moreover have "n \<le> 0xFFFF"
      using unat_less_exp [of "from_le bytes :: u16"] n(1) by (simp add: word_le_nat_alt unat_ucast_up)
    ultimately show ?thesis using two Cons b n by (simp add: compact_size_write_def ucast_ucast_up)
  next
    case four
    with assms Cons obtain bytes where b: "length bytes = 4" "bs' = bytes @ rest"
      and n: "n = ucast (from_le bytes :: u32)" "\<not> (from_le bytes :: u32) < 0x10000" "n \<le> ucast MAX_COMPACT_SIZE"
      by (auto simp: compact_size_read_4 result_simps Let_def split: if_splits)
    from n have "\<not> n < 253" "\<not> n \<le> 0xFFFF"
      by (simp_all add: word_less_nat_alt word_le_nat_alt unat_ucast_up)
    moreover have "n \<le> 0xFFFFFFFF"
      using unat_less_exp [of "from_le bytes :: u32"] n(1) by (simp add: word_le_nat_alt unat_ucast_up)
    ultimately show ?thesis using four Cons b n by (simp add: compact_size_write_def ucast_ucast_up)
  next
    case eight
    with assms Cons obtain bytes where "\<not> (from_le bytes :: u64) < 0x100000000"
      "from_le bytes \<le> (ucast MAX_COMPACT_SIZE :: u64)"
      by (auto simp: compact_size_read_8 result_simps Let_def split: if_splits)
    then show ?thesis
      by (simp add: MAX_COMPACT_SIZE_def word_less_nat_alt word_le_nat_alt unat_ucast_up)
  qed
qed

section \<open>The codec contract\<close>

text \<open>
  \<open>reads r w x\<close>: the write \<open>w\<close> succeeds, and the reader \<open>r\<close> gives \<open>x\<close> back from what it
  wrote, stopping right after it. Its rules follow the shape of an encoder and its decoder.
\<close>

definition reads :: "'a reader \<Rightarrow> io_error + u8 list \<Rightarrow> 'a \<Rightarrow> bool" where
  "reads r w x \<longleftrightarrow> (\<exists>bs. w = Inr bs \<and> (\<forall>rest. r (bs @ rest) = Inr (x, rest)))"

lemma readsE:
  assumes "reads r w x"
  obtains bs where "w = Inr bs" "\<And>rest. r (bs @ rest) = Inr (x, rest)"
  using assms unfolding reads_def by blast

lemma reads_pure: "y = x \<Longrightarrow> reads (rpure y) (writes []) x"
  by (simp add: reads_def)

lemma reads_done: "y = x \<Longrightarrow> reads (rpure y) (Inr []) x"
  by (simp add: reads_def)

lemma reads_bind: "reads r w x \<Longrightarrow> reads (f x) (writes ws) y \<Longrightarrow> reads (rbind r f) (writes (w # ws)) y"
  by (auto simp: reads_def)

lemma reads_map: "reads r w x \<Longrightarrow> g x = y \<Longrightarrow> reads (rbind r (\<lambda>x. rpure (g x))) w y"
  by (auto simp: reads_def)

lemma reads_step: "(\<And>rest. r rest = Inr (x, rest)) \<Longrightarrow> reads (f x) w y \<Longrightarrow> reads (rbind r f) w y"
  by (auto simp: reads_def)

lemma reads_prims:
  "reads read_u8 (Inr (write_u8 b)) b"
  "reads read_u16_be (Inr (write_u16_be h)) h"
  "reads read_u32_le (Inr (write_u32_le w)) w"
  "reads read_u32_be (Inr (write_u32_be w)) w"
  "reads read_u64_le (Inr (write_u64_le d)) d"
  "reads read_i64_le (Inr (write_i64_le d)) d"
  "length xs = n \<Longrightarrow> reads (read_fixed_le n) (Inr (write_fixed_le xs)) xs"
  "reads (read_exact 1) (Inr [b]) [b]"
  by (simp_all add: reads_def codec_simps)

lemmas reads_intros = reads_pure reads_done reads_bind reads_prims

text \<open>A count within the bound, as a writer writes it from a length.\<close>

lemma unat_count: "n \<le> unat MAX_COMPACT_SIZE \<Longrightarrow> unat (of_nat n :: u64) = n"
  by (simp add: MAX_COMPACT_SIZE_def unat_of_nat)

lemma reads_count:
  assumes "n \<le> unat MAX_COMPACT_SIZE"
  shows "reads compact_size_read (Inr (compact_size_write (of_nat n))) (of_nat n)"
proof -
  have "\<not> (of_nat n :: u64) > ucast MAX_COMPACT_SIZE"
    using assms unat_count [OF assms] by (simp add: word_less_nat_alt unat_ucast_up)
  then show ?thesis by (simp add: reads_def compact_size_read_write bounded_size_def)
qed

text \<open>The vectors a compact size can count, of well-formed items.\<close>

definition vec_ok :: "('a \<Rightarrow> bool) \<Rightarrow> 'a list \<Rightarrow> bool" where
  "vec_ok ok xs \<longleftrightarrow> list_all ok xs \<and> length xs \<le> unat MAX_COMPACT_SIZE"

text \<open>
  An encoder and a decoder of the values satisfying \<open>ok\<close>: such a value reads back, and
  whatever the decoder accepts is well-formed.
\<close>

locale codec =
  fixes ok :: "'a \<Rightarrow> bool" and enc :: "'a \<Rightarrow> io_error + u8 list" and dec :: "'a reader"
  assumes reads_back: "ok x \<Longrightarrow> reads dec (enc x) x"
    and typed: "dec bs = Inr (x, rest) \<Longrightarrow> ok x"
begin

lemma option_codec: "codec (pred_option ok) (write_option enc) (read_option dec)"
proof
  fix x assume "pred_option ok x"
  then show "reads (read_option dec) (write_option enc x) x"
    by (cases x) (use reads_back in \<open>fastforce simp: reads_def write_option_def read_option_def codec_simps\<close>)+
next
  fix bs rest and x assume "read_option dec bs = Inr (x, rest)"
  then show "pred_option ok x"
    by (auto simp: read_option_def rbind_eq_Inr dest: typed split: if_splits)
qed

lemma read_items_back: "list_all ok xs \<Longrightarrow> reads (read_items (length xs) dec) (writes (map enc xs)) xs"
proof (induction xs)
  case (Cons x xs)
  from Cons.prems have "reads dec (enc x) x" using reads_back by simp
  moreover from Cons have "reads (read_items (length xs) dec) (writes (map enc xs)) xs" by simp
  then have "reads (rbind (read_items (length xs) dec) (\<lambda>xs. rpure (x # xs))) (writes (map enc xs)) (x # xs)"
    by (rule reads_map) simp
  ultimately show ?case by (simp only: list.map read_items.simps length_Cons reads_bind)
qed (simp add: reads_def)

lemma read_items_typed:
  "read_items n dec bs = Inr (xs, rest) \<Longrightarrow> list_all ok xs \<and> length xs = n"
  by (induction n arbitrary: bs xs rest) (auto simp: rbind_eq_Inr dest: typed)

lemma vec_codec: "codec (vec_ok ok) (write_vec enc) (read_vec dec)"
proof
  fix xs assume "vec_ok ok xs"
  then have xs: "list_all ok xs \<and> length xs \<le> unat MAX_COMPACT_SIZE" by (simp add: vec_ok_def)
  then have n: "unat (of_nat (length xs) :: u64) = length xs" by (simp add: unat_count)
  from xs have "reads compact_size_read (Inr (compact_size_write (of_nat (length xs)))) (of_nat (length xs))"
    by (simp add: reads_count)
  then show "reads (read_vec dec) (write_vec enc xs) xs"
    unfolding write_vec_def read_vec_def by (rule reads_bind) (use read_items_back xs n in simp)
next
  fix bs xs rest assume "read_vec dec bs = Inr (xs, rest)"
  then obtain n mid where n: "compact_size_read bs = Inr (n, mid)" and xs: "read_items (unat n) dec mid = Inr (xs, rest)"
    by (auto simp: read_vec_def rbind_eq_Inr)
  from compact_size_read_canonical [OF n] have "unat n \<le> unat MAX_COMPACT_SIZE"
    by (simp add: word_le_nat_alt unat_ucast_up)
  with read_items_typed [OF xs] show "vec_ok ok xs" by (simp add: vec_ok_def)
qed

end

text \<open>A nested field at an older tag reads back as the value that version keeps.\<close>

lemma nested_older:
  "reads (decode_body S v) (encode_body S x v) y \<Longrightarrow> reads (deserialize S) (serialize_with_version S x v) y"
  by (auto simp: reads_def serialize_with_version_def deserialize_def codec_simps)

lemma body_v1:
  "VERSION S = V2 \<Longrightarrow> encode_body S x 1 = encode_v1 S x"
  "VERSION S = V2 \<Longrightarrow> decode_body S 1 = decode_v1 S"
  by (simp_all add: encode_body_def decode_body_def V1_def V2_def)

text \<open>
  A versioned record whose well-formed values satisfy \<open>ok\<close>. The newest version reads back
  exactly. A row an older version wrote is still read, and the value it reads as is written
  by that version as the very same bytes, which is what a checksum over the row needs.
\<close>

locale versioned_serde =
  fixes S :: "'a serde" and ok :: "'a \<Rightarrow> bool"
  assumes newest: "VERSION S = V1 \<or> VERSION S = V2"
    and latest: "ok x \<Longrightarrow> reads (decode_body S (VERSION S)) (encode_body S x (VERSION S)) x"
    and historic: "ok x \<Longrightarrow> encode_body S x v = Inr bs \<Longrightarrow>
      \<exists>y. ok y \<and> encode_body S y v = Inr bs \<and> reads (decode_body S v) (encode_body S y v) y"
    and decoded_ok: "decode_body S v bs = Inr (x, rest) \<Longrightarrow> ok x"
begin

lemma serialize_codec: "codec ok (\<lambda>x. serialize_with_version S x (VERSION S)) (deserialize S)"
proof
  fix x assume "ok x"
  then show "reads (deserialize S) (serialize_with_version S x (VERSION S)) x"
    by (intro nested_older latest)
next
  fix bs x rest assume "deserialize S bs = Inr (x, rest)"
  then show "ok x" by (auto simp: deserialize_def rbind_eq_Inr dest: decoded_ok)
qed

lemma from_to_bytes:
  assumes "ok x"
  shows "\<exists>bs. to_bytes S x = Inr bs \<and> from_bytes S bs = Inr x"
proof -
  obtain bs where "serialize_with_version S x (VERSION S) = Inr bs" "\<And>rest. deserialize S (bs @ rest) = Inr (x, rest)"
    using codec.reads_back [OF serialize_codec assms] unfolding reads_def by blast
  from this(1) this(2) [of "[]"] show ?thesis by (simp add: to_bytes_def to_bytes_with_version_def from_bytes_def)
qed

lemma from_bytes_ok: "from_bytes S bs = Inr x \<Longrightarrow> ok x"
  by (auto simp: from_bytes_def deserialize_def bindE_eq_Inr rbind_eq_Inr dest: decoded_ok)

lemma deserialize_historic:
  assumes "ok x" and "to_bytes_with_version S x v = Inr bs"
  shows "\<exists>y. ok y \<and> to_bytes_with_version S y v = Inr bs \<and> reads (deserialize S) (Inr bs) y"
proof -
  from assms obtain body where body: "encode_body S x v = Inr body" and bs: "bs = v # body"
    by (auto simp: to_bytes_with_version_def serialize_with_version_def bindE_eq_Inr)
  from historic [OF assms(1) body] obtain y where y: "ok y" "encode_body S y v = Inr body"
    and y_back: "reads (decode_body S v) (encode_body S y v) y" by blast
  from y(2) bs have "serialize_with_version S y v = Inr bs" by (simp add: serialize_with_version_def)
  with nested_older [OF y_back] y(1) show ?thesis by (auto simp: to_bytes_with_version_def)
qed

end

text \<open>A codec is a record of one version; two compatible layouts are a record of two.\<close>

lemma serde_v1_versioned:
  assumes "codec ok enc dec"
  shows "versioned_serde (serde_v1 enc dec) ok"
proof
  note reads_back = codec.reads_back [OF assms]
  show "reads (decode_body (serde_v1 enc dec) (VERSION (serde_v1 enc dec)))
      (encode_body (serde_v1 enc dec) x (VERSION (serde_v1 enc dec))) x" if "ok x" for x
    using reads_back [OF that] by (simp add: serde_v1_def encode_body_def decode_body_def)
  show "\<exists>y. ok y \<and> encode_body (serde_v1 enc dec) y v = Inr bs
      \<and> reads (decode_body (serde_v1 enc dec) v) (encode_body (serde_v1 enc dec) y v) y"
    if "ok x" and "encode_body (serde_v1 enc dec) x v = Inr bs" for x v bs
    using that reads_back [OF that(1)]
    by (auto simp: encode_body_def decode_body_def serde_v1_def encode_v2_default_def split: if_splits)
  show "ok x" if "decode_body (serde_v1 enc dec) v bs = Inr (x, rest)" for v bs x rest
    using that codec.typed [OF assms]
    by (auto simp: decode_body_def serde_v1_def decode_v2_default_def split: if_splits)
qed (simp add: serde_v1_def)

lemma serde_v2_versioned:
  assumes "codec ok enc2 dec2"
    and "\<And>x bs. ok x \<Longrightarrow> enc1 x = Inr bs \<Longrightarrow> \<exists>y. ok y \<and> enc1 y = Inr bs \<and> reads dec1 (enc1 y) y"
    and "\<And>bs x rest. dec1 bs = Inr (x, rest) \<Longrightarrow> ok x"
  shows "versioned_serde (serde_v2 enc1 enc2 dec1 dec2) ok"
proof
  note reads_back = codec.reads_back [OF assms(1)]
  have V: "V1 \<noteq> V2" by (simp add: V1_def V2_def)
  show "reads (decode_body (serde_v2 enc1 enc2 dec1 dec2) (VERSION (serde_v2 enc1 enc2 dec1 dec2)))
      (encode_body (serde_v2 enc1 enc2 dec1 dec2) x (VERSION (serde_v2 enc1 enc2 dec1 dec2))) x" if "ok x" for x
    using reads_back [OF that] by (simp add: serde_v2_def encode_body_def decode_body_def)
  show "\<exists>y. ok y \<and> encode_body (serde_v2 enc1 enc2 dec1 dec2) y v = Inr bs
      \<and> reads (decode_body (serde_v2 enc1 enc2 dec1 dec2) v) (encode_body (serde_v2 enc1 enc2 dec1 dec2) y v) y"
    if x: "ok x" and "encode_body (serde_v2 enc1 enc2 dec1 dec2) x v = Inr bs" for x v bs
  proof -
    from that(2) consider "v = V2" "enc2 x = Inr bs" | "v = V1" "enc1 x = Inr bs"
      by (auto simp: encode_body_def serde_v2_def split: if_splits)
    then show ?thesis
    proof cases
      case 1
      with reads_back [OF x] x show ?thesis by (auto simp: encode_body_def decode_body_def serde_v2_def)
    next
      case 2
      with assms(2) [OF x] V show ?thesis by (simp add: encode_body_def decode_body_def serde_v2_def)
    qed
  qed
  show "ok x" if "decode_body (serde_v2 enc1 enc2 dec1 dec2) v bs = Inr (x, rest)" for v bs x rest
    using that codec.typed [OF assms(1)] assms(3)
    by (auto simp: decode_body_def serde_v2_def split: if_splits)
qed (simp add: serde_v2_def)

text \<open>
  A nested field: written with the newest tag of its type, and read by whatever tag it has.
\<close>

lemma nested_v1:
  assumes "codec ok enc dec"
  shows "codec ok (\<lambda>x. serialize_with_version (serde_v1 enc dec) x 1) (deserialize (serde_v1 enc dec))"
  using versioned_serde.serialize_codec [OF serde_v1_versioned [OF assms]] by (simp add: serde_v1_def V1_def)

lemma nested_v2:
  assumes "versioned_serde (serde_v2 enc1 enc2 dec1 dec2) ok"
  shows "codec ok (\<lambda>x. serialize_with_version (serde_v2 enc1 enc2 dec1 dec2) x 2)
    (deserialize (serde_v2 enc1 enc2 dec1 dec2))"
  using versioned_serde.serialize_codec [OF assms] by (simp add: serde_v2_def V2_def)

text \<open>The length contract: a version's announced body length is the length it writes.\<close>

locale fixed_encoded_len = versioned_serde +
  fixes len :: "u8 \<Rightarrow> nat option"
  assumes encoded_len: "len v = Some n \<Longrightarrow> ok x \<Longrightarrow> encode_body S x v = Inr bs \<Longrightarrow> length bs = n"
begin

lemma versioned_len_written:
  "versioned_len len v = Some n \<Longrightarrow> ok x \<Longrightarrow> to_bytes_with_version S x v = Inr bs \<Longrightarrow> length bs = n"
  by (auto simp: versioned_len_def VERSION_TAG_LEN_def to_bytes_with_version_def serialize_with_version_def
      bindE_eq_Inr dest: encoded_len)

end

lemma serde_v1_fixed:
  assumes "codec ok enc dec" and "\<And>x bs. ok x \<Longrightarrow> enc x = Inr bs \<Longrightarrow> length bs = n"
  shows "fixed_encoded_len (serde_v1 enc dec) ok (\<lambda>v. if v = V1 then Some n else None)"
  by (intro fixed_encoded_len.intro serde_v1_versioned fixed_encoded_len_axioms.intro assms(1))
    (auto simp: encode_body_def serde_v1_def split: if_splits dest: assms(2))

section \<open>The compact size property\<close>

text \<open>C23. The compact size reader accepts exactly the canonical encodings of the sizes up to
  \<^verbatim>\<open>MAX_COMPACT_SIZE\<close>: it gives the size \<open>n\<close> with the bytes \<open>rest\<close> left over precisely when
  the input is what the writer emits for \<open>n\<close> followed by \<open>rest\<close>. So every size has one
  accepted encoding, a size over the bound is written but refused on reading, and the length
  the writer uses is the one \<^verbatim>\<open>serialized_size\<close> announces.
\<close>

theorem compact_size_canonical:
  "(compact_size_read bs = Inr (n, rest) \<longleftrightarrow>
      n \<le> ucast MAX_COMPACT_SIZE \<and> bs = compact_size_write n @ rest)
   \<and> (\<not> n \<le> ucast MAX_COMPACT_SIZE \<longrightarrow>
      compact_size_read (compact_size_write n @ rest) = Inl (InvalidInput ''CompactSize too large''))
   \<and> length (compact_size_write n) = serialized_size n"
proof (intro conjI impI)
  show "compact_size_read bs = Inr (n, rest) \<longleftrightarrow>
      n \<le> ucast MAX_COMPACT_SIZE \<and> bs = compact_size_write n @ rest"
    using compact_size_read_canonical compact_size_read_write by (auto simp: bounded_size_def)
  show "length (compact_size_write n) = serialized_size n" by (rule length_compact_size_write)
qed (simp add: compact_size_read_write bounded_size_def)

theorem compact_size_canonical_witness:
  "compact_size_read [253, 0xFD, 0, 7] = Inr (253, [7])
   \<and> compact_size_read (compact_size_write 0x02000001 @ []) = Inl (InvalidInput ''CompactSize too large'')"
proof -
  have over: "\<not> (0x02000001 :: u64) \<le> ucast MAX_COMPACT_SIZE" and within: "(253 :: u64) \<le> ucast MAX_COMPACT_SIZE"
    by (simp_all add: MAX_COMPACT_SIZE_def word_le_nat_alt unat_ucast_up)
  have two: "to_le 2 w = [ucast w, ucast (drop_bit 8 w)]" for w :: u16
    by (simp add: numeral_2_eq_2)
  have "[253, 0xFD, 0, 7] = compact_size_write 253 @ [7]"
    by (simp add: compact_size_write_def two)
  with within show ?thesis
    using compact_size_canonical [where bs = "[253, 0xFD, 0, 7]" and n = 253 and rest = "[7]"]
      compact_size_canonical [where bs = "[]" and n = "0x02000001" and rest = "[]"] over by blast
qed

end
