(* ===== verification/Zaino_Db_Types.thy ===== *)
theory Zaino_Db_Types
  imports Zaino_Encoding Zaino_Difficulty
begin

text \<open>
  The rows of the finalised store and their encodings, from
  \<^verbatim>\<open>zaino-chain-store-zainodb/src/types/db\<close> (\<^verbatim>\<open>legacy.rs\<close>, \<^verbatim>\<open>commitment.rs\<close>,
  \<^verbatim>\<open>block.rs\<close>): one record or datatype per stored type, its body encoder and decoder per
  version, its versioned instance (\<open>*_serde\<close>), its fixed body length where it has one
  (\<open>*_encoded_len\<close>), and the well-formedness the Rust types guarantee (\<open>*_ok\<close>: array
  lengths, and the checks their constructors make). The heights, scripts and hashes of the
  store are its own types, as in the source. The conversions to third-party types and to the
  wire messages are left out.
\<close>

section \<open>Hashes, heights and addresses\<close>

datatype db_block_hash = DbBlockHash (dbh_bytes: "u8 list")
datatype db_transaction_hash = DbTransactionHash (dth_bytes: "u8 list")

definition block_hash_encode_v1 :: "db_block_hash \<Rightarrow> io_error + u8 list" where
  "block_hash_encode_v1 h = Inr (write_fixed_le (dbh_bytes h))"

definition block_hash_decode_v1 :: "db_block_hash reader" where
  "block_hash_decode_v1 = rbind (read_fixed_le 32) (\<lambda>bytes. rpure (DbBlockHash bytes))"

definition block_hash_serde :: "db_block_hash serde" where
  "block_hash_serde = serde_v1 block_hash_encode_v1 block_hash_decode_v1"

definition block_hash_encoded_len :: "u8 \<Rightarrow> nat option" where
  "block_hash_encoded_len version = (if version = V1 then Some 32 else None)"

definition transaction_hash_encode_v1 :: "db_transaction_hash \<Rightarrow> io_error + u8 list" where
  "transaction_hash_encode_v1 h = Inr (write_fixed_le (dth_bytes h))"

definition transaction_hash_decode_v1 :: "db_transaction_hash reader" where
  "transaction_hash_decode_v1 = rbind (read_fixed_le 32) (\<lambda>bytes. rpure (DbTransactionHash bytes))"

definition transaction_hash_serde :: "db_transaction_hash serde" where
  "transaction_hash_serde = serde_v1 transaction_hash_encode_v1 transaction_hash_decode_v1"

definition transaction_hash_encoded_len :: "u8 \<Rightarrow> nat option" where
  "transaction_hash_encoded_len version = (if version = V1 then Some 32 else None)"

text \<open>\<^verbatim>\<open>zebra_chain::block::Height::MAX\<close>, which the source's comment gives as \<open>2 ^ 31 - 1\<close>.\<close>

datatype db_height = DbHeight (dbh_u32: u32)

definition ZEBRA_MAX_HEIGHT :: u32 where "ZEBRA_MAX_HEIGHT = 0x7FFFFFFF"

definition db_height_try_from :: "u32 \<Rightarrow> string + db_height" where
  "db_height_try_from h =
     (if h \<le> ZEBRA_MAX_HEIGHT then Inr (DbHeight h) else Inl ''height must be <= 2^31 - 1'')"

definition height_encode_v1 :: "db_height \<Rightarrow> io_error + u8 list" where
  "height_encode_v1 h = Inr (write_u32_be (dbh_u32 h))"

definition height_decode_v1 :: "db_height reader" where
  "height_decode_v1 =
     rbind read_u32_be (\<lambda>raw.
       case db_height_try_from raw of Inl e \<Rightarrow> rfail (InvalidData e) | Inr h \<Rightarrow> rpure h)"

definition height_serde :: "db_height serde" where
  "height_serde = serde_v1 height_encode_v1 height_decode_v1"

definition height_encoded_len :: "u8 \<Rightarrow> nat option" where
  "height_encoded_len version = (if version = V1 then Some 4 else None)"

datatype shard_index = ShardIndex (shi_u32: u32)

definition shard_index_encode_v1 :: "shard_index \<Rightarrow> io_error + u8 list" where
  "shard_index_encode_v1 s = Inr (write_u32_be (shi_u32 s))"

definition shard_index_decode_v1 :: "shard_index reader" where
  "shard_index_decode_v1 = rbind read_u32_be (\<lambda>raw. rpure (ShardIndex raw))"

definition shard_index_serde :: "shard_index serde" where
  "shard_index_serde = serde_v1 shard_index_encode_v1 shard_index_decode_v1"

definition shard_index_encoded_len :: "u8 \<Rightarrow> nat option" where
  "shard_index_encoded_len version = (if version = V1 then Some 4 else None)"

record addr_script =
  as_hash :: "u8 list"
  as_script_type :: u8

definition addr_script_to_raw_bytes :: "addr_script \<Rightarrow> u8 list" where
  "addr_script_to_raw_bytes a = as_hash a @ [as_script_type a]"

definition addr_script_from_raw_bytes :: "u8 list \<Rightarrow> addr_script" where
  "addr_script_from_raw_bytes b = \<lparr>as_hash = take 20 b, as_script_type = b ! 20\<rparr>"

definition addr_script_encode_v1 :: "addr_script \<Rightarrow> io_error + u8 list" where
  "addr_script_encode_v1 a = writes [Inr (write_fixed_le (as_hash a)), Inr [as_script_type a]]"

definition addr_script_decode_v1 :: "addr_script reader" where
  "addr_script_decode_v1 =
     rbind (read_fixed_le 20) (\<lambda>hash.
     rbind (read_exact 1) (\<lambda>buf. rpure \<lparr>as_hash = hash, as_script_type = buf ! 0\<rparr>))"

definition addr_script_serde :: "addr_script serde" where
  "addr_script_serde = serde_v1 addr_script_encode_v1 addr_script_decode_v1"

definition addr_script_encoded_len :: "u8 \<Rightarrow> nat option" where
  "addr_script_encoded_len version = (if version = V1 then Some 21 else None)"

record db_outpoint =
  dop_prev_txid :: "u8 list"
  dop_prev_index :: u32

definition outpoint_encode_v1 :: "db_outpoint \<Rightarrow> io_error + u8 list" where
  "outpoint_encode_v1 o1 =
     writes [Inr (write_fixed_le (dop_prev_txid o1)), Inr (write_u32_le (dop_prev_index o1))]"

definition outpoint_decode_v1 :: "db_outpoint reader" where
  "outpoint_decode_v1 =
     rbind (read_fixed_le 32) (\<lambda>txid.
     rbind read_u32_le (\<lambda>index. rpure \<lparr>dop_prev_txid = txid, dop_prev_index = index\<rparr>))"

definition outpoint_serde :: "db_outpoint serde" where
  "outpoint_serde = serde_v1 outpoint_encode_v1 outpoint_decode_v1"

definition outpoint_encoded_len :: "u8 \<Rightarrow> nat option" where
  "outpoint_encoded_len version = (if version = V1 then Some 36 else None)"

section \<open>Block data\<close>

datatype db_equihash_solution = DbStandard "u8 list" | DbRegtest "u8 list"

definition equihash_as_bytes :: "db_equihash_solution \<Rightarrow> u8 list" where
  "equihash_as_bytes s = (case s of DbStandard b \<Rightarrow> b | DbRegtest b \<Rightarrow> b)"

definition equihash_try_from :: "u8 list \<Rightarrow> string + db_equihash_solution" where
  "equihash_try_from bytes =
     (if length bytes = 1344 then Inr (DbStandard bytes)
      else if length bytes = 36 then Inr (DbRegtest bytes)
      else Inl ''invalid Equihash solution length (expected 36 or 1344 bytes)'')"

definition equihash_encode_v1 :: "db_equihash_solution \<Rightarrow> io_error + u8 list" where
  "equihash_encode_v1 s =
     (case s of
        DbStandard bytes \<Rightarrow> writes [Inr [0], Inr (write_fixed_le bytes)]
      | DbRegtest bytes \<Rightarrow> writes [Inr [1], Inr (write_fixed_le bytes)])"

definition equihash_decode_v1 :: "db_equihash_solution reader" where
  "equihash_decode_v1 =
     rbind (read_exact 1) (\<lambda>tag.
       if tag ! 0 = 0 then rbind (read_fixed_le 1344) (\<lambda>bytes. rpure (DbStandard bytes))
       else if tag ! 0 = 1 then rbind (read_fixed_le 36) (\<lambda>bytes. rpure (DbRegtest bytes))
       else rfail (InvalidData (''unknown Equihash variant tag '' @ show_nat (unat (tag ! 0)))))"

definition equihash_serde :: "db_equihash_solution serde" where
  "equihash_serde = serde_v1 equihash_encode_v1 equihash_decode_v1"

text \<open>The messages of the two primitive errors a row can carry.\<close>

fun hex_digits :: "nat \<Rightarrow> 'a::len word \<Rightarrow> string" where
  "hex_digits 0 w = []"
| "hex_digits (Suc n) w = hex_digits n (drop_bit 4 w) @
     [let d = unat (w AND 15) in char_of (if d < 10 then 48 + d else 87 + d)]"

definition difficulty_message :: "compact_difficulty_error \<Rightarrow> string" where
  "difficulty_message e =
     (case e of
        NegativeTarget bits \<Rightarrow> ''nBits 0x'' @ hex_digits 8 bits @ '' encodes a negative target''
      | ZeroTarget bits \<Rightarrow> ''nBits 0x'' @ hex_digits 8 bits @ '' encodes a zero target''
      | OverflowTarget bits \<Rightarrow> ''nBits 0x'' @ hex_digits 8 bits @ '' encodes a target beyond 256 bits''
      | WorkOverWidth bits \<Rightarrow> ''nBits 0x'' @ hex_digits 8 bits @ '' yields work exceeding 128 bits'')"

definition over_width_message :: "chain_work_over_width \<Rightarrow> string" where
  "over_width_message e =
     (case e of ChainWorkOverWidth high \<Rightarrow>
        ''reported chainwork does not fit 128 bits (high half 0x'' @ hex_digits 32 high @ '')'')"

record block_data =
  bd_version :: u32
  bd_time :: "64 word"
  bd_merkle_root :: "u8 list"
  bd_block_commitments :: "u8 list"
  bd_bits :: compact_difficulty
  bd_nonce :: "u8 list"
  bd_solution :: db_equihash_solution

definition block_data_encode_v1 :: "block_data \<Rightarrow> io_error + u8 list" where
  "block_data_encode_v1 d =
     writes [Inr (write_u32_le (bd_version d)), Inr (write_i64_le (bd_time d)),
       Inr (write_fixed_le (bd_merkle_root d)), Inr (write_fixed_le (bd_block_commitments d)),
       Inr (write_u32_le (cd_bits (bd_bits d))), Inr (write_fixed_le (bd_nonce d)),
       serialize_with_version equihash_serde (bd_solution d) 1]"

definition block_data_decode_v1 :: "block_data reader" where
  "block_data_decode_v1 =
     rbind read_u32_le (\<lambda>version.
     rbind read_i64_le (\<lambda>time.
     rbind (read_fixed_le 32) (\<lambda>merkle_root.
     rbind (read_fixed_le 32) (\<lambda>block_commitments.
     rbind read_u32_le (\<lambda>bits_raw.
     rbind (case try_from_bits bits_raw of
              Inl e \<Rightarrow> rfail (InvalidData (difficulty_message e)) | Inr bits \<Rightarrow> rpure bits) (\<lambda>bits.
     rbind (read_fixed_le 32) (\<lambda>nonse.
     rbind (deserialize equihash_serde) (\<lambda>solution.
       rpure \<lparr>bd_version = version, bd_time = time, bd_merkle_root = merkle_root,
              bd_block_commitments = block_commitments, bd_bits = bits, bd_nonce = nonse,
              bd_solution = solution\<rparr>))))))))"

definition block_data_serde :: "block_data serde" where
  "block_data_serde = serde_v1 block_data_encode_v1 block_data_decode_v1"

section \<open>Transparent transactions\<close>

record tx_in_compact =
  tic_prevout_txid :: "u8 list"
  tic_prevout_index :: u32

definition null_prevout :: tx_in_compact where
  "null_prevout = \<lparr>tic_prevout_txid = replicate 32 0, tic_prevout_index = - 1\<rparr>"

definition is_null_prevout :: "tx_in_compact \<Rightarrow> bool" where
  "is_null_prevout i \<longleftrightarrow> tic_prevout_txid i = replicate 32 0 \<and> tic_prevout_index i = - 1"

definition tx_in_encode_v1 :: "tx_in_compact \<Rightarrow> io_error + u8 list" where
  "tx_in_encode_v1 i =
     writes [Inr (write_fixed_le (tic_prevout_txid i)), Inr (write_u32_le (tic_prevout_index i))]"

definition tx_in_decode_v1 :: "tx_in_compact reader" where
  "tx_in_decode_v1 =
     rbind (read_fixed_le 32) (\<lambda>txid.
     rbind read_u32_le (\<lambda>idx. rpure \<lparr>tic_prevout_txid = txid, tic_prevout_index = idx\<rparr>))"

definition tx_in_serde :: "tx_in_compact serde" where
  "tx_in_serde = serde_v1 tx_in_encode_v1 tx_in_decode_v1"

definition tx_in_encoded_len :: "u8 \<Rightarrow> nat option" where
  "tx_in_encoded_len version = (if version = V1 then Some 36 else None)"

datatype db_script_type = DbP2PKH | DbP2SH | DbNonStandard

definition script_type_u8 :: "db_script_type \<Rightarrow> u8" where
  "script_type_u8 t = (case t of DbP2PKH \<Rightarrow> 0x00 | DbP2SH \<Rightarrow> 0x01 | DbNonStandard \<Rightarrow> 0xFF)"

definition script_type_try_from :: "u8 \<Rightarrow> unit + db_script_type" where
  "script_type_try_from v =
     (if v = 0x00 then Inr DbP2PKH else if v = 0x01 then Inr DbP2SH
      else if v = 0xFF then Inr DbNonStandard else Inl ())"

definition script_type_encode_v1 :: "db_script_type \<Rightarrow> io_error + u8 list" where
  "script_type_encode_v1 t = Inr [script_type_u8 t]"

definition script_type_decode_v1 :: "db_script_type reader" where
  "script_type_decode_v1 =
     rbind (read_exact 1) (\<lambda>b.
       case script_type_try_from (b ! 0) of
         Inl _ \<Rightarrow> rfail (InvalidData ''unknown ScriptType'') | Inr t \<Rightarrow> rpure t)"

definition script_type_serde :: "db_script_type serde" where
  "script_type_serde = serde_v1 script_type_encode_v1 script_type_decode_v1"

definition script_type_encoded_len :: "u8 \<Rightarrow> nat option" where
  "script_type_encoded_len version = (if version = V1 then Some 1 else None)"

definition slice_starts_with :: "u8 list \<Rightarrow> u8 list \<Rightarrow> bool" where
  "slice_starts_with xs p \<longleftrightarrow> take (length p) xs = p"

definition slice_ends_with :: "u8 list \<Rightarrow> u8 list \<Rightarrow> bool" where
  "slice_ends_with xs p \<longleftrightarrow> length p \<le> length xs \<and> drop (length xs - length p) xs = p"

definition parse_standard_script :: "u8 list \<Rightarrow> (u8 list \<times> db_script_type) option" where
  "parse_standard_script s =
     (if slice_starts_with s [0x76, 0xa9, 0x14] \<and> slice_ends_with s [0x88, 0xac] \<and> length s = 25
      then Some (take 20 (drop 3 s), DbP2PKH)
      else if slice_starts_with s [0xa9, 0x14] \<and> slice_ends_with s [0x87] \<and> length s = 23
      then Some (take 20 (drop 2 s), DbP2SH)
      else None)"

definition build_standard_script :: "u8 list \<Rightarrow> db_script_type \<Rightarrow> u8 list option" where
  "build_standard_script hash stype =
     (case stype of
        DbP2PKH \<Rightarrow> Some ([0x76, 0xa9, 0x14] @ hash @ [0x88, 0xac])
      | DbP2SH \<Rightarrow> Some ([0xa9, 0x14] @ hash @ [0x87])
      | DbNonStandard \<Rightarrow> None)"

definition addr_script_from_script :: "u8 list \<Rightarrow> addr_script option" where
  "addr_script_from_script s =
     map_option (\<lambda>(hash, stype). \<lparr>as_hash = hash, as_script_type = script_type_u8 stype\<rparr>) (parse_standard_script s)"

definition to_script_pubkey :: "addr_script \<Rightarrow> u8 list option" where
  "to_script_pubkey a =
     (case script_type_try_from (as_script_type a) of
        Inl _ \<Rightarrow> None | Inr stype \<Rightarrow> build_standard_script (as_hash a) stype)"

record tx_out_compact =
  toc_value :: u64
  toc_script_hash :: "u8 list"
  toc_script_type :: u8

definition tx_out_new :: "u64 \<Rightarrow> u8 list \<Rightarrow> u8 \<Rightarrow> tx_out_compact option" where
  "tx_out_new v script_hash stype =
     (case script_type_try_from stype of
        Inr _ \<Rightarrow> Some \<lparr>toc_value = v, toc_script_hash = script_hash, toc_script_type = stype\<rparr>
      | Inl _ \<Rightarrow> None)"

definition script_type_enum :: "tx_out_compact \<Rightarrow> db_script_type option" where
  "script_type_enum out =
     (case script_type_try_from (toc_script_type out) of Inl _ \<Rightarrow> None | Inr t \<Rightarrow> Some t)"

definition tx_out_try_from :: "u64 \<Rightarrow> u8 list \<Rightarrow> unit + tx_out_compact" where
  "tx_out_try_from v script_bytes =
     (case addr_script_from_script script_bytes of
        Some addr \<Rightarrow> ok_or (tx_out_new v (as_hash addr) (as_script_type addr)) ()
      | None \<Rightarrow>
          if length script_bytes = 21
          then ok_or (tx_out_new v (drop 1 script_bytes) (script_bytes ! 0)) ()
          else let usable_len = min (length script_bytes) 20;
                   fallback = take usable_len script_bytes @ replicate (20 - usable_len) 0
               in ok_or (tx_out_new v fallback (script_type_u8 DbNonStandard)) ())"

definition tx_out_encode_v1 :: "tx_out_compact \<Rightarrow> io_error + u8 list" where
  "tx_out_encode_v1 out =
     writes [Inr (write_u64_le (toc_value out)), Inr (write_fixed_le (toc_script_hash out)),
       Inr [toc_script_type out]]"

definition tx_out_decode_v1 :: "tx_out_compact reader" where
  "tx_out_decode_v1 =
     rbind read_u64_le (\<lambda>v.
     rbind (read_fixed_le 20) (\<lambda>script_hash.
     rbind (read_exact 1) (\<lambda>b.
       case tx_out_new v script_hash (b ! 0) of
         None \<Rightarrow> rfail (InvalidData ''invalid script_type'') | Some out \<Rightarrow> rpure out)))"

definition tx_out_serde :: "tx_out_compact serde" where
  "tx_out_serde = serde_v1 tx_out_encode_v1 tx_out_decode_v1"

definition tx_out_encoded_len :: "u8 \<Rightarrow> nat option" where
  "tx_out_encoded_len version = (if version = V1 then Some 29 else None)"

record transparent_compact_tx =
  tct_vin :: "tx_in_compact list"
  tct_vout :: "tx_out_compact list"

definition spent_outpoints :: "transparent_compact_tx \<Rightarrow> db_outpoint list" where
  "spent_outpoints t =
     map (\<lambda>i. \<lparr>dop_prev_txid = tic_prevout_txid i, dop_prev_index = tic_prevout_index i\<rparr>)
       (filter (\<lambda>i. \<not> is_null_prevout i) (tct_vin t))"

definition transparent_encode_v1 :: "transparent_compact_tx \<Rightarrow> io_error + u8 list" where
  "transparent_encode_v1 t =
     writes [write_vec (\<lambda>txin. serialize_with_version tx_in_serde txin 1) (tct_vin t),
       write_vec (\<lambda>txout. serialize_with_version tx_out_serde txout 1) (tct_vout t)]"

definition transparent_decode_v1 :: "transparent_compact_tx reader" where
  "transparent_decode_v1 =
     rbind (read_vec (deserialize tx_in_serde)) (\<lambda>vin.
     rbind (read_vec (deserialize tx_out_serde)) (\<lambda>vout. rpure \<lparr>tct_vin = vin, tct_vout = vout\<rparr>))"

definition transparent_serde :: "transparent_compact_tx serde" where
  "transparent_serde = serde_v1 transparent_encode_v1 transparent_decode_v1"

end
