(* ===== verification/Zaino_Db_Rows.thy ===== *)
theory Zaino_Db_Rows
  imports Zaino_Db_Types
begin

text \<open>
  The remaining rows of the finalised store: shielded transaction parts, transaction locations
  and address history, commitment trees, block contexts and headers, and the per-block lists
  (\<^verbatim>\<open>legacy.rs\<close>, \<^verbatim>\<open>commitment.rs\<close> and \<^verbatim>\<open>block.rs\<close> of
  \<^verbatim>\<open>zaino-chain-store-zainodb/src/types/db\<close>). Headers, block contexts and commitment
  trees have two on-disk versions.
\<close>

section \<open>Shielded transactions\<close>

datatype compact_sapling_spend = CompactSaplingSpend (css_nf: "u8 list")

definition sapling_spend_encode_v1 :: "compact_sapling_spend \<Rightarrow> io_error + u8 list" where
  "sapling_spend_encode_v1 s = Inr (write_fixed_le (css_nf s))"

definition sapling_spend_decode_v1 :: "compact_sapling_spend reader" where
  "sapling_spend_decode_v1 = rbind (read_fixed_le 32) (\<lambda>nf. rpure (CompactSaplingSpend nf))"

definition sapling_spend_serde :: "compact_sapling_spend serde" where
  "sapling_spend_serde = serde_v1 sapling_spend_encode_v1 sapling_spend_decode_v1"

definition sapling_spend_encoded_len :: "u8 \<Rightarrow> nat option" where
  "sapling_spend_encoded_len version = (if version = V1 then Some 32 else None)"

record compact_sapling_output =
  cso_cmu :: "u8 list"
  cso_ephemeral_key :: "u8 list"
  cso_ciphertext :: "u8 list"

definition sapling_output_encode_v1 :: "compact_sapling_output \<Rightarrow> io_error + u8 list" where
  "sapling_output_encode_v1 o1 =
     writes [Inr (write_fixed_le (cso_cmu o1)), Inr (write_fixed_le (cso_ephemeral_key o1)),
       Inr (write_fixed_le (cso_ciphertext o1))]"

definition sapling_output_decode_v1 :: "compact_sapling_output reader" where
  "sapling_output_decode_v1 =
     rbind (read_fixed_le 32) (\<lambda>cmu.
     rbind (read_fixed_le 32) (\<lambda>epk.
     rbind (read_fixed_le 52) (\<lambda>ciphertext.
       rpure \<lparr>cso_cmu = cmu, cso_ephemeral_key = epk, cso_ciphertext = ciphertext\<rparr>)))"

definition sapling_output_serde :: "compact_sapling_output serde" where
  "sapling_output_serde = serde_v1 sapling_output_encode_v1 sapling_output_decode_v1"

definition sapling_output_encoded_len :: "u8 \<Rightarrow> nat option" where
  "sapling_output_encoded_len version = (if version = V1 then Some 116 else None)"

record sapling_compact_tx =
  sct_value :: "64 word option"
  sct_spends :: "compact_sapling_spend list"
  sct_outputs :: "compact_sapling_output list"

definition sapling_encode_v1 :: "sapling_compact_tx \<Rightarrow> io_error + u8 list" where
  "sapling_encode_v1 t =
     writes [write_option (\<lambda>v. Inr (write_i64_le v)) (sct_value t),
       write_vec (\<lambda>s. serialize_with_version sapling_spend_serde s 1) (sct_spends t),
       write_vec (\<lambda>o1. serialize_with_version sapling_output_serde o1 1) (sct_outputs t)]"

definition sapling_decode_v1 :: "sapling_compact_tx reader" where
  "sapling_decode_v1 =
     rbind (read_option read_i64_le) (\<lambda>val.
     rbind (read_vec (deserialize sapling_spend_serde)) (\<lambda>spends.
     rbind (read_vec (deserialize sapling_output_serde)) (\<lambda>outputs.
       rpure \<lparr>sct_value = val, sct_spends = spends, sct_outputs = outputs\<rparr>)))"

definition sapling_serde :: "sapling_compact_tx serde" where
  "sapling_serde = serde_v1 sapling_encode_v1 sapling_decode_v1"

record compact_orchard_action =
  coa_nullifier :: "u8 list"
  coa_cmx :: "u8 list"
  coa_ephemeral_key :: "u8 list"
  coa_ciphertext :: "u8 list"

definition orchard_action_encode_v1 :: "compact_orchard_action \<Rightarrow> io_error + u8 list" where
  "orchard_action_encode_v1 a =
     writes [Inr (write_fixed_le (coa_nullifier a)), Inr (write_fixed_le (coa_cmx a)),
       Inr (write_fixed_le (coa_ephemeral_key a)), Inr (write_fixed_le (coa_ciphertext a))]"

definition orchard_action_decode_v1 :: "compact_orchard_action reader" where
  "orchard_action_decode_v1 =
     rbind (read_fixed_le 32) (\<lambda>nf.
     rbind (read_fixed_le 32) (\<lambda>cmx.
     rbind (read_fixed_le 32) (\<lambda>epk.
     rbind (read_fixed_le 52) (\<lambda>ctxt.
       rpure \<lparr>coa_nullifier = nf, coa_cmx = cmx, coa_ephemeral_key = epk, coa_ciphertext = ctxt\<rparr>))))"

definition orchard_action_serde :: "compact_orchard_action serde" where
  "orchard_action_serde = serde_v1 orchard_action_encode_v1 orchard_action_decode_v1"

definition orchard_action_encoded_len :: "u8 \<Rightarrow> nat option" where
  "orchard_action_encoded_len version = (if version = V1 then Some 148 else None)"

record orchard_compact_tx =
  oct_value :: "64 word option"
  oct_actions :: "compact_orchard_action list"

definition orchard_encode_v1 :: "orchard_compact_tx \<Rightarrow> io_error + u8 list" where
  "orchard_encode_v1 t =
     writes [write_option (\<lambda>v. Inr (write_i64_le v)) (oct_value t),
       write_vec (\<lambda>a. serialize_with_version orchard_action_serde a 1) (oct_actions t)]"

definition orchard_decode_v1 :: "orchard_compact_tx reader" where
  "orchard_decode_v1 =
     rbind (read_option read_i64_le) (\<lambda>val.
     rbind (read_vec (deserialize orchard_action_serde)) (\<lambda>actions.
       rpure \<lparr>oct_value = val, oct_actions = actions\<rparr>))"

definition orchard_serde :: "orchard_compact_tx serde" where
  "orchard_serde = serde_v1 orchard_encode_v1 orchard_decode_v1"

section \<open>Locations and address history\<close>

record tx_location =
  tl_block_height :: u32
  tl_tx_index :: u16

definition tx_location_encode_v1 :: "tx_location \<Rightarrow> io_error + u8 list" where
  "tx_location_encode_v1 l =
     writes [Inr (write_u32_be (tl_block_height l)), Inr (write_u16_be (tl_tx_index l))]"

definition tx_location_decode_v1 :: "tx_location reader" where
  "tx_location_decode_v1 =
     rbind read_u32_be (\<lambda>block_height.
     rbind read_u16_be (\<lambda>tx_index. rpure \<lparr>tl_block_height = block_height, tl_tx_index = tx_index\<rparr>))"

definition tx_location_serde :: "tx_location serde" where
  "tx_location_serde = serde_v1 tx_location_encode_v1 tx_location_decode_v1"

definition tx_location_encoded_len :: "u8 \<Rightarrow> nat option" where
  "tx_location_encoded_len version = (if version = V1 then Some 6 else None)"

record addr_hist_record =
  ahr_tx_location :: tx_location
  ahr_out_index :: u16
  ahr_flags :: u8
  ahr_value :: u64

definition FLAG_MINED :: u8 where "FLAG_MINED = 1"
definition FLAG_SPENT :: u8 where "FLAG_SPENT = 2"
definition FLAG_IS_INPUT :: u8 where "FLAG_IS_INPUT = 4"

definition is_mined :: "addr_hist_record \<Rightarrow> bool" where "is_mined r \<longleftrightarrow> ahr_flags r AND FLAG_MINED \<noteq> 0"
definition is_spent :: "addr_hist_record \<Rightarrow> bool" where "is_spent r \<longleftrightarrow> ahr_flags r AND FLAG_SPENT \<noteq> 0"
definition is_input :: "addr_hist_record \<Rightarrow> bool" where "is_input r \<longleftrightarrow> ahr_flags r AND FLAG_IS_INPUT \<noteq> 0"

definition addr_hist_encode_v1 :: "addr_hist_record \<Rightarrow> io_error + u8 list" where
  "addr_hist_encode_v1 r =
     writes [serialize_with_version tx_location_serde (ahr_tx_location r) 1,
       Inr (write_u16_be (ahr_out_index r)), Inr [ahr_flags r], Inr (write_u64_le (ahr_value r))]"

definition addr_hist_decode_v1 :: "addr_hist_record reader" where
  "addr_hist_decode_v1 =
     rbind (deserialize tx_location_serde) (\<lambda>location.
     rbind read_u16_be (\<lambda>out_index.
     rbind (read_exact 1) (\<lambda>flag.
     rbind read_u64_le (\<lambda>val.
       rpure \<lparr>ahr_tx_location = location, ahr_out_index = out_index, ahr_flags = flag ! 0, ahr_value = val\<rparr>))))"

definition addr_hist_serde :: "addr_hist_record serde" where
  "addr_hist_serde = serde_v1 addr_hist_encode_v1 addr_hist_decode_v1"

definition addr_hist_encoded_len :: "u8 \<Rightarrow> nat option" where
  "addr_hist_encoded_len version = (if version = V1 then Some 18 else None)"

datatype addr_event_bytes = AddrEventBytes (aeb_bytes: "u8 list")

text \<open>
  The cursor writes into a buffer of 17 bytes, which the fields fill exactly.
\<close>

definition addr_event_from_record :: "addr_hist_record \<Rightarrow> io_error + addr_event_bytes" where
  "addr_event_from_record r =
     bindE (writes [Inr (write_u32_be (tl_block_height (ahr_tx_location r))),
         Inr (write_u16_be (tl_tx_index (ahr_tx_location r))), Inr (write_u16_be (ahr_out_index r)),
         Inr [ahr_flags r], Inr (write_u64_le (ahr_value r))])
       (\<lambda>buf. Inr (AddrEventBytes buf))"

definition addr_event_as_record :: "addr_event_bytes \<Rightarrow> io_error + addr_hist_record" where
  "addr_event_as_record e =
     bindE (rbind read_u32_be (\<lambda>block_height.
            rbind read_u16_be (\<lambda>tx_index.
            rbind read_u16_be (\<lambda>out_index.
            rbind (read_exact 1) (\<lambda>flag.
            rbind read_u64_le (\<lambda>val.
              rpure \<lparr>ahr_tx_location = \<lparr>tl_block_height = block_height, tl_tx_index = tx_index\<rparr>,
                     ahr_out_index = out_index, ahr_flags = flag ! 0, ahr_value = val\<rparr>))))) (aeb_bytes e))
       (\<lambda>(r, rest). Inr r)"

definition addr_event_encode_v1 :: "addr_event_bytes \<Rightarrow> io_error + u8 list" where
  "addr_event_encode_v1 e = Inr (write_fixed_le (aeb_bytes e))"

definition addr_event_decode_v1 :: "addr_event_bytes reader" where
  "addr_event_decode_v1 = rbind (read_fixed_le 17) (\<lambda>bytes. rpure (AddrEventBytes bytes))"

definition addr_event_serde :: "addr_event_bytes serde" where
  "addr_event_serde = serde_v1 addr_event_encode_v1 addr_event_decode_v1"

definition addr_event_encoded_len :: "u8 \<Rightarrow> nat option" where
  "addr_event_encoded_len version = (if version = V1 then Some 17 else None)"

record shard_root =
  shr_hash :: "u8 list"
  shr_final_block_hash :: "u8 list"
  shr_final_block_height :: u32

definition shard_root_encode_v1 :: "shard_root \<Rightarrow> io_error + u8 list" where
  "shard_root_encode_v1 s =
     writes [Inr (write_fixed_le (shr_hash s)), Inr (write_fixed_le (shr_final_block_hash s)),
       Inr (write_u32_le (shr_final_block_height s))]"

definition shard_root_decode_v1 :: "shard_root reader" where
  "shard_root_decode_v1 =
     rbind (read_fixed_le 32) (\<lambda>hash.
     rbind (read_fixed_le 32) (\<lambda>final_block_hash.
     rbind read_u32_le (\<lambda>final_block_height.
       rpure \<lparr>shr_hash = hash, shr_final_block_hash = final_block_hash,
              shr_final_block_height = final_block_height\<rparr>)))"

definition shard_root_serde :: "shard_root serde" where
  "shard_root_serde = serde_v1 shard_root_encode_v1 shard_root_decode_v1"

definition shard_root_encoded_len :: "u8 \<Rightarrow> nat option" where
  "shard_root_encoded_len version = (if version = V1 then Some 68 else None)"

section \<open>Commitment trees\<close>

record commitment_tree_roots =
  ctr_sapling :: "u8 list"
  ctr_orchard :: "u8 list"
  ctr_ironwood :: "u8 list option"

definition tree_roots_encode_v1 :: "commitment_tree_roots \<Rightarrow> io_error + u8 list" where
  "tree_roots_encode_v1 t = writes [Inr (write_fixed_le (ctr_sapling t)), Inr (write_fixed_le (ctr_orchard t))]"

definition tree_roots_decode_v1 :: "commitment_tree_roots reader" where
  "tree_roots_decode_v1 =
     rbind (read_fixed_le 32) (\<lambda>sapling.
     rbind (read_fixed_le 32) (\<lambda>orchard.
       rpure \<lparr>ctr_sapling = sapling, ctr_orchard = orchard, ctr_ironwood = None\<rparr>))"

definition tree_roots_encode_v2 :: "commitment_tree_roots \<Rightarrow> io_error + u8 list" where
  "tree_roots_encode_v2 t =
     writes [Inr (write_fixed_le (ctr_sapling t)), Inr (write_fixed_le (ctr_orchard t)),
       write_option (\<lambda>v. Inr (write_fixed_le v)) (ctr_ironwood t)]"

definition tree_roots_decode_v2 :: "commitment_tree_roots reader" where
  "tree_roots_decode_v2 =
     rbind (read_fixed_le 32) (\<lambda>sapling.
     rbind (read_fixed_le 32) (\<lambda>orchard.
     rbind (read_option (read_fixed_le 32)) (\<lambda>ironwood.
       rpure \<lparr>ctr_sapling = sapling, ctr_orchard = orchard, ctr_ironwood = ironwood\<rparr>)))"

definition tree_roots_serde :: "commitment_tree_roots serde" where
  "tree_roots_serde = serde_v2 tree_roots_encode_v1 tree_roots_encode_v2 tree_roots_decode_v1 tree_roots_decode_v2"

definition tree_roots_encoded_len :: "u8 \<Rightarrow> nat option" where
  "tree_roots_encoded_len version = (if version = V1 then Some (32 + 32) else if version = V2 then None else None)"

record commitment_tree_sizes =
  cts_sapling :: u32
  cts_orchard :: u32
  cts_ironwood :: u32

definition tree_sizes_encode_v1 :: "commitment_tree_sizes \<Rightarrow> io_error + u8 list" where
  "tree_sizes_encode_v1 t = writes [Inr (write_u32_le (cts_sapling t)), Inr (write_u32_le (cts_orchard t))]"

definition tree_sizes_decode_v1 :: "commitment_tree_sizes reader" where
  "tree_sizes_decode_v1 =
     rbind read_u32_le (\<lambda>sapling.
     rbind read_u32_le (\<lambda>orchard.
       rpure \<lparr>cts_sapling = sapling, cts_orchard = orchard, cts_ironwood = 0\<rparr>))"

definition tree_sizes_encode_v2 :: "commitment_tree_sizes \<Rightarrow> io_error + u8 list" where
  "tree_sizes_encode_v2 t =
     writes [Inr (write_u32_le (cts_sapling t)), Inr (write_u32_le (cts_orchard t)),
       Inr (write_u32_le (cts_ironwood t))]"

definition tree_sizes_decode_v2 :: "commitment_tree_sizes reader" where
  "tree_sizes_decode_v2 =
     rbind read_u32_le (\<lambda>sapling.
     rbind read_u32_le (\<lambda>orchard.
     rbind read_u32_le (\<lambda>ironwood.
       rpure \<lparr>cts_sapling = sapling, cts_orchard = orchard, cts_ironwood = ironwood\<rparr>)))"

definition tree_sizes_serde :: "commitment_tree_sizes serde" where
  "tree_sizes_serde = serde_v2 tree_sizes_encode_v1 tree_sizes_encode_v2 tree_sizes_decode_v1 tree_sizes_decode_v2"

definition tree_sizes_encoded_len :: "u8 \<Rightarrow> nat option" where
  "tree_sizes_encoded_len version =
     (if version = V1 then Some (4 + 4) else if version = V2 then Some (4 + 4 + 4) else None)"

record commitment_tree_data =
  ctd_roots :: commitment_tree_roots
  ctd_sizes :: commitment_tree_sizes

definition tree_data_encode_v1 :: "commitment_tree_data \<Rightarrow> io_error + u8 list" where
  "tree_data_encode_v1 d =
     writes [serialize_with_version tree_roots_serde (ctd_roots d) 1,
       serialize_with_version tree_sizes_serde (ctd_sizes d) 1]"

definition tree_data_encode_v2 :: "commitment_tree_data \<Rightarrow> io_error + u8 list" where
  "tree_data_encode_v2 d =
     writes [serialize_with_version tree_roots_serde (ctd_roots d) 2,
       serialize_with_version tree_sizes_serde (ctd_sizes d) 2]"

definition tree_data_decode_v1 :: "commitment_tree_data reader" where
  "tree_data_decode_v1 =
     rbind (deserialize tree_roots_serde) (\<lambda>roots.
     rbind (deserialize tree_sizes_serde) (\<lambda>sizes. rpure \<lparr>ctd_roots = roots, ctd_sizes = sizes\<rparr>))"

definition tree_data_decode_v2 :: "commitment_tree_data reader" where
  "tree_data_decode_v2 =
     rbind (deserialize tree_roots_serde) (\<lambda>roots.
     rbind (deserialize tree_sizes_serde) (\<lambda>sizes. rpure \<lparr>ctd_roots = roots, ctd_sizes = sizes\<rparr>))"

definition tree_data_serde :: "commitment_tree_data serde" where
  "tree_data_serde = serde_v2 tree_data_encode_v1 tree_data_encode_v2 tree_data_decode_v1 tree_data_decode_v2"

definition tree_data_encoded_len :: "u8 \<Rightarrow> nat option" where
  "tree_data_encoded_len version =
     (if version = V1 then
        Option.bind (versioned_len tree_roots_encoded_len V1) (\<lambda>a.
        Option.bind (versioned_len tree_sizes_encoded_len V1) (\<lambda>b. Some (a + b)))
      else if version = V2 then None else None)"

section \<open>Block contexts and headers\<close>

datatype persistent_chain_work = PersistentChainWork (pcw_bytes: "u8 list")

definition chain_work_from_business :: "absolute_chain_work \<Rightarrow> persistent_chain_work" where
  "chain_work_from_business cw = PersistentChainWork (acw_to_be_bytes cw)"

definition chain_work_into_business :: "persistent_chain_work \<Rightarrow> io_error + absolute_chain_work" where
  "chain_work_into_business p =
     bindE (map_err (\<lambda>e. InvalidData (over_width_message e)) (acw_try_from_reported (pcw_bytes p)))
       (\<lambda>cw. ok_or cw (InvalidData ''chainwork is zero''))"

definition chain_work_encode_v1 :: "persistent_chain_work \<Rightarrow> io_error + u8 list" where
  "chain_work_encode_v1 p = Inr (write_fixed_le (pcw_bytes p))"

definition chain_work_decode_v1 :: "persistent_chain_work reader" where
  "chain_work_decode_v1 = rbind (read_fixed_le 32) (\<lambda>bytes. rpure (PersistentChainWork bytes))"

definition chain_work_serde :: "persistent_chain_work serde" where
  "chain_work_serde = serde_v1 chain_work_encode_v1 chain_work_decode_v1"

definition chain_work_encoded_len :: "u8 \<Rightarrow> nat option" where
  "chain_work_encoded_len version = (if version = V1 then Some 32 else None)"

datatype persistent_compact_difficulty = PersistentCompactDifficulty (pcd_bits: u32)

definition difficulty_from_business :: "compact_difficulty \<Rightarrow> persistent_compact_difficulty" where
  "difficulty_from_business cd = PersistentCompactDifficulty (cd_bits cd)"

definition difficulty_into_business :: "persistent_compact_difficulty \<Rightarrow> io_error + compact_difficulty" where
  "difficulty_into_business p = map_err (\<lambda>e. InvalidData (difficulty_message e)) (try_from_bits (pcd_bits p))"

definition difficulty_encode_v1 :: "persistent_compact_difficulty \<Rightarrow> io_error + u8 list" where
  "difficulty_encode_v1 p = Inr (write_u32_le (pcd_bits p))"

definition difficulty_decode_v1 :: "persistent_compact_difficulty reader" where
  "difficulty_decode_v1 = rbind read_u32_le (\<lambda>bits. rpure (PersistentCompactDifficulty bits))"

definition difficulty_serde :: "persistent_compact_difficulty serde" where
  "difficulty_serde = serde_v1 difficulty_encode_v1 difficulty_decode_v1"

definition difficulty_encoded_len :: "u8 \<Rightarrow> nat option" where
  "difficulty_encoded_len version = (if version = V1 then Some 4 else None)"

record block_index =
  bi_height :: db_height
  bi_hash :: db_block_hash

record block_context =
  bc_index :: block_index
  bc_parent_hash :: db_block_hash
  bc_chainwork :: absolute_chain_work

record persistent_block_context =
  pbc_hash :: db_block_hash
  pbc_parent_hash :: db_block_hash
  pbc_chainwork :: persistent_chain_work
  pbc_height :: db_height

definition context_from_business :: "block_context \<Rightarrow> persistent_block_context" where
  "context_from_business c =
     \<lparr>pbc_hash = bi_hash (bc_index c), pbc_parent_hash = bc_parent_hash c,
      pbc_chainwork = chain_work_from_business (bc_chainwork c), pbc_height = bi_height (bc_index c)\<rparr>"

definition context_into_business :: "persistent_block_context \<Rightarrow> io_error + block_context" where
  "context_into_business p =
     bindE (chain_work_into_business (pbc_chainwork p)) (\<lambda>cw.
       Inr \<lparr>bc_index = \<lparr>bi_height = pbc_height p, bi_hash = pbc_hash p\<rparr>,
            bc_parent_hash = pbc_parent_hash p, bc_chainwork = cw\<rparr>)"

definition context_encode_v1 :: "persistent_block_context \<Rightarrow> io_error + u8 list" where
  "context_encode_v1 p =
     writes [serialize_with_version block_hash_serde (pbc_hash p) 1,
       serialize_with_version block_hash_serde (pbc_parent_hash p) 1,
       serialize_with_version chain_work_serde (pbc_chainwork p) 1,
       write_option (\<lambda>h. serialize_with_version height_serde h 1) (Some (pbc_height p))]"

definition context_encode_v2 :: "persistent_block_context \<Rightarrow> io_error + u8 list" where
  "context_encode_v2 p =
     writes [serialize_with_version block_hash_serde (pbc_hash p) 1,
       serialize_with_version block_hash_serde (pbc_parent_hash p) 1,
       serialize_with_version chain_work_serde (pbc_chainwork p) 1,
       serialize_with_version height_serde (pbc_height p) 1]"

definition context_decode_v1 :: "persistent_block_context reader" where
  "context_decode_v1 =
     rbind (deserialize block_hash_serde) (\<lambda>hash.
     rbind (deserialize block_hash_serde) (\<lambda>parent_hash.
     rbind (deserialize chain_work_serde) (\<lambda>chainwork.
     rbind (read_option (deserialize height_serde)) (\<lambda>height.
       case height of
         None \<Rightarrow> rfail (Panic ''blocks always have height'')
       | Some h \<Rightarrow> rpure \<lparr>pbc_hash = hash, pbc_parent_hash = parent_hash,
                          pbc_chainwork = chainwork, pbc_height = h\<rparr>))))"

definition context_decode_v2 :: "persistent_block_context reader" where
  "context_decode_v2 =
     rbind (deserialize block_hash_serde) (\<lambda>hash.
     rbind (deserialize block_hash_serde) (\<lambda>parent_hash.
     rbind (deserialize chain_work_serde) (\<lambda>chainwork.
     rbind (deserialize height_serde) (\<lambda>height.
       rpure \<lparr>pbc_hash = hash, pbc_parent_hash = parent_hash, pbc_chainwork = chainwork, pbc_height = height\<rparr>))))"

definition context_serde :: "persistent_block_context serde" where
  "context_serde = serde_v2 context_encode_v1 context_encode_v2 context_decode_v1 context_decode_v2"

record block_header_data =
  bhd_context :: block_context
  bhd_data :: block_data

definition header_encode_v1 :: "block_header_data \<Rightarrow> io_error + u8 list" where
  "header_encode_v1 h =
     writes [serialize_with_version context_serde (context_from_business (bhd_context h)) 1,
       serialize_with_version block_data_serde (bhd_data h) 1]"

definition header_encode_v2 :: "block_header_data \<Rightarrow> io_error + u8 list" where
  "header_encode_v2 h =
     writes [serialize_with_version context_serde (context_from_business (bhd_context h)) 2,
       serialize_with_version block_data_serde (bhd_data h) 1]"

definition header_decode_v1 :: "block_header_data reader" where
  "header_decode_v1 =
     rbind (deserialize context_serde) (\<lambda>persistent.
     rbind (case context_into_business persistent of Inl e \<Rightarrow> rfail e | Inr c \<Rightarrow> rpure c) (\<lambda>context.
     rbind (deserialize block_data_serde) (\<lambda>data.
       rpure \<lparr>bhd_context = context, bhd_data = data\<rparr>)))"

definition header_decode_v2 :: "block_header_data reader" where
  "header_decode_v2 = header_decode_v1"

definition header_serde :: "block_header_data serde" where
  "header_serde = serde_v2 header_encode_v1 header_encode_v2 header_decode_v1 header_decode_v2"

section \<open>Per-block lists\<close>

datatype txid_list = TxidList (txl_txids: "db_transaction_hash list")
datatype transparent_tx_list = TransparentTxList (ttl_tx: "transparent_compact_tx option list")
datatype sapling_tx_list = SaplingTxList (stl_tx: "sapling_compact_tx option list")
datatype orchard_tx_list = OrchardTxList (otl_tx: "orchard_compact_tx option list")

definition txid_list_encode_v1 :: "txid_list \<Rightarrow> io_error + u8 list" where
  "txid_list_encode_v1 l = write_vec (\<lambda>h. serialize_with_version transaction_hash_serde h 1) (txl_txids l)"

definition txid_list_decode_v1 :: "txid_list reader" where
  "txid_list_decode_v1 = rbind (read_vec (deserialize transaction_hash_serde)) (\<lambda>tx. rpure (TxidList tx))"

definition txid_list_serde :: "txid_list serde" where
  "txid_list_serde = serde_v1 txid_list_encode_v1 txid_list_decode_v1"

definition transparent_list_encode_v1 :: "transparent_tx_list \<Rightarrow> io_error + u8 list" where
  "transparent_list_encode_v1 l =
     write_vec (write_option (\<lambda>t. serialize_with_version transparent_serde t 1)) (ttl_tx l)"

definition transparent_list_decode_v1 :: "transparent_tx_list reader" where
  "transparent_list_decode_v1 =
     rbind (read_vec (read_option (deserialize transparent_serde))) (\<lambda>tx. rpure (TransparentTxList tx))"

definition transparent_list_serde :: "transparent_tx_list serde" where
  "transparent_list_serde = serde_v1 transparent_list_encode_v1 transparent_list_decode_v1"

definition sapling_list_encode_v1 :: "sapling_tx_list \<Rightarrow> io_error + u8 list" where
  "sapling_list_encode_v1 l =
     write_vec (write_option (\<lambda>t. serialize_with_version sapling_serde t 1)) (stl_tx l)"

definition sapling_list_decode_v1 :: "sapling_tx_list reader" where
  "sapling_list_decode_v1 =
     rbind (read_vec (read_option (deserialize sapling_serde))) (\<lambda>tx. rpure (SaplingTxList tx))"

definition sapling_list_serde :: "sapling_tx_list serde" where
  "sapling_list_serde = serde_v1 sapling_list_encode_v1 sapling_list_decode_v1"

definition orchard_list_encode_v1 :: "orchard_tx_list \<Rightarrow> io_error + u8 list" where
  "orchard_list_encode_v1 l =
     write_vec (write_option (\<lambda>t. serialize_with_version orchard_serde t 1)) (otl_tx l)"

definition orchard_list_decode_v1 :: "orchard_tx_list reader" where
  "orchard_list_decode_v1 =
     rbind (read_vec (read_option (deserialize orchard_serde))) (\<lambda>tx. rpure (OrchardTxList tx))"

definition orchard_list_serde :: "orchard_tx_list serde" where
  "orchard_list_serde = serde_v1 orchard_list_encode_v1 orchard_list_decode_v1"

end
