(* ===== verification/Zaino_Db_Codecs.thy ===== *)
theory Zaino_Db_Codecs
  imports Zaino_Db_Rows
begin

text \<open>
  Every row type of the finalised store meets the contract of \<open>versioned_serde\<close>, by one
  interpretation per type over the store's own encoders and decoders.
\<close>

section \<open>Hashes, heights and addresses\<close>

lemma checked_step_eq_Inr [result_simps]:
  "(case r of Inl e \<Rightarrow> rfail (h e) | Inr y \<Rightarrow> rpure y) bs = Inr (x, rest) \<longleftrightarrow> r = Inr x \<and> rest = bs"
  by (auto split: sum.splits)

lemma expected_step_eq_Inr [result_simps]:
  "(case h of None \<Rightarrow> rfail e | Some y \<Rightarrow> rpure (f y)) bs = Inr (x, rest) \<longleftrightarrow> (\<exists>y. h = Some y \<and> x = f y \<and> rest = bs)"
  by (auto split: option.splits)

definition block_hash_ok :: "db_block_hash \<Rightarrow> bool" where "block_hash_ok h \<longleftrightarrow> length (dbh_bytes h) = 32"
definition transaction_hash_ok :: "db_transaction_hash \<Rightarrow> bool" where "transaction_hash_ok h \<longleftrightarrow> length (dth_bytes h) = 32"
definition db_height_ok :: "db_height \<Rightarrow> bool" where "db_height_ok h \<longleftrightarrow> dbh_u32 h \<le> ZEBRA_MAX_HEIGHT"
definition addr_script_ok :: "addr_script \<Rightarrow> bool" where "addr_script_ok a \<longleftrightarrow> length (as_hash a) = 20"
definition db_outpoint_ok :: "db_outpoint \<Rightarrow> bool" where "db_outpoint_ok o1 \<longleftrightarrow> length (dop_prev_txid o1) = 32"

lemma block_hash_codec: "codec block_hash_ok block_hash_encode_v1 block_hash_decode_v1"
  by standard
    (auto simp: block_hash_ok_def block_hash_encode_v1_def block_hash_decode_v1_def result_simps simp del: int_writers
      intro: reads_map [OF reads_prims(7)])

lemma transaction_hash_codec: "codec transaction_hash_ok transaction_hash_encode_v1 transaction_hash_decode_v1"
  by standard
    (auto simp: transaction_hash_ok_def transaction_hash_encode_v1_def transaction_hash_decode_v1_def result_simps simp del: int_writers
      intro: reads_map [OF reads_prims(7)])

lemma height_codec: "codec db_height_ok height_encode_v1 height_decode_v1"
proof
  fix h assume "db_height_ok h"
  then show "reads height_decode_v1 (height_encode_v1 h) h"
    by (cases h) (simp add: db_height_ok_def height_encode_v1_def height_decode_v1_def db_height_try_from_def
        reads_def codec_simps)
next
  fix bs h rest assume "height_decode_v1 bs = Inr (h, rest)"
  then show "db_height_ok h"
    by (auto simp: db_height_ok_def height_decode_v1_def db_height_try_from_def rbind_eq_Inr split: if_splits sum.splits)
qed

lemma shard_index_codec: "codec (\<lambda>_. True) shard_index_encode_v1 shard_index_decode_v1"
  by standard
    (auto simp: shard_index_encode_v1_def shard_index_decode_v1_def simp del: int_writers
      intro: reads_map [OF reads_prims(4)])

lemma addr_script_codec: "codec addr_script_ok addr_script_encode_v1 addr_script_decode_v1"
proof
  fix x assume ok: "addr_script_ok x"
  show "reads addr_script_decode_v1 (addr_script_encode_v1 x) x"
    unfolding addr_script_decode_v1_def addr_script_encode_v1_def
    by (rule reads_intros | simp add: ok [unfolded addr_script_ok_def])+
qed (auto simp: addr_script_ok_def addr_script_decode_v1_def result_simps)

lemma outpoint_codec: "codec db_outpoint_ok outpoint_encode_v1 outpoint_decode_v1"
proof
  fix x assume ok: "db_outpoint_ok x"
  show "reads outpoint_decode_v1 (outpoint_encode_v1 x) x"
    unfolding outpoint_decode_v1_def outpoint_encode_v1_def
    by (rule reads_intros | simp add: ok [unfolded db_outpoint_ok_def])+
qed (auto simp: db_outpoint_ok_def outpoint_decode_v1_def result_simps)

lemmas block_hash_nested = nested_v1 [OF block_hash_codec, folded block_hash_serde_def]

lemmas transaction_hash_nested = nested_v1 [OF transaction_hash_codec, folded transaction_hash_serde_def]

lemmas height_nested = nested_v1 [OF height_codec, folded height_serde_def]

lemmas shard_index_nested = nested_v1 [OF shard_index_codec, folded shard_index_serde_def]

lemmas addr_script_nested = nested_v1 [OF addr_script_codec, folded addr_script_serde_def]

lemmas outpoint_nested = nested_v1 [OF outpoint_codec, folded outpoint_serde_def]

section \<open>Block data\<close>

definition equihash_ok :: "db_equihash_solution \<Rightarrow> bool" where
  "equihash_ok s \<longleftrightarrow> (case s of DbStandard b \<Rightarrow> length b = 1344 | DbRegtest b \<Rightarrow> length b = 36)"

definition difficulty_ok :: "compact_difficulty \<Rightarrow> bool" where
  "difficulty_ok c \<longleftrightarrow> try_from_bits (cd_bits c) = Inr c"

definition block_data_ok :: "block_data \<Rightarrow> bool" where
  "block_data_ok d \<longleftrightarrow> length (bd_merkle_root d) = 32 \<and> length (bd_block_commitments d) = 32
     \<and> difficulty_ok (bd_bits d) \<and> length (bd_nonce d) = 32 \<and> equihash_ok (bd_solution d)"

lemma equihash_codec: "codec equihash_ok equihash_encode_v1 equihash_decode_v1"
proof
  fix s assume "equihash_ok s"
  then show "reads equihash_decode_v1 (equihash_encode_v1 s) s"
    by (cases s) (simp_all add: equihash_ok_def equihash_encode_v1_def equihash_decode_v1_def reads_def codec_simps)
qed (auto simp: equihash_ok_def equihash_decode_v1_def result_simps split: if_splits)

lemmas equihash_nested = nested_v1 [OF equihash_codec, folded equihash_serde_def]

lemma try_from_bits_again:
  assumes "try_from_bits bits = Inr c"
  shows "try_from_bits (cd_bits c) = Inr c"
proof -
  have "cd_bits c = bits"
    using assms by (auto simp: try_from_bits_def Let_def bindE_eq_Inr split: if_splits)
  with assms show ?thesis by simp
qed

lemma block_data_codec: "codec block_data_ok block_data_encode_v1 block_data_decode_v1"
proof
  fix x assume "block_data_ok x"
  then have ok: "length (bd_merkle_root x) = 32" "length (bd_block_commitments x) = 32"
    "try_from_bits (cd_bits (bd_bits x)) = Inr (bd_bits x)" "length (bd_nonce x) = 32" "equihash_ok (bd_solution x)"
    by (simp_all add: block_data_ok_def difficulty_ok_def)
  show "reads block_data_decode_v1 (block_data_encode_v1 x) x"
    unfolding block_data_decode_v1_def block_data_encode_v1_def
    by (rule reads_intros reads_step codec.reads_back [OF equihash_nested] | simp add: ok)+
next
  fix bs x rest assume "block_data_decode_v1 bs = Inr (x, rest)"
  then show "block_data_ok x"
    by (auto simp: block_data_ok_def difficulty_ok_def block_data_decode_v1_def result_simps
        dest!: codec.typed [OF equihash_nested] intro: try_from_bits_again)
qed

lemmas block_data_nested = nested_v1 [OF block_data_codec, folded block_data_serde_def]

section \<open>Transparent transactions\<close>

definition tx_in_ok :: "tx_in_compact \<Rightarrow> bool" where "tx_in_ok i \<longleftrightarrow> length (tic_prevout_txid i) = 32"

definition tx_out_ok :: "tx_out_compact \<Rightarrow> bool" where
  "tx_out_ok out \<longleftrightarrow> length (toc_script_hash out) = 20 \<and> \<not> isl (script_type_try_from (toc_script_type out))"

definition transparent_ok :: "transparent_compact_tx \<Rightarrow> bool" where
  "transparent_ok t \<longleftrightarrow> vec_ok tx_in_ok (tct_vin t) \<and> vec_ok tx_out_ok (tct_vout t)"

lemma tx_in_codec: "codec tx_in_ok tx_in_encode_v1 tx_in_decode_v1"
proof
  fix x assume ok: "tx_in_ok x"
  show "reads tx_in_decode_v1 (tx_in_encode_v1 x) x"
    unfolding tx_in_decode_v1_def tx_in_encode_v1_def
    by (rule reads_intros | simp add: ok [unfolded tx_in_ok_def])+
qed (auto simp: tx_in_ok_def tx_in_decode_v1_def result_simps)

lemmas tx_in_nested = nested_v1 [OF tx_in_codec, folded tx_in_serde_def]

lemma script_type_codec: "codec (\<lambda>_. True) script_type_encode_v1 script_type_decode_v1"
proof
  fix t :: db_script_type
  show "reads script_type_decode_v1 (script_type_encode_v1 t) t"
    by (cases t) (simp_all add: script_type_encode_v1_def script_type_decode_v1_def script_type_u8_def
        script_type_try_from_def reads_def codec_simps)
qed simp

lemmas script_type_nested = nested_v1 [OF script_type_codec, folded script_type_serde_def]

lemma tx_out_new_Some:
  "tx_out_new v h t = Some out \<longleftrightarrow>
     \<not> isl (script_type_try_from t) \<and> out = \<lparr>toc_value = v, toc_script_hash = h, toc_script_type = t\<rparr>"
  by (auto simp: tx_out_new_def split: sum.splits)

lemma tx_out_codec: "codec tx_out_ok tx_out_encode_v1 tx_out_decode_v1"
proof
  fix x assume ok: "tx_out_ok x"
  then have new: "tx_out_new (toc_value x) (toc_script_hash x) (toc_script_type x) = Some x"
    by (simp add: tx_out_ok_def tx_out_new_Some)
  then show "reads tx_out_decode_v1 (tx_out_encode_v1 x) x"
    using ok unfolding tx_out_ok_def tx_out_encode_v1_def tx_out_decode_v1_def
    by (simp add: reads_def codec_simps)
next
  fix bs x rest assume "tx_out_decode_v1 bs = Inr (x, rest)"
  then show "tx_out_ok x"
    by (auto simp: tx_out_ok_def tx_out_decode_v1_def tx_out_new_Some result_simps split: option.splits)
qed

lemmas tx_out_nested = nested_v1 [OF tx_out_codec, folded tx_out_serde_def]

lemma transparent_codec: "codec transparent_ok transparent_encode_v1 transparent_decode_v1"
proof
  fix x assume ok: "transparent_ok x"
  show "reads transparent_decode_v1 (transparent_encode_v1 x) x"
    unfolding transparent_decode_v1_def transparent_encode_v1_def
    by (rule reads_intros codec.reads_back [OF codec.vec_codec [OF tx_in_nested]] codec.reads_back [OF codec.vec_codec [OF tx_out_nested]] | simp add: ok [unfolded transparent_ok_def])+
qed (auto simp: transparent_ok_def transparent_decode_v1_def result_simps
    dest!: codec.typed [OF codec.vec_codec [OF tx_in_nested]] codec.typed [OF codec.vec_codec [OF tx_out_nested]])

lemmas transparent_nested = nested_v1 [OF transparent_codec, folded transparent_serde_def]

section \<open>Shielded transactions\<close>

definition sapling_spend_ok :: "compact_sapling_spend \<Rightarrow> bool" where "sapling_spend_ok s \<longleftrightarrow> length (css_nf s) = 32"

definition sapling_output_ok :: "compact_sapling_output \<Rightarrow> bool" where
  "sapling_output_ok o1 \<longleftrightarrow> length (cso_cmu o1) = 32 \<and> length (cso_ephemeral_key o1) = 32 \<and> length (cso_ciphertext o1) = 52"

definition sapling_ok :: "sapling_compact_tx \<Rightarrow> bool" where
  "sapling_ok t \<longleftrightarrow> vec_ok sapling_spend_ok (sct_spends t) \<and> vec_ok sapling_output_ok (sct_outputs t)"

definition orchard_action_ok :: "compact_orchard_action \<Rightarrow> bool" where
  "orchard_action_ok a \<longleftrightarrow> length (coa_nullifier a) = 32 \<and> length (coa_cmx a) = 32
     \<and> length (coa_ephemeral_key a) = 32 \<and> length (coa_ciphertext a) = 52"

definition orchard_ok :: "orchard_compact_tx \<Rightarrow> bool" where
  "orchard_ok t \<longleftrightarrow> vec_ok orchard_action_ok (oct_actions t)"

interpretation i64_le: codec "\<lambda>_. True" "\<lambda>v. Inr (write_i64_le v)" read_i64_le
  by standard (rule reads_prims, simp)

lemma sapling_spend_codec: "codec sapling_spend_ok sapling_spend_encode_v1 sapling_spend_decode_v1"
  by standard
    (auto simp: sapling_spend_ok_def sapling_spend_encode_v1_def sapling_spend_decode_v1_def result_simps
      simp del: int_writers intro: reads_map [OF reads_prims(7)])

lemmas sapling_spend_nested = nested_v1 [OF sapling_spend_codec, folded sapling_spend_serde_def]

lemma sapling_output_codec: "codec sapling_output_ok sapling_output_encode_v1 sapling_output_decode_v1"
proof
  fix x assume ok: "sapling_output_ok x"
  show "reads sapling_output_decode_v1 (sapling_output_encode_v1 x) x"
    unfolding sapling_output_decode_v1_def sapling_output_encode_v1_def
    by (rule reads_intros | simp add: ok [unfolded sapling_output_ok_def])+
qed (auto simp: sapling_output_ok_def sapling_output_decode_v1_def result_simps)

lemmas sapling_output_nested = nested_v1 [OF sapling_output_codec, folded sapling_output_serde_def]

lemma sapling_codec: "codec sapling_ok sapling_encode_v1 sapling_decode_v1"
proof
  fix x assume ok: "sapling_ok x"
  show "reads sapling_decode_v1 (sapling_encode_v1 x) x"
    unfolding sapling_decode_v1_def sapling_encode_v1_def
    by (rule reads_intros codec.reads_back [OF i64_le.option_codec] codec.reads_back [OF codec.vec_codec [OF sapling_spend_nested]] codec.reads_back [OF codec.vec_codec [OF sapling_output_nested]] | simp add: option.pred_True ok [unfolded sapling_ok_def])+
qed (auto simp: sapling_ok_def sapling_decode_v1_def result_simps
    dest!: codec.typed [OF i64_le.option_codec] codec.typed [OF codec.vec_codec [OF sapling_spend_nested]] codec.typed [OF codec.vec_codec [OF sapling_output_nested]])

lemmas sapling_nested = nested_v1 [OF sapling_codec, folded sapling_serde_def]

lemma orchard_action_codec: "codec orchard_action_ok orchard_action_encode_v1 orchard_action_decode_v1"
proof
  fix x assume ok: "orchard_action_ok x"
  show "reads orchard_action_decode_v1 (orchard_action_encode_v1 x) x"
    unfolding orchard_action_decode_v1_def orchard_action_encode_v1_def
    by (rule reads_intros | simp add: ok [unfolded orchard_action_ok_def])+
qed (auto simp: orchard_action_ok_def orchard_action_decode_v1_def result_simps)

lemmas orchard_action_nested = nested_v1 [OF orchard_action_codec, folded orchard_action_serde_def]

lemma orchard_codec: "codec orchard_ok orchard_encode_v1 orchard_decode_v1"
proof
  fix x assume ok: "orchard_ok x"
  show "reads orchard_decode_v1 (orchard_encode_v1 x) x"
    unfolding orchard_decode_v1_def orchard_encode_v1_def
    by (rule reads_intros codec.reads_back [OF i64_le.option_codec] codec.reads_back [OF codec.vec_codec [OF orchard_action_nested]] | simp add: option.pred_True ok [unfolded orchard_ok_def])+
qed (auto simp: orchard_ok_def orchard_decode_v1_def result_simps
    dest!: codec.typed [OF i64_le.option_codec] codec.typed [OF codec.vec_codec [OF orchard_action_nested]])

lemmas orchard_nested = nested_v1 [OF orchard_codec, folded orchard_serde_def]

section \<open>Locations and address history\<close>

definition addr_event_ok :: "addr_event_bytes \<Rightarrow> bool" where "addr_event_ok e \<longleftrightarrow> length (aeb_bytes e) = 17"

definition shard_root_ok :: "shard_root \<Rightarrow> bool" where
  "shard_root_ok s \<longleftrightarrow> length (shr_hash s) = 32 \<and> length (shr_final_block_hash s) = 32"

lemma tx_location_codec: "codec (\<lambda>_. True) tx_location_encode_v1 tx_location_decode_v1"
proof
  fix x assume ok: "(\<lambda>_. True) x"
  show "reads tx_location_decode_v1 (tx_location_encode_v1 x) x"
    unfolding tx_location_decode_v1_def tx_location_encode_v1_def
    by (rule reads_intros | simp)+
qed (auto simp:  tx_location_decode_v1_def result_simps)

lemmas tx_location_nested = nested_v1 [OF tx_location_codec, folded tx_location_serde_def]

lemma addr_hist_codec: "codec (\<lambda>_. True) addr_hist_encode_v1 addr_hist_decode_v1"
proof
  fix x assume ok: "(\<lambda>_. True) x"
  show "reads addr_hist_decode_v1 (addr_hist_encode_v1 x) x"
    unfolding addr_hist_decode_v1_def addr_hist_encode_v1_def
    by (rule reads_intros codec.reads_back [OF tx_location_nested] | simp)+
qed (auto simp:  addr_hist_decode_v1_def result_simps
    dest!: codec.typed [OF tx_location_nested])

lemmas addr_hist_nested = nested_v1 [OF addr_hist_codec, folded addr_hist_serde_def]

lemma addr_event_codec: "codec addr_event_ok addr_event_encode_v1 addr_event_decode_v1"
  by standard
    (auto simp: addr_event_ok_def addr_event_encode_v1_def addr_event_decode_v1_def result_simps
      simp del: int_writers intro: reads_map [OF reads_prims(7)])

lemma shard_root_codec: "codec shard_root_ok shard_root_encode_v1 shard_root_decode_v1"
proof
  fix x assume ok: "shard_root_ok x"
  show "reads shard_root_decode_v1 (shard_root_encode_v1 x) x"
    unfolding shard_root_decode_v1_def shard_root_encode_v1_def
    by (rule reads_intros | simp add: ok [unfolded shard_root_ok_def])+
qed (auto simp: shard_root_ok_def shard_root_decode_v1_def result_simps)

section \<open>Commitment trees\<close>

definition tree_roots_ok :: "commitment_tree_roots \<Rightarrow> bool" where
  "tree_roots_ok t \<longleftrightarrow> length (ctr_sapling t) = 32 \<and> length (ctr_orchard t) = 32
     \<and> pred_option (\<lambda>r. length r = 32) (ctr_ironwood t)"

definition tree_data_ok :: "commitment_tree_data \<Rightarrow> bool" where
  "tree_data_ok d \<longleftrightarrow> tree_roots_ok (ctd_roots d)"

interpretation root_bytes: codec "\<lambda>r. length r = 32" "\<lambda>v. Inr (write_fixed_le v)" "read_fixed_le 32"
  by standard (erule reads_prims, simp add: result_simps)

lemma tree_roots_codec_v2: "codec tree_roots_ok tree_roots_encode_v2 tree_roots_decode_v2"
proof
  fix x assume ok: "tree_roots_ok x"
  show "reads tree_roots_decode_v2 (tree_roots_encode_v2 x) x"
    unfolding tree_roots_decode_v2_def tree_roots_encode_v2_def
    by (rule reads_intros codec.reads_back [OF root_bytes.option_codec] | simp add: ok [unfolded tree_roots_ok_def])+
qed (auto simp: tree_roots_ok_def tree_roots_decode_v2_def result_simps
    dest!: codec.typed [OF root_bytes.option_codec])

text \<open>The first version keeps no Ironwood root: it reads back without one.\<close>

lemma tree_roots_v1:
  assumes "tree_roots_ok x"
  shows "reads tree_roots_decode_v1 (tree_roots_encode_v1 x) (x\<lparr>ctr_ironwood := None\<rparr>)"
  unfolding tree_roots_decode_v1_def tree_roots_encode_v1_def
  by (rule reads_intros | simp add: assms [unfolded tree_roots_ok_def])+

lemma tree_roots_versioned: "versioned_serde tree_roots_serde tree_roots_ok"
  unfolding tree_roots_serde_def
proof (rule serde_v2_versioned [OF tree_roots_codec_v2])
  fix x bs assume ok: "tree_roots_ok x" and bs: "tree_roots_encode_v1 x = Inr bs"
  let ?y = "x\<lparr>ctr_ironwood := None\<rparr>"
  have "tree_roots_ok ?y" using ok by (simp add: tree_roots_ok_def)
  moreover have "tree_roots_encode_v1 ?y = tree_roots_encode_v1 x" by (simp add: tree_roots_encode_v1_def)
  ultimately show "\<exists>y. tree_roots_ok y \<and> tree_roots_encode_v1 y = Inr bs
      \<and> reads tree_roots_decode_v1 (tree_roots_encode_v1 y) y"
    using tree_roots_v1 [OF ok] bs by metis
qed (auto simp: tree_roots_ok_def tree_roots_decode_v1_def result_simps)

lemma tree_sizes_codec_v2: "codec (\<lambda>_. True) tree_sizes_encode_v2 tree_sizes_decode_v2"
proof
  fix x :: commitment_tree_sizes
  show "reads tree_sizes_decode_v2 (tree_sizes_encode_v2 x) x"
    unfolding tree_sizes_decode_v2_def tree_sizes_encode_v2_def by (rule reads_intros | simp)+
qed simp

lemma tree_sizes_v1: "reads tree_sizes_decode_v1 (tree_sizes_encode_v1 x) (x\<lparr>cts_ironwood := 0\<rparr>)"
  unfolding tree_sizes_decode_v1_def tree_sizes_encode_v1_def by (rule reads_intros | simp)+

lemma tree_sizes_versioned: "versioned_serde tree_sizes_serde (\<lambda>_. True)"
  unfolding tree_sizes_serde_def
proof (rule serde_v2_versioned [OF tree_sizes_codec_v2])
  fix x bs assume bs: "tree_sizes_encode_v1 x = Inr bs"
  have "tree_sizes_encode_v1 (x\<lparr>cts_ironwood := 0\<rparr>) = tree_sizes_encode_v1 x"
    by (simp add: tree_sizes_encode_v1_def)
  then show "\<exists>y. True \<and> tree_sizes_encode_v1 y = Inr bs \<and> reads tree_sizes_decode_v1 (tree_sizes_encode_v1 y) y"
    using tree_sizes_v1 [of x] bs by metis
qed simp

lemmas tree_roots_nested = nested_v2 [OF tree_roots_versioned [unfolded tree_roots_serde_def], folded tree_roots_serde_def]
lemmas tree_sizes_nested = nested_v2 [OF tree_sizes_versioned [unfolded tree_sizes_serde_def], folded tree_sizes_serde_def]

lemma tree_roots_older: "tree_roots_ok x \<Longrightarrow>
  reads (deserialize tree_roots_serde) (serialize_with_version tree_roots_serde x 1) (x\<lparr>ctr_ironwood := None\<rparr>)"
  by (rule nested_older)
    (use tree_roots_v1 in \<open>simp add: body_v1 tree_roots_serde_def serde_v2_def\<close>)

lemma tree_sizes_older:
  "reads (deserialize tree_sizes_serde) (serialize_with_version tree_sizes_serde x 1) (x\<lparr>cts_ironwood := 0\<rparr>)"
  by (rule nested_older)
    (use tree_sizes_v1 in \<open>simp add: body_v1 tree_sizes_serde_def serde_v2_def\<close>)

definition tree_data_v1 :: "commitment_tree_data \<Rightarrow> commitment_tree_data" where
  "tree_data_v1 d = \<lparr>ctd_roots = (ctd_roots d)\<lparr>ctr_ironwood := None\<rparr>, ctd_sizes = (ctd_sizes d)\<lparr>cts_ironwood := 0\<rparr>\<rparr>"

lemma tree_data_codec_v2: "codec tree_data_ok tree_data_encode_v2 tree_data_decode_v2"
proof
  fix x assume ok: "tree_data_ok x"
  show "reads tree_data_decode_v2 (tree_data_encode_v2 x) x"
    unfolding tree_data_decode_v2_def tree_data_encode_v2_def
    by (rule reads_intros codec.reads_back [OF tree_roots_nested] codec.reads_back [OF tree_sizes_nested]
        | simp add: ok [unfolded tree_data_ok_def])+
qed (auto simp: tree_data_ok_def tree_data_decode_v2_def result_simps dest!: codec.typed [OF tree_roots_nested])

lemma tree_data_encode_v1_same: "tree_data_encode_v1 (tree_data_v1 x) = tree_data_encode_v1 x"
  by (simp add: tree_data_encode_v1_def tree_data_v1_def serialize_with_version_def body_v1
      tree_roots_serde_def tree_sizes_serde_def serde_v2_def tree_roots_encode_v1_def tree_sizes_encode_v1_def)

lemma tree_data_reads_v1:
  assumes "tree_data_ok x"
  shows "reads tree_data_decode_v1 (tree_data_encode_v1 x) (tree_data_v1 x)"
  unfolding tree_data_decode_v1_def tree_data_encode_v1_def
  by (rule reads_intros tree_roots_older tree_sizes_older
      | simp add: assms [unfolded tree_data_ok_def] tree_data_v1_def)+

lemma tree_data_versioned: "versioned_serde tree_data_serde tree_data_ok"
  unfolding tree_data_serde_def
proof (rule serde_v2_versioned [OF tree_data_codec_v2])
  fix x bs assume ok: "tree_data_ok x" and bs: "tree_data_encode_v1 x = Inr bs"
  have "reads tree_data_decode_v1 (tree_data_encode_v1 x) (tree_data_v1 x)"
    using ok by (rule tree_data_reads_v1)
  moreover note tree_data_encode_v1_same [of x]
  moreover have "tree_data_ok (tree_data_v1 x)"
    using ok by (simp add: tree_data_ok_def tree_data_v1_def tree_roots_ok_def)
  ultimately show "\<exists>y. tree_data_ok y \<and> tree_data_encode_v1 y = Inr bs
      \<and> reads tree_data_decode_v1 (tree_data_encode_v1 y) y"
    using bs by metis
qed (auto simp: tree_data_ok_def tree_data_decode_v1_def result_simps dest!: codec.typed [OF tree_roots_nested])

section \<open>Block contexts and headers\<close>

definition chain_work_ok :: "persistent_chain_work \<Rightarrow> bool" where "chain_work_ok p \<longleftrightarrow> length (pcw_bytes p) = 32"

definition context_ok :: "persistent_block_context \<Rightarrow> bool" where
  "context_ok p \<longleftrightarrow> block_hash_ok (pbc_hash p) \<and> block_hash_ok (pbc_parent_hash p)
     \<and> chain_work_ok (pbc_chainwork p) \<and> db_height_ok (pbc_height p)"

definition block_context_ok :: "block_context \<Rightarrow> bool" where
  "block_context_ok c \<longleftrightarrow> block_hash_ok (bi_hash (bc_index c)) \<and> db_height_ok (bi_height (bc_index c))
     \<and> block_hash_ok (bc_parent_hash c) \<and> acw_ok (bc_chainwork c)"

definition header_ok :: "block_header_data \<Rightarrow> bool" where
  "header_ok h \<longleftrightarrow> block_context_ok (bhd_context h) \<and> block_data_ok (bhd_data h)"

lemma chain_work_codec: "codec chain_work_ok chain_work_encode_v1 chain_work_decode_v1"
  by standard
    (auto simp: chain_work_ok_def chain_work_encode_v1_def chain_work_decode_v1_def result_simps
      simp del: int_writers intro: reads_map [OF reads_prims(7)])

lemmas chain_work_nested = nested_v1 [OF chain_work_codec, folded chain_work_serde_def]

lemma difficulty_codec: "codec (\<lambda>_. True) difficulty_encode_v1 difficulty_decode_v1"
  by standard
    (auto simp: difficulty_encode_v1_def difficulty_decode_v1_def simp del: int_writers
      intro: reads_map [OF reads_prims(3)])

lemmas difficulty_nested = nested_v1 [OF difficulty_codec, folded difficulty_serde_def]

lemmas context_reads = codec.reads_back [OF block_hash_nested] codec.reads_back [OF chain_work_nested]
  codec.reads_back [OF height_nested] codec.reads_back [OF codec.option_codec [OF height_nested]]

lemmas context_typed = codec.typed [OF block_hash_nested] codec.typed [OF chain_work_nested]
  codec.typed [OF height_nested] codec.typed [OF codec.option_codec [OF height_nested]]

lemma context_codec_v2: "codec context_ok context_encode_v2 context_decode_v2"
proof
  fix x assume ok: "context_ok x"
  show "reads context_decode_v2 (context_encode_v2 x) x"
    unfolding context_decode_v2_def context_encode_v2_def
    by (rule reads_intros context_reads | simp add: ok [unfolded context_ok_def])+
qed (auto simp: context_ok_def context_decode_v2_def result_simps dest!: context_typed)

lemma context_v1:
  assumes "context_ok x"
  shows "reads context_decode_v1 (context_encode_v1 x) x"
  unfolding context_decode_v1_def context_encode_v1_def
  by (rule reads_intros context_reads | simp add: assms [unfolded context_ok_def])+

lemma context_versioned: "versioned_serde context_serde context_ok"
  unfolding context_serde_def
proof (rule serde_v2_versioned [OF context_codec_v2])
  show "\<exists>y. context_ok y \<and> context_encode_v1 y = Inr bs \<and> reads context_decode_v1 (context_encode_v1 y) y"
    if "context_ok x" and "context_encode_v1 x = Inr bs" for x bs
    using that context_v1 by blast
  show "context_ok x" if "context_decode_v1 bs = Inr (x, rest)" for bs x rest
    using that unfolding context_decode_v1_def by (auto simp: context_ok_def result_simps dest!: context_typed)
qed

lemmas context_nested = nested_v2 [OF context_versioned [unfolded context_serde_def], folded context_serde_def]

lemma context_older: "context_ok x \<Longrightarrow> reads (deserialize context_serde) (serialize_with_version context_serde x 1) x"
  by (rule nested_older) (use context_v1 in \<open>simp add: body_v1 context_serde_def serde_v2_def\<close>)

lemma context_business_roundtrip:
  assumes "acw_ok (bc_chainwork c)"
  shows "context_into_business (context_from_business c) = Inr c"
  using assms
  by (simp add: context_into_business_def context_from_business_def chain_work_into_business_def
      chain_work_from_business_def acw_try_from_reported_def split_bytes_def acw_to_be_bytes_def
      nonzero_new_def acw_ok_def)

lemma context_from_business_ok: "block_context_ok c \<Longrightarrow> context_ok (context_from_business c)"
  by (simp add: block_context_ok_def context_ok_def context_from_business_def chain_work_ok_def
      chain_work_from_business_def acw_to_be_bytes_def)

lemma context_into_business_ok:
  "context_ok p \<Longrightarrow> context_into_business p = Inr c \<Longrightarrow> block_context_ok c"
  by (auto simp: context_ok_def block_context_ok_def context_into_business_def chain_work_into_business_def
      acw_try_from_reported_def nonzero_new_def acw_ok_def Let_def result_simps split: if_splits prod.splits)

lemmas header_typed = codec.typed [OF context_nested] codec.typed [OF block_data_nested]

lemma header_reads:
  assumes ok: "header_ok x"
    and ctx: "reads (deserialize context_serde) w (context_from_business (bhd_context x))"
  shows "reads header_decode_v1 (writes [w, serialize_with_version block_data_serde (bhd_data x) 1]) x"
proof -
  from ok have business: "context_into_business (context_from_business (bhd_context x)) = Inr (bhd_context x)"
    by (intro context_business_roundtrip) (simp add: header_ok_def block_context_ok_def)
  have data: "reads (deserialize block_data_serde) (serialize_with_version block_data_serde (bhd_data x) 1) (bhd_data x)"
    using codec.reads_back [OF block_data_nested] ok by (simp add: header_ok_def)
  show ?thesis
    unfolding header_decode_v1_def
    by (rule reads_bind [OF ctx], rule reads_step, simp add: business, rule reads_bind [OF data])
      (simp add: reads_done)
qed

lemma header_decode_ok: "header_decode_v1 bs = Inr (x, rest) \<Longrightarrow> header_ok x"
  by (auto simp: header_ok_def header_decode_v1_def result_simps
      dest!: header_typed intro: context_into_business_ok)

lemma header_codec_v2: "codec header_ok header_encode_v2 header_decode_v2"
proof
  fix x assume ok: "header_ok x"
  then have "context_ok (context_from_business (bhd_context x))"
    by (simp add: header_ok_def context_from_business_ok)
  with ok show "reads header_decode_v2 (header_encode_v2 x) x"
    unfolding header_decode_v2_def header_encode_v2_def
    by (intro header_reads codec.reads_back [OF context_nested])
qed (simp add: header_decode_v2_def header_decode_ok)

lemma header_versioned: "versioned_serde header_serde header_ok"
  unfolding header_serde_def
proof (rule serde_v2_versioned [OF header_codec_v2])
  fix x bs assume ok: "header_ok x" and bs: "header_encode_v1 x = Inr bs"
  have "context_ok (context_from_business (bhd_context x))"
    using ok by (simp add: header_ok_def context_from_business_ok)
  then have "reads header_decode_v1 (header_encode_v1 x) x"
    unfolding header_encode_v1_def using ok by (intro header_reads context_older)
  with ok bs show "\<exists>y. header_ok y \<and> header_encode_v1 y = Inr bs \<and> reads header_decode_v1 (header_encode_v1 y) y"
    by blast
qed (rule header_decode_ok)

section \<open>Per-block lists\<close>

definition txid_list_ok :: "txid_list \<Rightarrow> bool" where "txid_list_ok l \<longleftrightarrow> vec_ok transaction_hash_ok (txl_txids l)"
definition transparent_list_ok :: "transparent_tx_list \<Rightarrow> bool" where
  "transparent_list_ok l \<longleftrightarrow> vec_ok (pred_option transparent_ok) (ttl_tx l)"
definition sapling_list_ok :: "sapling_tx_list \<Rightarrow> bool" where
  "sapling_list_ok l \<longleftrightarrow> vec_ok (pred_option sapling_ok) (stl_tx l)"
definition orchard_list_ok :: "orchard_tx_list \<Rightarrow> bool" where
  "orchard_list_ok l \<longleftrightarrow> vec_ok (pred_option orchard_ok) (otl_tx l)"

text \<open>A wrapper around a codec: the constructor \<open>wrap\<close> with its selector \<open>sel\<close>.\<close>

lemma wrapped_codec:
  assumes "codec ok enc dec" and "\<And>x. wrap (sel x) = x" and "\<And>y. sel (wrap y) = y"
  shows "codec (\<lambda>x. ok (sel x)) (\<lambda>x. enc (sel x)) (rbind dec (\<lambda>y. rpure (wrap y)))"
proof
  fix x assume "ok (sel x)"
  then show "reads (rbind dec (\<lambda>y. rpure (wrap y))) (enc (sel x)) x"
    by (rule reads_map [OF codec.reads_back [OF assms(1)]]) (rule assms(2))
next
  fix bs x rest assume "rbind dec (\<lambda>y. rpure (wrap y)) bs = Inr (x, rest)"
  then obtain y mid where "dec bs = Inr (y, mid)" "x = wrap y" by (auto simp: rbind_eq_Inr)
  then show "ok (sel x)" using codec.typed [OF assms(1)] assms(3) by simp
qed

lemma txid_list_codec: "codec txid_list_ok txid_list_encode_v1 txid_list_decode_v1"
  using wrapped_codec [OF codec.vec_codec [OF transaction_hash_nested], of TxidList txl_txids]
  by (simp add: txid_list_ok_def [abs_def] txid_list_encode_v1_def [abs_def] txid_list_decode_v1_def)

lemma transparent_list_codec: "codec transparent_list_ok transparent_list_encode_v1 transparent_list_decode_v1"
  using wrapped_codec [OF codec.vec_codec [OF codec.option_codec [OF transparent_nested]], of TransparentTxList ttl_tx]
  by (simp add: transparent_list_ok_def [abs_def] transparent_list_encode_v1_def [abs_def] transparent_list_decode_v1_def)

lemma sapling_list_codec: "codec sapling_list_ok sapling_list_encode_v1 sapling_list_decode_v1"
  using wrapped_codec [OF codec.vec_codec [OF codec.option_codec [OF sapling_nested]], of SaplingTxList stl_tx]
  by (simp add: sapling_list_ok_def [abs_def] sapling_list_encode_v1_def [abs_def] sapling_list_decode_v1_def)

lemma orchard_list_codec: "codec orchard_list_ok orchard_list_encode_v1 orchard_list_decode_v1"
  using wrapped_codec [OF codec.vec_codec [OF codec.option_codec [OF orchard_nested]], of OrchardTxList otl_tx]
  by (simp add: orchard_list_ok_def [abs_def] orchard_list_encode_v1_def [abs_def] orchard_list_decode_v1_def)

section \<open>The contracts, on the store's own types\<close>

interpretation block_hash: fixed_encoded_len block_hash_serde block_hash_ok block_hash_encoded_len
  unfolding block_hash_serde_def block_hash_encoded_len_def [abs_def]
  by (rule serde_v1_fixed [OF block_hash_codec]) (auto simp: block_hash_ok_def block_hash_encode_v1_def)

interpretation transaction_hash: fixed_encoded_len transaction_hash_serde transaction_hash_ok transaction_hash_encoded_len
  unfolding transaction_hash_serde_def transaction_hash_encoded_len_def [abs_def]
  by (rule serde_v1_fixed [OF transaction_hash_codec]) (auto simp: transaction_hash_ok_def transaction_hash_encode_v1_def)

interpretation height: fixed_encoded_len height_serde db_height_ok height_encoded_len
  unfolding height_serde_def height_encoded_len_def [abs_def]
  by (rule serde_v1_fixed [OF height_codec]) (auto simp: db_height_ok_def height_encode_v1_def)

interpretation shard_index: fixed_encoded_len shard_index_serde "\<lambda>_. True" shard_index_encoded_len
  unfolding shard_index_serde_def shard_index_encoded_len_def [abs_def]
  by (rule serde_v1_fixed [OF shard_index_codec]) (auto simp: shard_index_encode_v1_def)

interpretation addr_script: fixed_encoded_len addr_script_serde addr_script_ok addr_script_encoded_len
  unfolding addr_script_serde_def addr_script_encoded_len_def [abs_def]
  by (rule serde_v1_fixed [OF addr_script_codec]) (auto simp: addr_script_ok_def addr_script_encode_v1_def)

interpretation outpoint: fixed_encoded_len outpoint_serde db_outpoint_ok outpoint_encoded_len
  unfolding outpoint_serde_def outpoint_encoded_len_def [abs_def]
  by (rule serde_v1_fixed [OF outpoint_codec]) (auto simp: db_outpoint_ok_def outpoint_encode_v1_def)

interpretation tx_in: fixed_encoded_len tx_in_serde tx_in_ok tx_in_encoded_len
  unfolding tx_in_serde_def tx_in_encoded_len_def [abs_def]
  by (rule serde_v1_fixed [OF tx_in_codec]) (auto simp: tx_in_ok_def tx_in_encode_v1_def)

interpretation script_type: fixed_encoded_len script_type_serde "\<lambda>_. True" script_type_encoded_len
  unfolding script_type_serde_def script_type_encoded_len_def [abs_def]
  by (rule serde_v1_fixed [OF script_type_codec]) (auto simp: script_type_encode_v1_def)

interpretation tx_out: fixed_encoded_len tx_out_serde tx_out_ok tx_out_encoded_len
  unfolding tx_out_serde_def tx_out_encoded_len_def [abs_def]
  by (rule serde_v1_fixed [OF tx_out_codec]) (auto simp: tx_out_ok_def tx_out_encode_v1_def)

interpretation sapling_spend: fixed_encoded_len sapling_spend_serde sapling_spend_ok sapling_spend_encoded_len
  unfolding sapling_spend_serde_def sapling_spend_encoded_len_def [abs_def]
  by (rule serde_v1_fixed [OF sapling_spend_codec]) (auto simp: sapling_spend_ok_def sapling_spend_encode_v1_def)

interpretation sapling_output: fixed_encoded_len sapling_output_serde sapling_output_ok sapling_output_encoded_len
  unfolding sapling_output_serde_def sapling_output_encoded_len_def [abs_def]
  by (rule serde_v1_fixed [OF sapling_output_codec]) (auto simp: sapling_output_ok_def sapling_output_encode_v1_def)

interpretation orchard_action: fixed_encoded_len orchard_action_serde orchard_action_ok orchard_action_encoded_len
  unfolding orchard_action_serde_def orchard_action_encoded_len_def [abs_def]
  by (rule serde_v1_fixed [OF orchard_action_codec]) (auto simp: orchard_action_ok_def orchard_action_encode_v1_def)

interpretation tx_location: fixed_encoded_len tx_location_serde "\<lambda>_. True" tx_location_encoded_len
  unfolding tx_location_serde_def tx_location_encoded_len_def [abs_def]
  by (rule serde_v1_fixed [OF tx_location_codec]) (auto simp: tx_location_encode_v1_def)

interpretation addr_hist: fixed_encoded_len addr_hist_serde "\<lambda>_. True" addr_hist_encoded_len
  unfolding addr_hist_serde_def addr_hist_encoded_len_def [abs_def]
  by (rule serde_v1_fixed [OF addr_hist_codec]) (auto simp: addr_hist_encode_v1_def serialize_with_version_def encode_body_def tx_location_serde_def serde_v1_def tx_location_encode_v1_def V1_def bindE_eq_Inr)

interpretation addr_event: fixed_encoded_len addr_event_serde addr_event_ok addr_event_encoded_len
  unfolding addr_event_serde_def addr_event_encoded_len_def [abs_def]
  by (rule serde_v1_fixed [OF addr_event_codec]) (auto simp: addr_event_ok_def addr_event_encode_v1_def)

interpretation shard_root: fixed_encoded_len shard_root_serde shard_root_ok shard_root_encoded_len
  unfolding shard_root_serde_def shard_root_encoded_len_def [abs_def]
  by (rule serde_v1_fixed [OF shard_root_codec]) (auto simp: shard_root_ok_def shard_root_encode_v1_def)

interpretation chain_work: fixed_encoded_len chain_work_serde chain_work_ok chain_work_encoded_len
  unfolding chain_work_serde_def chain_work_encoded_len_def [abs_def]
  by (rule serde_v1_fixed [OF chain_work_codec]) (auto simp: chain_work_ok_def chain_work_encode_v1_def)

interpretation difficulty: fixed_encoded_len difficulty_serde "\<lambda>_. True" difficulty_encoded_len
  unfolding difficulty_serde_def difficulty_encoded_len_def [abs_def]
  by (rule serde_v1_fixed [OF difficulty_codec]) (auto simp: difficulty_encode_v1_def)

interpretation equihash: versioned_serde equihash_serde equihash_ok
  unfolding equihash_serde_def by (rule serde_v1_versioned [OF equihash_codec])

interpretation block_data: versioned_serde block_data_serde block_data_ok
  unfolding block_data_serde_def by (rule serde_v1_versioned [OF block_data_codec])

interpretation transparent: versioned_serde transparent_serde transparent_ok
  unfolding transparent_serde_def by (rule serde_v1_versioned [OF transparent_codec])

interpretation sapling: versioned_serde sapling_serde sapling_ok
  unfolding sapling_serde_def by (rule serde_v1_versioned [OF sapling_codec])

interpretation orchard: versioned_serde orchard_serde orchard_ok
  unfolding orchard_serde_def by (rule serde_v1_versioned [OF orchard_codec])

interpretation txid_list: versioned_serde txid_list_serde txid_list_ok
  unfolding txid_list_serde_def by (rule serde_v1_versioned [OF txid_list_codec])

interpretation transparent_list: versioned_serde transparent_list_serde transparent_list_ok
  unfolding transparent_list_serde_def by (rule serde_v1_versioned [OF transparent_list_codec])

interpretation sapling_list: versioned_serde sapling_list_serde sapling_list_ok
  unfolding sapling_list_serde_def by (rule serde_v1_versioned [OF sapling_list_codec])

interpretation orchard_list: versioned_serde orchard_list_serde orchard_list_ok
  unfolding orchard_list_serde_def by (rule serde_v1_versioned [OF orchard_list_codec])

interpretation header: versioned_serde header_serde header_ok
  by (rule header_versioned)

interpretation persistent_context: versioned_serde context_serde context_ok
  by (rule context_versioned)

interpretation tree_roots: fixed_encoded_len tree_roots_serde tree_roots_ok tree_roots_encoded_len
  by (intro fixed_encoded_len.intro tree_roots_versioned fixed_encoded_len_axioms.intro)
    (auto simp: tree_roots_encoded_len_def body_v1 V1_def V2_def tree_roots_serde_def serde_v2_def
      tree_roots_ok_def tree_roots_encode_v1_def split: if_splits)

interpretation tree_sizes: fixed_encoded_len tree_sizes_serde "\<lambda>_. True" tree_sizes_encoded_len
  by (intro fixed_encoded_len.intro tree_sizes_versioned fixed_encoded_len_axioms.intro)
    (auto simp: tree_sizes_encoded_len_def encode_body_def V1_def V2_def tree_sizes_serde_def serde_v2_def
      tree_sizes_encode_v1_def tree_sizes_encode_v2_def split: if_splits)

interpretation tree_data: fixed_encoded_len tree_data_serde tree_data_ok tree_data_encoded_len
  by (intro fixed_encoded_len.intro tree_data_versioned fixed_encoded_len_axioms.intro)
    (auto simp: tree_data_encoded_len_def versioned_len_def VERSION_TAG_LEN_def tree_roots_encoded_len_def
      tree_sizes_encoded_len_def encode_body_def V1_def V2_def tree_data_serde_def tree_roots_serde_def
      tree_sizes_serde_def serde_v2_def tree_data_ok_def tree_roots_ok_def tree_data_encode_v1_def
      tree_roots_encode_v1_def tree_sizes_encode_v1_def serialize_with_version_def split: if_splits)

end
