(* ===== verification/Zaino_Stored_Entry.thy ===== *)
theory Zaino_Stored_Entry
  imports Zaino_Db_Codecs
begin

text \<open>
  The checksummed row wrappers of \<^verbatim>\<open>zaino-chain-store-zainodb/src/entry.rs\<close>. The digest
  \<^verbatim>\<open>blake2b256\<close> is third-party code, so it is the argument \<open>blake2b\<close>; the theorems use of
  it only that a digest has 32 bytes and, where they say so, that two given inputs do not
  collide. The loop of \<^verbatim>\<open>verify\<close> counts the version down to one with a saturating
  subtraction; started at version zero it would never end, so its model is a partial
  function, shown to return for the versions a type can have.

  The contract lemmas are proved once in the locales of the encoding library, for any record
  type; the properties instantiate them at the header and commitment-tree rows, the two
  tables with more than one on-disk version.
\<close>

section \<open>The wrappers\<close>

record 'a stored_entry_fixed =
  sef_item :: 'a
  sef_checksum :: "u8 list"

record 'a stored_entry_var =
  sev_item :: 'a
  sev_checksum :: "u8 list"

partial_function (option) verify_loop ::
  "(u8 list \<Rightarrow> u8 list) \<Rightarrow> 'a serde \<Rightarrow> u8 list \<Rightarrow> 'a \<Rightarrow> u8 list \<Rightarrow> u8 \<Rightarrow> bool option" where
  "verify_loop blake2b S key item checksum v =
     (if (case to_bytes_with_version S item v of
            Inr item_bytes \<Rightarrow> blake2b (key @ item_bytes) = checksum
          | Inl _ \<Rightarrow> False)
      then Some True
      else if v = 1 then Some False
      else verify_loop blake2b S key item checksum (saturating_sub v 1))"

definition fixed_new :: "(u8 list \<Rightarrow> u8 list) \<Rightarrow> 'a serde \<Rightarrow> u8 list \<Rightarrow> 'a \<Rightarrow> io_error + 'a stored_entry_fixed" where
  "fixed_new blake2b S key item =
     (case serialize S item of
        Inl e \<Rightarrow> Inl (Panic ''called Result::unwrap() on an Err value'')
      | Inr body \<Rightarrow> Inr \<lparr>sef_item = item, sef_checksum = blake2b (key @ body)\<rparr>)"

definition fixed_verify :: "(u8 list \<Rightarrow> u8 list) \<Rightarrow> 'a serde \<Rightarrow> u8 list \<Rightarrow> 'a stored_entry_fixed \<Rightarrow> bool option" where
  "fixed_verify blake2b S key e = verify_loop blake2b S key (sef_item e) (sef_checksum e) (VERSION S)"

definition fixed_to_bytes_with_item_version ::
  "(u8 list \<Rightarrow> u8 list) \<Rightarrow> 'a serde \<Rightarrow> (u8 \<Rightarrow> nat option) \<Rightarrow> u8 list \<Rightarrow> 'a \<Rightarrow> u8 \<Rightarrow> io_error + u8 list" where
  "fixed_to_bytes_with_item_version blake2b S len key item item_version =
     bindE (to_bytes_with_version S item item_version) (\<lambda>item_bytes.
     bindE (ok_or (versioned_len len item_version) (InvalidInput ''requested item version is not fixed-length'')) (\<lambda>expected_len.
       if length item_bytes \<noteq> expected_len
       then Inl (InvalidData ''encoded fixed-length item has an unexpected length'')
       else Inr (V1 # item_bytes @ blake2b (key @ item_bytes))))"

definition fixed_encode_v1 :: "'a serde \<Rightarrow> (u8 \<Rightarrow> nat option) \<Rightarrow> 'a stored_entry_fixed \<Rightarrow> io_error + u8 list" where
  "fixed_encode_v1 S len e =
     bindE (map_err (\<lambda>_. InvalidInput ''latest item version is not fixed-length'') (latest_versioned_len S len)) (\<lambda>expected_len.
     bindE (serialize S (sef_item e)) (\<lambda>item_bytes.
       if length item_bytes \<noteq> expected_len
       then Inl (InvalidData ''encoded fixed-length item has an unexpected length'')
       else writes [Inr item_bytes, Inr (write_fixed_le (sef_checksum e))]))"

definition fixed_decode_v1 :: "'a serde \<Rightarrow> (u8 \<Rightarrow> nat option) \<Rightarrow> 'a stored_entry_fixed reader" where
  "fixed_decode_v1 S len =
     rbind read_u8 (\<lambda>item_version.
     case len item_version of
       None \<Rightarrow> rfail (InvalidData ''stored item version is not fixed-length or is unsupported'')
     | Some body_len \<Rightarrow>
         rbind (read_exact body_len) (\<lambda>body.
         rbind (case deserialize S (item_version # body) of Inl e \<Rightarrow> rfail e | Inr (item, _) \<Rightarrow> rpure item) (\<lambda>item.
         rbind (read_fixed_le 32) (\<lambda>checksum.
           rpure \<lparr>sef_item = item, sef_checksum = checksum\<rparr>))))"

definition fixed_serde :: "'a serde \<Rightarrow> (u8 \<Rightarrow> nat option) \<Rightarrow> 'a stored_entry_fixed serde" where
  "fixed_serde S len = serde_v1 (fixed_encode_v1 S len) (fixed_decode_v1 S len)"

definition stored_fixed_encoded_len :: "'a serde \<Rightarrow> (u8 \<Rightarrow> nat option) \<Rightarrow> u8 \<Rightarrow> nat option" where
  "stored_fixed_encoded_len S len version =
     (if version = V1
      then (case latest_versioned_len S len of Inl _ \<Rightarrow> None | Inr item_len \<Rightarrow> Some (item_len + 32))
      else None)"

definition var_new :: "(u8 list \<Rightarrow> u8 list) \<Rightarrow> 'a serde \<Rightarrow> u8 list \<Rightarrow> 'a \<Rightarrow> io_error + 'a stored_entry_var" where
  "var_new blake2b S key item =
     (case serialize S item of
        Inl e \<Rightarrow> Inl (Panic ''called Result::unwrap() on an Err value'')
      | Inr body \<Rightarrow> Inr \<lparr>sev_item = item, sev_checksum = blake2b (key @ body)\<rparr>)"

definition var_verify :: "(u8 list \<Rightarrow> u8 list) \<Rightarrow> 'a serde \<Rightarrow> u8 list \<Rightarrow> 'a stored_entry_var \<Rightarrow> bool option" where
  "var_verify blake2b S key e = verify_loop blake2b S key (sev_item e) (sev_checksum e) (VERSION S)"

definition var_to_bytes_with_item_version ::
  "(u8 list \<Rightarrow> u8 list) \<Rightarrow> 'a serde \<Rightarrow> u8 list \<Rightarrow> 'a \<Rightarrow> u8 \<Rightarrow> io_error + u8 list" where
  "var_to_bytes_with_item_version blake2b S key item item_version =
     bindE (to_bytes_with_version S item item_version) (\<lambda>item_bytes.
       writes [Inr [V1], Inr (compact_size_write (of_nat (length item_bytes))), Inr item_bytes,
         Inr (write_fixed_le (blake2b (key @ item_bytes)))])"

definition var_encode_v1 :: "'a serde \<Rightarrow> 'a stored_entry_var \<Rightarrow> io_error + u8 list" where
  "var_encode_v1 S e =
     bindE (serialize S (sev_item e)) (\<lambda>body.
       writes [Inr (compact_size_write (of_nat (length body))), Inr body, Inr (write_fixed_le (sev_checksum e))])"

definition var_decode_v1 :: "'a serde \<Rightarrow> 'a stored_entry_var reader" where
  "var_decode_v1 S =
     rbind compact_size_read (\<lambda>len.
     rbind (read_exact (unat len)) (\<lambda>body.
     rbind (case deserialize S body of Inl e \<Rightarrow> rfail e | Inr (item, _) \<Rightarrow> rpure item) (\<lambda>item.
     rbind (read_fixed_le 32) (\<lambda>checksum.
       rpure \<lparr>sev_item = item, sev_checksum = checksum\<rparr>))))"

definition var_serde :: "'a serde \<Rightarrow> 'a stored_entry_var serde" where
  "var_serde S = serde_v1 (var_encode_v1 S) (var_decode_v1 S)"

section \<open>What the loop of verification decides\<close>

definition checksum_of :: "(u8 list \<Rightarrow> u8 list) \<Rightarrow> 'a serde \<Rightarrow> u8 list \<Rightarrow> 'a \<Rightarrow> u8 \<Rightarrow> u8 list \<Rightarrow> bool" where
  "checksum_of blake2b S key item v checksum \<longleftrightarrow>
     (\<exists>bs. to_bytes_with_version S item v = Inr bs \<and> blake2b (key @ bs) = checksum)"

lemma verify_loop_unfold:
  "verify_loop blake2b S key item checksum v =
     (if checksum_of blake2b S key item v checksum then Some True
      else if v = 1 then Some False
      else verify_loop blake2b S key item checksum (saturating_sub v 1))"
  by (subst verify_loop.simps) (auto simp: checksum_of_def split: sum.splits)

lemma verify_loop_1: "verify_loop blake2b S key item checksum V1 = Some (checksum_of blake2b S key item V1 checksum)"
  by (subst verify_loop_unfold) (simp add: V1_def)

lemma verify_loop_2:
  "verify_loop blake2b S key item checksum V2 =
     Some (checksum_of blake2b S key item V2 checksum \<or> checksum_of blake2b S key item V1 checksum)"
proof -
  have "saturating_sub V2 1 = V1" "V2 \<noteq> 1" by (simp_all add: V1_def V2_def saturating_sub_def)
  then show ?thesis by (subst verify_loop_unfold) (simp add: verify_loop_1)
qed

lemma reads_all:
  assumes "reads r (Inr bs) x"
  shows "r bs = Inr (x, [])"
proof -
  from assms have "r (bs @ []) = Inr (x, [])" unfolding reads_def by blast
  then show ?thesis by simp
qed

lemma from_bytes_v1: "from_bytes (serde_v1 enc dec) (V1 # bs) = bindE (dec bs) (\<lambda>(x, rest). Inr x)"
  by (simp add: from_bytes_def deserialize_def decode_body_def serde_v1_def codec_simps)

lemma read_fixed_back: "length xs = n \<Longrightarrow> read_fixed_le n xs = Inr (xs, [])"
  using read_back(10) [of xs n "[]"] by simp

context versioned_serde
begin

lemma verify_loop_decides:
  "\<exists>b. verify_loop blake2b S key item checksum (VERSION S) = Some b
     \<and> (b \<longleftrightarrow> (\<exists>v. (v = V1 \<or> v = VERSION S) \<and> checksum_of blake2b S key item v checksum))"
  using newest by (auto simp: verify_loop_1 verify_loop_2)

lemma verify_loop_accepts:
  "v = V1 \<or> v = VERSION S \<Longrightarrow> to_bytes_with_version S item v = Inr bs \<Longrightarrow>
     verify_loop blake2b S key item (blake2b (key @ bs)) (VERSION S) = Some True"
  using verify_loop_decides [of blake2b key item "blake2b (key @ bs)"] by (auto simp: checksum_of_def)

text \<open>
  A row written under any version a record has, in the length-prefixed wrapper: it decodes, and
  the entry it decodes to verifies under the same key.
\<close>

lemma var_row:
  assumes ok: "ok x" and bs: "to_bytes_with_version S x v = Inr bs" and fits: "length bs \<le> unat MAX_COMPACT_SIZE"
    and v: "v = V1 \<or> v = VERSION S" and digest: "length (blake2b (key @ bs)) = 32"
  shows "\<exists>row y. var_to_bytes_with_item_version blake2b S key x v = Inr row
    \<and> from_bytes (var_serde S) row = Inr \<lparr>sev_item = y, sev_checksum = blake2b (key @ bs)\<rparr>
    \<and> var_verify blake2b S key \<lparr>sev_item = y, sev_checksum = blake2b (key @ bs)\<rparr> = Some True
    \<and> ok y \<and> to_bytes_with_version S y v = Inr bs \<and> reads (deserialize S) (Inr bs) y"
proof -
  obtain y where y: "ok y" "to_bytes_with_version S y v = Inr bs" "reads (deserialize S) (Inr bs) y"
    using deserialize_historic [OF ok bs] by blast
  from y(3) have body: "deserialize S bs = Inr (y, [])" by (rule reads_all)
  note n = unat_count [OF fits]
  from reads_count [OF fits]
  have len: "compact_size_read (compact_size_write (of_nat (length bs)) @ rest) = Inr (of_nat (length bs), rest)" for rest
    by (simp add: reads_def)
  have "from_bytes (var_serde S) (V1 # compact_size_write (of_nat (length bs)) @ bs @ blake2b (key @ bs))
      = Inr \<lparr>sev_item = y, sev_checksum = blake2b (key @ bs)\<rparr>"
    using n body digest read_fixed_back [of "blake2b (key @ bs)" 32]
    by (simp add: var_serde_def from_bytes_v1 var_decode_v1_def len codec_simps rbind_def)
  moreover have "var_verify blake2b S key \<lparr>sev_item = y, sev_checksum = blake2b (key @ bs)\<rparr> = Some True"
    using verify_loop_accepts [OF v y(2)] by (simp add: var_verify_def)
  ultimately show ?thesis
    using y bs by (auto simp: var_to_bytes_with_item_version_def)
qed

text \<open>
  Verification is by the bytes: an entry that verifies under \<open>key'\<close> with the checksum made for
  \<open>bs\<close> under \<open>key\<close> has, at one of its versions, those very bytes, unless the digest collides.
\<close>

lemma verify_loop_same_bytes:
  assumes "verify_loop blake2b S key' item (blake2b (key @ bs)) (VERSION S) = Some True"
    and "\<And>v bs'. to_bytes_with_version S item v = Inr bs' \<Longrightarrow> blake2b (key' @ bs') = blake2b (key @ bs) \<Longrightarrow>
      key' @ bs' = key @ bs"
    and "length key' = length key"
  shows "key' = key \<and> (\<exists>v. to_bytes_with_version S item v = Inr bs)"
proof -
  obtain v bs' where b: "to_bytes_with_version S item v = Inr bs'" "blake2b (key' @ bs') = blake2b (key @ bs)"
    using verify_loop_decides [of blake2b key' item "blake2b (key @ bs)"] assms(1) by (auto simp: checksum_of_def)
  from assms(2) [OF b] assms(3) have "key' = key" "bs' = bs" by simp_all
  with b(1) show ?thesis by blast
qed

text \<open>Two values of a record with the same newest bytes are the same value.\<close>

lemma same_bytes_same_value:
  assumes "ok x" and "ok y" and "serialize S x = Inr bs" and "to_bytes_with_version S y v = Inr bs"
  shows "y = x"
proof -
  from assms(3,4) have v: "v = VERSION S"
    by (auto simp: serialize_def to_bytes_with_version_def serialize_with_version_def bindE_eq_Inr)
  have "reads (deserialize S) (Inr bs) x" "reads (deserialize S) (Inr bs) y"
    using codec.reads_back [OF serialize_codec assms(1)] codec.reads_back [OF serialize_codec assms(2)] assms(3,4) v
    by (simp_all add: serialize_def to_bytes_with_version_def)
  then show ?thesis by (force simp: reads_def)
qed

end

context fixed_encoded_len
begin

text \<open>The same in the fixed-length wrapper, which finds the length by the item's own tag.\<close>

lemma fixed_row:
  assumes ok: "ok x" and bs: "to_bytes_with_version S x v = Inr bs" and len: "len v = Some n"
    and v: "v = V1 \<or> v = VERSION S" and digest: "length (blake2b (key @ bs)) = 32"
  shows "\<exists>row y. fixed_to_bytes_with_item_version blake2b S len key x v = Inr row
    \<and> from_bytes (fixed_serde S len) row = Inr \<lparr>sef_item = y, sef_checksum = blake2b (key @ bs)\<rparr>
    \<and> fixed_verify blake2b S key \<lparr>sef_item = y, sef_checksum = blake2b (key @ bs)\<rparr> = Some True
    \<and> ok y \<and> to_bytes_with_version S y v = Inr bs \<and> reads (deserialize S) (Inr bs) y"
proof -
  obtain y where y: "ok y" "to_bytes_with_version S y v = Inr bs" "reads (deserialize S) (Inr bs) y"
    using deserialize_historic [OF ok bs] by blast
  from y(3) have body: "deserialize S bs = Inr (y, [])" by (rule reads_all)
  from bs obtain b where b: "bs = v # b" and "encode_body S x v = Inr b"
    by (auto simp: to_bytes_with_version_def serialize_with_version_def bindE_eq_Inr)
  with encoded_len [OF len ok] have n: "length b = n" by simp
  have "from_bytes (fixed_serde S len) (V1 # bs @ blake2b (key @ bs))
      = Inr \<lparr>sef_item = y, sef_checksum = blake2b (key @ bs)\<rparr>"
    using n len body b digest read_fixed_back [of "blake2b (key @ bs)" 32] read_exact_append [OF n]
    by (simp add: fixed_serde_def from_bytes_v1 fixed_decode_v1_def codec_simps rbind_def)
  moreover have "fixed_verify blake2b S key \<lparr>sef_item = y, sef_checksum = blake2b (key @ bs)\<rparr> = Some True"
    using verify_loop_accepts [OF v y(2)] by (simp add: fixed_verify_def)
  ultimately show ?thesis
    using y bs b n len by (auto simp: fixed_to_bytes_with_item_version_def versioned_len_def VERSION_TAG_LEN_def)
qed

end

end
