(* ===== verification/Zaino_Db_Theorems.thy ===== *)
theory Zaino_Db_Theorems
  imports Zaino_Stored_Entry "HOL-Library.List_Lexorder"
begin

text \<open>
  The properties of the finalised store's rows: every row type reads back what it writes
  and yields only well-formed values, rows written by the older version of a type still
  verify, a changed header row does not, and the keys sort in the store's byte order as the
  numbers they encode.
\<close>

section \<open>Round trips and well-formedness\<close>

definition roundtrips :: "'a serde \<Rightarrow> ('a \<Rightarrow> bool) \<Rightarrow> bool" where
  "roundtrips S ok \<longleftrightarrow> (\<forall>x. ok x \<longrightarrow> (\<exists>bs. to_bytes S x = Inr bs \<and> from_bytes S bs = Inr x))"

definition decodes_only :: "'a serde \<Rightarrow> ('a \<Rightarrow> bool) \<Rightarrow> bool" where
  "decodes_only S ok \<longleftrightarrow> (\<forall>bs x. from_bytes S bs = Inr x \<longrightarrow> ok x)"

definition has_encoded_len :: "'a serde \<Rightarrow> ('a \<Rightarrow> bool) \<Rightarrow> (u8 \<Rightarrow> nat option) \<Rightarrow> bool" where
  "has_encoded_len S ok len \<longleftrightarrow> (\<forall>v n x bs. versioned_len len v = Some n \<longrightarrow> ok x \<longrightarrow>
     to_bytes_with_version S x v = Inr bs \<longrightarrow> length bs = n)"

context versioned_serde
begin

lemma serde_roundtrips: "roundtrips S ok"
  using from_to_bytes by (auto simp: roundtrips_def)

lemma serde_decodes_only: "decodes_only S ok"
  using from_bytes_ok by (auto simp: decodes_only_def)

end

context fixed_encoded_len
begin

lemma serde_has_encoded_len: "has_encoded_len S ok len"
  using versioned_len_written by (auto simp: has_encoded_len_def)

end


text \<open>C24. Decoding is typed. Whatever bytes a row holds, of whatever version, a value that is
  decoded from them is well-formed: arrays have their lengths, heights are within the bound,
  a header's chain work is non-zero and its difficulty valid, script types are known ones,
  and counted lists are within the size bound. And the lengths the fixed-length types
  announce, version by version, are the lengths they write.
\<close>

theorem db_rows_typed:
  "decodes_only header_serde header_ok \<and> decodes_only tree_data_serde tree_data_ok
   \<and> decodes_only txid_list_serde txid_list_ok \<and> decodes_only transparent_list_serde transparent_list_ok
   \<and> decodes_only sapling_list_serde sapling_list_ok \<and> decodes_only orchard_list_serde orchard_list_ok
   \<and> decodes_only height_serde db_height_ok \<and> decodes_only outpoint_serde db_outpoint_ok
   \<and> decodes_only addr_script_serde addr_script_ok \<and> decodes_only tx_out_serde tx_out_ok
   \<and> has_encoded_len height_serde db_height_ok height_encoded_len
   \<and> has_encoded_len block_hash_serde block_hash_ok block_hash_encoded_len
   \<and> has_encoded_len outpoint_serde db_outpoint_ok outpoint_encoded_len
   \<and> has_encoded_len tx_location_serde (\<lambda>_. True) tx_location_encoded_len
   \<and> has_encoded_len addr_script_serde addr_script_ok addr_script_encoded_len
   \<and> has_encoded_len addr_hist_serde (\<lambda>_. True) addr_hist_encoded_len
   \<and> has_encoded_len addr_event_serde addr_event_ok addr_event_encoded_len
   \<and> has_encoded_len tx_out_serde tx_out_ok tx_out_encoded_len
   \<and> has_encoded_len tree_roots_serde tree_roots_ok tree_roots_encoded_len
   \<and> has_encoded_len tree_sizes_serde (\<lambda>_. True) tree_sizes_encoded_len
   \<and> has_encoded_len tree_data_serde tree_data_ok tree_data_encoded_len"
  by (intro conjI header.serde_decodes_only tree_data.serde_decodes_only txid_list.serde_decodes_only
      transparent_list.serde_decodes_only sapling_list.serde_decodes_only orchard_list.serde_decodes_only
      height.serde_decodes_only outpoint.serde_decodes_only addr_script.serde_decodes_only
      tx_out.serde_decodes_only height.serde_has_encoded_len block_hash.serde_has_encoded_len
      outpoint.serde_has_encoded_len tx_location.serde_has_encoded_len addr_script.serde_has_encoded_len
      addr_hist.serde_has_encoded_len addr_event.serde_has_encoded_len tx_out.serde_has_encoded_len
      tree_roots.serde_has_encoded_len tree_sizes.serde_has_encoded_len tree_data.serde_has_encoded_len)

section \<open>Checksummed rows\<close>

lemma reads_determines: "reads r (Inr bs) x \<Longrightarrow> reads r (Inr bs) y \<Longrightarrow> x = y"
  by (drule reads_all, drule reads_all) simp

text \<open>Both versions of a header are written, within the length bound, and read as the header.\<close>

lemma header_reads_v1:
  assumes "header_ok h"
  shows "reads header_decode_v1 (header_encode_v1 h) h"
  unfolding header_encode_v1_def
  using assms by (intro header_reads context_older) (simp_all add: header_ok_def context_from_business_ok)

lemma header_body:
  "encode_body header_serde h 1 = header_encode_v1 h"
  "encode_body header_serde h 2 = header_encode_v2 h"
  by (simp_all add: header_serde_def serde_v2_def encode_body_def V1_def V2_def)

lemma header_any_version:
  assumes "header_ok h" and "v = 1 \<or> v = 2"
  shows "reads (deserialize header_serde) (to_bytes_with_version header_serde h v) h"
proof -
  have "reads (decode_body header_serde v) (encode_body header_serde h v) h"
    using assms(2) header_reads_v1 [OF assms(1)] codec.reads_back [OF header_codec_v2 assms(1)]
    by (auto simp: header_serde_def serde_v2_def encode_body_def decode_body_def V1_def V2_def)
  then show ?thesis unfolding to_bytes_with_version_def by (rule nested_older)
qed

lemma block_data_length:
  "block_data_ok d \<Longrightarrow> serialize_with_version block_data_serde d 1 = Inr bs \<Longrightarrow> length bs \<le> 1491"
  by (auto simp: block_data_ok_def equihash_ok_def serialize_with_version_def encode_body_def V1_def
      block_data_serde_def serde_v1_def block_data_encode_v1_def equihash_serde_def equihash_encode_v1_def
      bindE_eq_Inr split: db_equihash_solution.splits)

lemma context_length:
  "context_ok c \<Longrightarrow> serialize_with_version context_serde c v = Inr bs \<Longrightarrow> v = 1 \<or> v = 2 \<Longrightarrow> length bs \<le> 106"
  by (auto simp: context_ok_def block_hash_ok_def chain_work_ok_def serialize_with_version_def encode_body_def
      V1_def V2_def context_serde_def serde_v2_def context_encode_v1_def context_encode_v2_def write_option_def
      block_hash_serde_def chain_work_serde_def height_serde_def serde_v1_def block_hash_encode_v1_def
      chain_work_encode_v1_def height_encode_v1_def bindE_eq_Inr)

lemma header_length:
  assumes "header_ok h" and "v = 1 \<or> v = 2" and "to_bytes_with_version header_serde h v = Inr bs"
  shows "length bs \<le> 2000"
proof -
  from assms(3) obtain b where b: "encode_body header_serde h v = Inr b" "bs = v # b"
    by (auto simp: to_bytes_with_version_def serialize_with_version_def bindE_eq_Inr)
  with assms(2) obtain c d where c: "serialize_with_version context_serde (context_from_business (bhd_context h)) v = Inr c"
    and d: "serialize_with_version block_data_serde (bhd_data h) 1 = Inr d" and bs: "length bs = 1 + length c + length d"
    by (auto simp: header_body header_encode_v1_def header_encode_v2_def bindE_eq_Inr)
  have "length c \<le> 106"
    using context_length [OF _ c assms(2)] assms(1) by (simp add: header_ok_def context_from_business_ok)
  moreover have "length d \<le> 1491"
    using block_data_length [OF _ d] assms(1) by (simp add: header_ok_def)
  ultimately show ?thesis using bs by simp
qed

lemma tree_data_body:
  "encode_body tree_data_serde d 1 = tree_data_encode_v1 d"
  "encode_body tree_data_serde d 2 = tree_data_encode_v2 d"
  "decode_body tree_data_serde 1 = tree_data_decode_v1"
  "decode_body tree_data_serde 2 = tree_data_decode_v2"
  by (simp_all add: tree_data_serde_def serde_v2_def encode_body_def decode_body_def V1_def V2_def)

lemma tree_data_reads:
  assumes "tree_data_ok d"
  shows "reads (deserialize tree_data_serde) (to_bytes_with_version tree_data_serde d 1) (tree_data_v1 d)"
    and "reads (deserialize tree_data_serde) (to_bytes_with_version tree_data_serde d 2) d"
  unfolding to_bytes_with_version_def
  using tree_data_reads_v1 [OF assms] codec.reads_back [OF tree_data_codec_v2 assms]
  by (auto intro!: nested_older simp: tree_data_body)

lemma tree_data_length:
  "tree_data_ok d \<Longrightarrow> to_bytes_with_version tree_data_serde d 2 = Inr bs \<Longrightarrow> length bs \<le> 2000"
  by (cases "ctr_ironwood (ctd_roots d)")
    (auto simp: to_bytes_with_version_def serialize_with_version_def tree_data_encode_v2_def
      encode_body_def V2_def tree_data_serde_def tree_roots_serde_def tree_sizes_serde_def serde_v2_def tree_roots_encode_v2_def
      tree_sizes_encode_v2_def write_option_def tree_data_ok_def tree_roots_ok_def bindE_eq_Inr)

lemma tree_data_v1_bytes:
  "to_bytes_with_version tree_data_serde (tree_data_v1 d) 1 = to_bytes_with_version tree_data_serde d 1"
  by (simp add: to_bytes_with_version_def serialize_with_version_def [of tree_data_serde] tree_data_body
      tree_data_encode_v1_same)


text \<open>A header and a digest for the witnesses.\<close>

definition example_digest :: "u8 list \<Rightarrow> u8 list" where
  "example_digest x = replicate 31 0 @ [if 5 < length x then x ! 5 else 0]"

definition example_header_row :: block_header_data where
  "example_header_row =
     \<lparr>bhd_context = \<lparr>bc_index = \<lparr>bi_height = DbHeight 5, bi_hash = DbBlockHash (replicate 32 1)\<rparr>,
        bc_parent_hash = DbBlockHash (replicate 32 2), bc_chainwork = AbsoluteChainWork 17\<rparr>,
      bhd_data = \<lparr>bd_version = 4, bd_time = 1000, bd_merkle_root = replicate 32 3,
        bd_block_commitments = replicate 32 4, bd_bits = \<lparr>cd_bits = 0x1f07ffff, cd_work = SingleBlockWork 8192\<rparr>,
        bd_nonce = replicate 32 5, bd_solution = DbRegtest (replicate 36 6)\<rparr>\<rparr>"

definition example_tree_row :: commitment_tree_data where
  "example_tree_row =
     \<lparr>ctd_roots = \<lparr>ctr_sapling = replicate 32 7, ctr_orchard = replicate 32 8, ctr_ironwood = Some (replicate 32 9)\<rparr>,
      ctd_sizes = \<lparr>cts_sapling = 10, cts_orchard = 11, cts_ironwood = 12\<rparr>\<rparr>"

lemma example_header_row_ok: "header_ok example_header_row"
proof -
  have "try_from_bits 0x1f07ffff = Inr \<lparr>cd_bits = 0x1f07ffff, cd_work = SingleBlockWork 8192\<rparr>"
    using try_from_bits_accepts [of "0x1f07ffff"] by (simp add: nbits_negative_def nbits_exponent_def to_target_def)
  then show ?thesis
    by (simp add: example_header_row_def header_ok_def block_context_ok_def block_data_ok_def difficulty_ok_def
        block_hash_ok_def db_height_ok_def ZEBRA_MAX_HEIGHT_def acw_ok_def equihash_ok_def)
qed

lemma example_tree_row_ok: "tree_data_ok example_tree_row"
  by (simp add: example_tree_row_def tree_data_ok_def tree_roots_ok_def)



lemma example_collision_free:
  assumes "to_bytes_with_version S x v = Inr bs'" and "to_bytes_with_version S x w = Inr bs"
    and "example_digest ([1, 0, 0, 0, 5] @ bs') = example_digest ([1, 0, 0, 0, 5] @ bs)"
  shows "[1, 0, 0, 0, 5] @ bs' = [1, 0, 0, 0, 5] @ bs"
proof -
  from assms(1,2) obtain b b' where "bs' = v # b'" "bs = w # b"
    by (auto simp: to_bytes_with_version_def serialize_with_version_def bindE_eq_Inr)
  with assms(3) have "v = w" by (simp add: example_digest_def)
  with assms(1,2) show ?thesis by simp
qed


section \<open>Key order\<close>

lemma append_less_same_length:
  "length xs = length ys \<Longrightarrow>
     xs @ xs' < ys @ ys' \<longleftrightarrow> xs < ys \<or> xs = ys \<and> xs' < (ys' :: 'a::linorder list)"
  by (induction xs ys rule: list_induct2) auto

lemma to_be_Suc: "to_be (Suc n) w = to_be n (drop_bit 8 w) @ [ucast w]"
  by (simp add: to_be_def)

lemma unat_byte: "unat (ucast w :: u8) = unat w mod 256"
  by (simp add: unsigned_ucast_eq take_bit_eq_mod)

lemma unat_drop_byte: "unat (drop_bit 8 w) = unat w div 256"
  by (simp only: unat_drop_bit_eq) (simp add: drop_bit_eq_div)

lemma digits_order_aux:
  fixes q r q' r' :: nat
  assumes "r < 256" "r' < 256"
  shows "q < q' \<or> q = q' \<and> r < r' \<longleftrightarrow> 256 * q + r < 256 * q' + r'"
    and "q = q' \<and> r = r' \<longleftrightarrow> 256 * q + r = 256 * q' + r'"
  by (cases q q' rule: linorder_cases; use assms in linarith)+

lemma digits_order:
  fixes m n :: nat
  shows "m div 256 < n div 256 \<or> m div 256 = n div 256 \<and> m mod 256 < n mod 256 \<longleftrightarrow> m < n"
    and "m div 256 = n div 256 \<and> m mod 256 = n mod 256 \<longleftrightarrow> m = n"
  using digits_order_aux [of "m mod 256" "n mod 256" "m div 256" "n div 256"] by simp_all

lemma to_be_order:
  fixes a b :: "'a::len word"
  assumes "unat a < 256 ^ n" and "unat b < 256 ^ n"
  shows "(to_be n a < to_be n b \<longleftrightarrow> unat a < unat b) \<and> (to_be n a = to_be n b \<longleftrightarrow> unat a = unat b)"
  using assms
proof (induction n arbitrary: a b)
  case 0
  then show ?case by (simp add: to_be_def)
next
  case (Suc n)
  have "unat (drop_bit 8 a) < 256 ^ n" "unat (drop_bit 8 b) < 256 ^ n"
    using Suc.prems by (simp_all add: unat_drop_byte less_mult_imp_div_less mult.commute)
  note ih = Suc.IH [OF this]
  have less: "(ucast a :: u8) < ucast b \<longleftrightarrow> unat a mod 256 < unat b mod 256"
    and eq: "(ucast a :: u8) = ucast b \<longleftrightarrow> unat a mod 256 = unat b mod 256"
    by (simp_all add: word_less_nat_alt word_unat_eq_iff unat_byte)
  show ?case
    unfolding to_be_Suc
    using ih less eq by (simp add: append_less_same_length unat_drop_byte digits_order)
qed

lemma to_be_less:
  fixes a b :: "'a::len word"
  assumes "LENGTH('a) = 8 * n"
  shows "to_be n a < to_be n b \<longleftrightarrow> a < b" and "to_be n a = to_be n b \<longleftrightarrow> a = b"
proof -
  have "unat w < 256 ^ n" for w :: "'a word"
    using unat_less_exp [of w] assms by (simp add: power_mult)
  then show "to_be n a < to_be n b \<longleftrightarrow> a < b" and "to_be n a = to_be n b \<longleftrightarrow> a = b"
    using to_be_order [of a n b] by (simp_all add: word_less_nat_alt word_unat_eq_iff)
qed

lemma key_bytes:
  "to_bytes height_serde h = Inr (V1 # to_be 4 (dbh_u32 h))"
  "to_bytes shard_index_serde i = Inr (V1 # to_be 4 (shi_u32 i))"
  "to_bytes tx_location_serde l = Inr (V1 # to_be 4 (tl_block_height l) @ to_be 2 (tl_tx_index l))"
  "addr_event_from_record r = Inr (AddrEventBytes (to_be 4 (tl_block_height (ahr_tx_location r))
     @ to_be 2 (tl_tx_index (ahr_tx_location r)) @ to_be 2 (ahr_out_index r) @ ahr_flags r # to_le 8 (ahr_value r)))"
  by (simp_all add: to_bytes_def to_bytes_with_version_def serialize_with_version_def encode_body_def
      height_serde_def shard_index_serde_def tx_location_serde_def serde_v1_def height_encode_v1_def
      shard_index_encode_v1_def tx_location_encode_v1_def addr_event_from_record_def)

text \<open>C25. Keys sort as what they encode. In the byte order the store's B-trees keep, heights and
  shard indices sort numerically, transaction locations by height and then by index within
  the block, and an address's events by height, transaction index and output index.
\<close>

theorem key_order:
  assumes "to_bytes height_serde h = Inr hk" and "to_bytes height_serde h' = Inr hk'"
    and "to_bytes shard_index_serde i = Inr ik" and "to_bytes shard_index_serde i' = Inr ik'"
    and "to_bytes tx_location_serde l = Inr lk" and "to_bytes tx_location_serde l' = Inr lk'"
    and "addr_event_from_record r = Inr ev" and "addr_event_from_record r' = Inr ev'"
  shows "(hk < hk' \<longleftrightarrow> dbh_u32 h < dbh_u32 h') \<and> (ik < ik' \<longleftrightarrow> shi_u32 i < shi_u32 i')
    \<and> (lk < lk' \<longleftrightarrow> tl_block_height l < tl_block_height l'
         \<or> tl_block_height l = tl_block_height l' \<and> tl_tx_index l < tl_tx_index l')
    \<and> (tl_block_height (ahr_tx_location r) < tl_block_height (ahr_tx_location r')
         \<or> tl_block_height (ahr_tx_location r) = tl_block_height (ahr_tx_location r')
           \<and> (tl_tx_index (ahr_tx_location r) < tl_tx_index (ahr_tx_location r')
              \<or> tl_tx_index (ahr_tx_location r) = tl_tx_index (ahr_tx_location r') \<and> ahr_out_index r < ahr_out_index r')
       \<longrightarrow> aeb_bytes ev < aeb_bytes ev')"
  using assms by (auto simp: key_bytes append_less_same_length to_be_less)

theorem key_order_witness:
  "(V1 # to_be 4 (255 :: u32)) < V1 # to_be 4 (256 :: u32)"
  using key_order [OF key_bytes(1) key_bytes(1) key_bytes(2) key_bytes(2) key_bytes(3) key_bytes(3) key_bytes(4) key_bytes(4),
      of "DbHeight 255" "DbHeight 256" "ShardIndex 0" "ShardIndex 0"]
  by simp

end
