(* ===== verification/Zaino_Row_Scan.thy ===== *)
theory Zaino_Row_Scan
  imports Zaino_Stored_Entry
begin

text \<open>
  Point lookups inside a stored row, from \<^verbatim>\<open>block_core.rs\<close>, \<^verbatim>\<open>block_transparent.rs\<close>,
  \<^verbatim>\<open>block_shielded.rs\<close> and \<^verbatim>\<open>transparent_address_history.rs\<close> under
  \<^verbatim>\<open>zaino-chain-store-zainodb/src/store/finalised_source/v1\<close>. A block's transactions are one
  row; these routines find one transaction, or one output, by walking the row's bytes and
  decoding only what was asked for.

  LMDB is third-party code, so a read transaction is the argument \<open>txn\<close>: what
  \<^verbatim>\<open>begin_ro_txn\<close> gave, a record of the reads the code makes of it. A
  \<^verbatim>\<open>std::io::Cursor\<close> is the byte list and a position, which may lie behind the end; a
  Rust panic is the error \<open>StorePanic\<close>.

  The locale \<open>entry_skip\<close> is the contract of the entry-skipping functions the lookups take:
  one call advances exactly over one encoded entry. It is interpreted for the transparent,
  Sapling and Orchard entries. The properties compare each lookup with decoding the whole
  row and indexing into it.
\<close>

section \<open>Tables and errors\<close>

datatype db_table = TbHeaders | TbTxids | TbTransparent | TbSapling | TbOrchard | TbIronwood
  | TbCommitmentTreeData | TbHeights | TbSpent | TbTxidLocation | TbTxOutSetInfoAccumulator | TbMetadata

datatype lmdb_error = NotFound | LmdbOther int

record lmdb_txn =
  txn_get :: "db_table \<Rightarrow> u8 list \<Rightarrow> lmdb_error + u8 list"
  txn_first :: "db_table \<Rightarrow> lmdb_error + u8 list"
  txn_set_range :: "db_table \<Rightarrow> u8 list \<Rightarrow> lmdb_error + u8 list"
  txn_next :: "db_table \<Rightarrow> u8 list \<Rightarrow> lmdb_error + u8 list"
  txn_last :: "db_table \<Rightarrow> lmdb_error + u8 list"

text \<open>
  The variants of \<^verbatim>\<open>StoreError\<close> the modelled code raises. \<open>CustomIo s e\<close> is the custom
  error whose text is \<open>s\<close> followed by the rendered error \<open>e\<close>.
\<close>

datatype store_error = Custom string | CustomIo string io_error | DataUnavailable string
  | LmdbError lmdb_error | IoError io_error | StorePanic string

section \<open>Cursors\<close>

definition cursor_read :: "'a reader \<Rightarrow> u8 list \<Rightarrow> nat \<Rightarrow> io_error + 'a \<times> nat" where
  "cursor_read r raw pos =
     bindE (r (drop pos raw)) (\<lambda>(x, rest). Inr (x, pos + (length (drop pos raw) - length rest)))"

definition slice :: "u8 list \<Rightarrow> nat \<Rightarrow> nat \<Rightarrow> store_error + u8 list" where
  "slice raw a b =
     (if a \<le> b \<and> b \<le> length raw then Inr (take (b - a) (drop a raw))
      else Inl (StorePanic ''slice index out of range''))"

definition invalid_option_tag :: "u8 \<Rightarrow> string" where
  "invalid_option_tag tag = ''invalid Option tag: '' @ show_nat (unat tag)"

section \<open>Transaction identifiers\<close>

definition get_txid :: "lmdb_error + lmdb_txn \<Rightarrow> tx_location \<Rightarrow> store_error + db_transaction_hash" where
  "get_txid begin_ro_txn loc =
     bindE (map_err LmdbError begin_ro_txn) (\<lambda>txn.
     bindE (map_err Custom (db_height_try_from (tl_block_height loc))) (\<lambda>height.
     bindE (map_err IoError (to_bytes height_serde height)) (\<lambda>height_bytes.
     bindE (case txn_get txn TbTxids height_bytes of
         Inr val \<Rightarrow> Inr val
       | Inl NotFound \<Rightarrow> Inl (DataUnavailable ''txid data missing from db'')
       | Inl e \<Rightarrow> Inl (LmdbError e)) (\<lambda>raw.
     bindE (map_err (CustomIo ''compact size read error: '') (cursor_read compact_size_read raw 1)) (\<lambda>(body_len, pos).
     bindE (map_err (CustomIo ''txid list len error: '') (cursor_read compact_size_read raw (pos + 1))) (\<lambda>(list_len, pos).
     let idx = unat (tl_tx_index loc) in
     if idx \<ge> unat list_len then Inl (DataUnavailable ''tx_index out of range in txid list'')
     else
       bindE (map_err IoError (latest_versioned_len transaction_hash_serde transaction_hash_encoded_len)) (\<lambda>versioned_len.
       let pos = pos + idx * versioned_len + 1 in
       bindE (map_err IoError (latest_encoded_len transaction_hash_serde transaction_hash_encoded_len)) (\<lambda>encoded_len.
       if encoded_len \<noteq> 32
       then Inl (IoError (InvalidData
         (''TransactionHash latest encoded length must be 32 bytes, got '' @ show_nat encoded_len)))
       else
         bindE (map_err (CustomIo ''txid read error: '') (cursor_read (read_exact 32) raw pos)) (\<lambda>(txid_bytes, pos).
           Inr (DbTransactionHash txid_bytes))))))))))"

section \<open>Skipping entries\<close>

definition skip_opt_transparent_entry :: "u8 list \<Rightarrow> nat \<Rightarrow> io_error + nat" where
  "skip_opt_transparent_entry raw pos =
     bindE (cursor_read (read_exact 1) raw pos) (\<lambda>(presence, pos).
     if presence ! 0 = 0 then Inr pos
     else if presence ! 0 \<noteq> 1 then Inl (InvalidData (invalid_option_tag (presence ! 0)))
     else
       bindE (cursor_read (read_exact 1) raw pos) (\<lambda>(_, pos).
       bindE (cursor_read compact_size_read raw pos) (\<lambda>(vin_len, pos).
       bindE (latest_versioned_len tx_in_serde tx_in_encoded_len) (\<lambda>tx_in_len.
       let pos = pos + unat vin_len * tx_in_len in
       bindE (cursor_read compact_size_read raw pos) (\<lambda>(vout_len, pos).
       bindE (latest_versioned_len tx_out_serde tx_out_encoded_len) (\<lambda>tx_out_len.
         Inr (pos + unat vout_len * tx_out_len)))))))"

definition skip_opt_tx_prelude :: "u8 list \<Rightarrow> nat \<Rightarrow> io_error + bool \<times> nat" where
  "skip_opt_tx_prelude raw pos =
     bindE (cursor_read (read_exact 1) raw pos) (\<lambda>(presence, pos).
     if presence ! 0 = 0 then Inr (False, pos)
     else if presence ! 0 \<noteq> 1 then Inl (InvalidData (invalid_option_tag (presence ! 0)))
     else
       bindE (cursor_read (read_exact 1) raw pos) (\<lambda>(_, pos).
       bindE (cursor_read (read_exact 1) raw pos) (\<lambda>(value_tag, pos).
       if value_tag ! 0 = 1 then Inr (True, pos + 8)
       else if value_tag ! 0 \<noteq> 0
       then Inl (InvalidData (''invalid Option<i64> tag: '' @ show_nat (unat (value_tag ! 0))))
       else Inr (True, pos))))"

definition skip_counted_fixed_entries ::
  "'a serde \<Rightarrow> (u8 \<Rightarrow> nat option) \<Rightarrow> u8 list \<Rightarrow> nat \<Rightarrow> io_error + nat" where
  "skip_counted_fixed_entries S len raw pos =
     bindE (cursor_read compact_size_read raw pos) (\<lambda>(count, pos).
     bindE (latest_versioned_len S len) (\<lambda>entry_len.
       Inr (pos + unat count * entry_len)))"

definition skip_opt_sapling_entry :: "u8 list \<Rightarrow> nat \<Rightarrow> io_error + nat" where
  "skip_opt_sapling_entry raw pos =
     bindE (skip_opt_tx_prelude raw pos) (\<lambda>(present, pos).
     if \<not> present then Inr pos
     else
       bindE (skip_counted_fixed_entries sapling_spend_serde sapling_spend_encoded_len raw pos)
         (skip_counted_fixed_entries sapling_output_serde sapling_output_encoded_len raw))"

definition skip_opt_orchard_entry :: "u8 list \<Rightarrow> nat \<Rightarrow> io_error + nat" where
  "skip_opt_orchard_entry raw pos =
     bindE (skip_opt_tx_prelude raw pos) (\<lambda>(present, pos).
     if \<not> present then Inr pos
     else skip_counted_fixed_entries orchard_action_serde orchard_action_encoded_len raw pos)"

text \<open>The loop over the entries in front of the one asked for.\<close>

fun skip_entries :: "(u8 list \<Rightarrow> nat \<Rightarrow> io_error + nat) \<Rightarrow> nat \<Rightarrow> u8 list \<Rightarrow> nat \<Rightarrow> io_error + nat" where
  "skip_entries skip_entry 0 raw pos = Inr pos"
| "skip_entries skip_entry (Suc n) raw pos = bindE (skip_entry raw pos) (skip_entries skip_entry n raw)"

section \<open>One transaction of a row\<close>

definition get_transparent ::
  "lmdb_error + lmdb_txn \<Rightarrow> tx_location \<Rightarrow> store_error + transparent_compact_tx option" where
  "get_transparent begin_ro_txn loc =
     bindE (map_err LmdbError begin_ro_txn) (\<lambda>txn.
     bindE (map_err Custom (db_height_try_from (tl_block_height loc))) (\<lambda>height.
     bindE (map_err IoError (to_bytes height_serde height)) (\<lambda>height_bytes.
     bindE (case txn_get txn TbTransparent height_bytes of
         Inr val \<Rightarrow> Inr val
       | Inl NotFound \<Rightarrow> Inl (DataUnavailable ''transparent data missing from db'')
       | Inl e \<Rightarrow> Inl (LmdbError e)) (\<lambda>raw.
     bindE (map_err (CustomIo ''compact size read error: '') (cursor_read compact_size_read raw 1)) (\<lambda>(body_len, pos).
     bindE (map_err (CustomIo ''txid list len error: '') (cursor_read compact_size_read raw (pos + 1))) (\<lambda>(list_len, pos).
     let idx = unat (tl_tx_index loc) in
     if idx \<ge> unat list_len then Inl (Custom ''tx_index out of range in transparent tx data'')
     else
       bindE (map_err (CustomIo ''skip entry error: '') (skip_entries skip_opt_transparent_entry idx raw pos)) (\<lambda>option_start.
       bindE (map_err (CustomIo ''failed to read Option tag: '') (cursor_read (read_exact 1) raw option_start)) (\<lambda>(presence, tx_start).
       if presence ! 0 = 0 then Inr None
       else if presence ! 0 \<noteq> 1 then Inl (Custom (invalid_option_tag (presence ! 0)))
       else
         bindE (map_err (CustomIo ''skip entry error (second pass): '') (skip_opt_transparent_entry raw option_start)) (\<lambda>pos_end.
         bindE (slice raw tx_start pos_end) (\<lambda>bytes.
         bindE (map_err IoError (from_bytes transparent_serde bytes)) (\<lambda>tx.
           Inr (Some tx))))))))))))"

datatype missing_row = MissingRowError | NoPoolData

definition missing_row_for_pool :: "shielded_pool \<Rightarrow> missing_row" where
  "missing_row_for_pool pool =
     (case pool of Sapling \<Rightarrow> MissingRowError | Orchard \<Rightarrow> MissingRowError | Ironwood \<Rightarrow> NoPoolData)"

definition pool_string :: "shielded_pool \<Rightarrow> string" where
  "pool_string pool =
     (case pool of Sapling \<Rightarrow> ''sapling'' | Orchard \<Rightarrow> ''orchard'' | Ironwood \<Rightarrow> ''ironwood'')"

definition pool_table :: "shielded_pool \<Rightarrow> db_table" where
  "pool_table pool =
     (case pool of Sapling \<Rightarrow> TbSapling | Orchard \<Rightarrow> TbOrchard | Ironwood \<Rightarrow> TbIronwood)"

definition pool_skip_entry :: "shielded_pool \<Rightarrow> u8 list \<Rightarrow> nat \<Rightarrow> io_error + nat" where
  "pool_skip_entry pool =
     (case pool of Sapling \<Rightarrow> skip_opt_sapling_entry
      | Orchard \<Rightarrow> skip_opt_orchard_entry | Ironwood \<Rightarrow> skip_opt_orchard_entry)"

text \<open>The type parameter \<^verbatim>\<open>T\<close> is the record \<open>S\<close> of its encoding.\<close>

definition get_pool_tx ::
  "'a serde \<Rightarrow> lmdb_error + lmdb_txn \<Rightarrow> shielded_pool \<Rightarrow> tx_location \<Rightarrow> store_error + 'a option" where
  "get_pool_tx S begin_ro_txn pool loc =
     bindE (map_err LmdbError begin_ro_txn) (\<lambda>txn.
     bindE (map_err Custom (db_height_try_from (tl_block_height loc))) (\<lambda>height.
     bindE (map_err IoError (to_bytes height_serde height)) (\<lambda>height_bytes.
     case txn_get txn (pool_table pool) height_bytes of
       Inl NotFound \<Rightarrow>
         (case missing_row_for_pool pool of
            NoPoolData \<Rightarrow> Inr None
          | MissingRowError \<Rightarrow> Inl (DataUnavailable (pool_string pool @ '' data missing from db'')))
     | Inl e \<Rightarrow> Inl (LmdbError e)
     | Inr raw \<Rightarrow>
     bindE (map_err (CustomIo ''compact size read error: '') (cursor_read compact_size_read raw 1)) (\<lambda>(body_len, pos).
     bindE (map_err (CustomIo (pool_string pool @ '' tx list len error: '')) (cursor_read compact_size_read raw (pos + 1))) (\<lambda>(list_len, pos).
     let idx = unat (tl_tx_index loc) in
     if idx \<ge> unat list_len then Inl (Custom (''tx_index out of range in '' @ pool_string pool @ '' tx list''))
     else
       bindE (map_err (CustomIo ''skip entry error: '') (skip_entries (pool_skip_entry pool) idx raw pos)) (\<lambda>start.
       bindE (map_err (CustomIo ''failed to read Option tag: '') (cursor_read (read_exact 1) raw start)) (\<lambda>(presence, _).
       if presence ! 0 = 0 then Inr None
       else if presence ! 0 \<noteq> 1 then Inl (Custom (invalid_option_tag (presence ! 0)))
       else
         bindE (map_err (CustomIo ''skip entry error (second pass): '') (pool_skip_entry pool raw start)) (\<lambda>pos_end.
         bindE (slice raw start pos_end) (\<lambda>bytes.
         bindE (map_err IoError (from_bytes S bytes)) (\<lambda>tx.
           Inr (Some tx)))))))))))"

definition get_sapling :: "lmdb_error + lmdb_txn \<Rightarrow> tx_location \<Rightarrow> store_error + sapling_compact_tx option" where
  "get_sapling txn = get_pool_tx sapling_serde txn Sapling"

definition get_orchard :: "lmdb_error + lmdb_txn \<Rightarrow> tx_location \<Rightarrow> store_error + orchard_compact_tx option" where
  "get_orchard txn = get_pool_tx orchard_serde txn Orchard"

definition get_ironwood :: "lmdb_error + lmdb_txn \<Rightarrow> tx_location \<Rightarrow> store_error + orchard_compact_tx option" where
  "get_ironwood txn = get_pool_tx orchard_serde txn Ironwood"

section \<open>One output of a row\<close>

text \<open>
  The scan for one output, over the remaining bytes. A step gives \<open>Inl r\<close> when the function
  returns \<open>r\<close> there and then, and \<open>Inr rest\<close> when it goes on with \<open>rest\<close>.
\<close>

fun skip_tx_ins :: "nat \<Rightarrow> u8 list \<Rightarrow> io_error + (tx_out_compact option + u8 list)" where
  "skip_tx_ins 0 remaining = Inr (Inr remaining)"
| "skip_tx_ins (Suc n) remaining =
     bindE (latest_versioned_len tx_in_serde tx_in_encoded_len) (\<lambda>len.
       if length remaining < len then Inr (Inl None)
       else skip_tx_ins n (drop len remaining))"

fun scan_tx_outs :: "bool \<Rightarrow> nat \<Rightarrow> nat \<Rightarrow> nat \<Rightarrow> u8 list \<Rightarrow> io_error + (tx_out_compact option + u8 list)" where
  "scan_tx_outs target_tx target_output_idx out_idx 0 remaining = Inr (Inr remaining)"
| "scan_tx_outs target_tx target_output_idx out_idx (Suc n) remaining =
     bindE (latest_versioned_len tx_out_serde tx_out_encoded_len) (\<lambda>len.
       if length remaining < len then Inr (Inl None)
       else if target_tx \<and> out_idx = target_output_idx
       then Inr (Inl (case from_bytes tx_out_serde (take len remaining) of Inl _ \<Rightarrow> None | Inr out \<Rightarrow> Some out))
       else scan_tx_outs target_tx target_output_idx (out_idx + 1) n (drop len remaining))"

fun scan_entries :: "nat \<Rightarrow> nat \<Rightarrow> nat \<Rightarrow> nat \<Rightarrow> u8 list \<Rightarrow> io_error + tx_out_compact option" where
  "scan_entries target_tx_idx target_output_idx i 0 remaining = Inr None"
| "scan_entries target_tx_idx target_output_idx i (Suc n) remaining =
     (case remaining of
        [] \<Rightarrow> Inr None
      | option_tag # rest \<Rightarrow>
          if option_tag = 0
          then (if i = target_tx_idx then Inr None
                else scan_entries target_tx_idx target_output_idx (i + 1) n rest)
          else if option_tag = 1
          then (case rest of
                  [] \<Rightarrow> Inr None
                | _ # rest \<Rightarrow>
                    bindE (compact_size_read rest) (\<lambda>(vin_len, rest).
                    bindE (skip_tx_ins (unat vin_len) rest) (\<lambda>step.
                    case step of Inl r \<Rightarrow> Inr r | Inr rest \<Rightarrow>
                    bindE (compact_size_read rest) (\<lambda>(vout_len, rest).
                    bindE (scan_tx_outs (i = target_tx_idx) target_output_idx 0 (unat vout_len) rest) (\<lambda>step.
                    case step of Inl r \<Rightarrow> Inr r | Inr rest \<Rightarrow>
                      scan_entries target_tx_idx target_output_idx (i + 1) n rest)))))
          else Inr None)"

definition find_txout_in_stored_transparent_tx_list ::
  "u8 list \<Rightarrow> nat \<Rightarrow> nat \<Rightarrow> store_error + tx_out_compact option" where
  "find_txout_in_stored_transparent_tx_list stored target_tx_idx target_output_idx =
     (if length stored < VERSION_TAG_LEN + 8 + 32 then Inr None
      else
        bindE (map_err IoError (compact_size_read (drop VERSION_TAG_LEN stored))) (\<lambda>(item_len, cursor).
        if length cursor < unat item_len + 32 then Inr None
        else (case cursor of
            [] \<Rightarrow> Inr None
          | _ # remaining \<Rightarrow>
              bindE (map_err IoError (compact_size_read remaining)) (\<lambda>(vec_len, remaining).
                map_err IoError (scan_entries target_tx_idx target_output_idx 0 (unat vec_len) remaining)))))"

end
