(* ===== verification/Zaino_Txout_Set.thy ===== *)
theory Zaino_Txout_Set
  imports Zaino_Row_Scan Zaino_Block "HOL-Library.Multiset"
begin

text \<open>
  The commitment to the set of unspent transparent outputs and the running totals beside it:
  \<^verbatim>\<open>zaino-chain-store/src/txout_set.rs\<close>, the part of \<^verbatim>\<open>output.rs\<close> it uses, and the row type
  of \<^verbatim>\<open>zaino-chain-store-zainodb/src/types/db/metadata.rs\<close>. The digest is the argument
  \<open>blake2b\<close>, of which only the length of its output is used.

  The abstract view is the multiset of unspent outputs: \<open>commits\<close> says that an accumulator's
  four per-output fields describe a multiset. The locale \<open>set_commitment\<close> is the contract the
  users of the accumulator rely on; it is interpreted for the row type. An operation that
  fails gives its error; the half-updated value its receiver is left with is not part of the
  model, since every caller drops it.
\<close>

section \<open>The commitment\<close>

record stored_address =
  sa_hash :: "u8 list"
  sa_script_type :: script_type

record stored_tx_out =
  sto_value :: zatoshis
  sto_address :: stored_address

definition is_standard :: "stored_address \<Rightarrow> bool" where
  "is_standard a \<longleftrightarrow> sa_script_type a \<noteq> NonStandard"

definition TXOUT_SET_DOMAIN_TAG :: "u8 list" where
  "TXOUT_SET_DOMAIN_TAG = map of_char ''ZcashTxOutSet___''"

definition TXOUT_SET_ENTRY_LEN :: u64 where "TXOUT_SET_ENTRY_LEN = 32 + 4 + 8 + 20 + 1"

definition script_type_tag :: "script_type \<Rightarrow> u8" where
  "script_type_tag t = (case t of P2PKH \<Rightarrow> 0x00 | P2SH \<Rightarrow> 0x01 | NonStandard \<Rightarrow> 0xFF)"

definition is_unspendable :: "stored_tx_out \<Rightarrow> bool" where
  "is_unspendable out \<longleftrightarrow>
     \<not> (sa_script_type (sto_address out) = P2PKH \<or> sa_script_type (sto_address out) = P2SH)"

definition canonical_entry_parts :: "u8 list \<Rightarrow> u32 \<Rightarrow> u64 \<Rightarrow> u8 list \<Rightarrow> u8 \<Rightarrow> u8 list" where
  "canonical_entry_parts txid index val address_hash script_tag =
     txid @ to_le 4 index @ to_le 8 val @ address_hash @ [script_tag]"

definition txid_bytes :: "transaction_id \<Rightarrow> u8 list" where
  "txid_bytes t = (case t of TransactionId bs \<Rightarrow> bs)"

definition canonical_entry :: "outpoint \<Rightarrow> stored_tx_out \<Rightarrow> u8 list" where
  "canonical_entry o1 out =
     canonical_entry_parts (txid_bytes (op_txid o1)) (op_index o1) (as_u64 (sto_value out))
       (sa_hash (sto_address out)) (script_type_tag (sa_script_type (sto_address out)))"

definition entry_digest_parts :: "(u8 list \<Rightarrow> u8 list) \<Rightarrow> u8 list \<Rightarrow> u32 \<Rightarrow> u64 \<Rightarrow> u8 list \<Rightarrow> u8 \<Rightarrow> u8 list" where
  "entry_digest_parts blake2b txid index val address_hash script_tag =
     blake2b (TXOUT_SET_DOMAIN_TAG @ canonical_entry_parts txid index val address_hash script_tag)"

definition entry_digest :: "(u8 list \<Rightarrow> u8 list) \<Rightarrow> outpoint \<Rightarrow> stored_tx_out \<Rightarrow> u8 list" where
  "entry_digest blake2b o1 out =
     entry_digest_parts blake2b (txid_bytes (op_txid o1)) (op_index o1) (as_u64 (sto_value out))
       (sa_hash (sto_address out)) (script_type_tag (sa_script_type (sto_address out)))"

section \<open>The accumulator\<close>

record tx_out_set_accumulator =
  tsa_transactions :: u64
  tsa_transaction_outputs :: u64
  tsa_bytes_serialized :: u64
  tsa_hash_serialized :: "u8 list"
  tsa_total_zatoshis :: u64

datatype delta = Added | Removed

datatype tx_out_set_error = Overflow string | Underflow string

definition tsa_empty :: tx_out_set_accumulator where
  "tsa_empty = \<lparr>tsa_transactions = 0, tsa_transaction_outputs = 0, tsa_bytes_serialized = 0,
     tsa_hash_serialized = replicate 32 0, tsa_total_zatoshis = 0\<rparr>"

definition delta_step :: "delta \<Rightarrow> u64 \<Rightarrow> u64 \<Rightarrow> string \<Rightarrow> tx_out_set_error + u64" where
  "delta_step d field amount name =
     (case d of
        Added \<Rightarrow> ok_or (checked_add field amount) (Overflow name)
      | Removed \<Rightarrow> ok_or (checked_sub field amount) (Underflow name))"

definition checked_field :: "u64 \<Rightarrow> u64 \<Rightarrow> string \<Rightarrow> tx_out_set_error + u64" where
  "checked_field a b field = ok_or (checked_add a b) (Overflow field)"

definition xor_bytes :: "u8 list \<Rightarrow> u8 list \<Rightarrow> u8 list" where
  "xor_bytes dst src = map2 (\<lambda>d s. xor d s) dst src"

definition xor_in :: "u8 list \<Rightarrow> tx_out_set_accumulator \<Rightarrow> tx_out_set_accumulator" where
  "xor_in digest acc = acc\<lparr>tsa_hash_serialized := xor_bytes (tsa_hash_serialized acc) digest\<rparr>"

definition apply_entry ::
  "u8 list \<Rightarrow> u64 \<Rightarrow> delta \<Rightarrow> tx_out_set_accumulator \<Rightarrow> tx_out_set_error + tx_out_set_accumulator" where
  "apply_entry digest val d acc =
     (let acc = xor_in digest acc in
      bindE (delta_step d (tsa_transaction_outputs acc) 1 ''transaction_outputs'') (\<lambda>outputs.
      bindE (delta_step d (tsa_bytes_serialized acc) TXOUT_SET_ENTRY_LEN ''bytes_serialized'') (\<lambda>bytes.
      bindE (delta_step d (tsa_total_zatoshis acc) val ''total_zatoshis'') (\<lambda>total.
        Inr (acc\<lparr>tsa_transaction_outputs := outputs, tsa_bytes_serialized := bytes, tsa_total_zatoshis := total\<rparr>)))))"

definition apply_delta ::
  "(u8 list \<Rightarrow> u8 list) \<Rightarrow> outpoint \<Rightarrow> stored_tx_out \<Rightarrow> delta \<Rightarrow> tx_out_set_accumulator \<Rightarrow>
   tx_out_set_error + tx_out_set_accumulator" where
  "apply_delta blake2b o1 out d acc = apply_entry (entry_digest blake2b o1 out) (as_u64 (sto_value out)) d acc"

definition tsa_combine :: "tx_out_set_accumulator \<Rightarrow> tx_out_set_accumulator \<Rightarrow> tx_out_set_error + tx_out_set_accumulator" where
  "tsa_combine acc other =
     (let acc = xor_in (tsa_hash_serialized other) acc in
      bindE (checked_field (tsa_transactions acc) (tsa_transactions other) ''transactions'') (\<lambda>transactions.
      bindE (checked_field (tsa_transaction_outputs acc) (tsa_transaction_outputs other) ''transaction_outputs'') (\<lambda>outputs.
      bindE (checked_field (tsa_bytes_serialized acc) (tsa_bytes_serialized other) ''bytes_serialized'') (\<lambda>bytes.
      bindE (checked_field (tsa_total_zatoshis acc) (tsa_total_zatoshis other) ''total_zatoshis'') (\<lambda>total.
        Inr (acc\<lparr>tsa_transactions := transactions, tsa_transaction_outputs := outputs,
          tsa_bytes_serialized := bytes, tsa_total_zatoshis := total\<rparr>))))))"

section \<open>The row\<close>

record finalised_accumulator =
  fta_transactions :: u64
  fta_transaction_outputs :: u64
  fta_bytes_serialized :: u64
  fta_hash_serialized :: "u8 list"
  fta_total_zatoshis :: u64

datatype accumulator_delta_error = AdeOverflow string | AdeUnderflow string

definition ade_from :: "tx_out_set_error \<Rightarrow> accumulator_delta_error" where
  "ade_from e = (case e of Overflow field \<Rightarrow> AdeOverflow field | Underflow field \<Rightarrow> AdeUnderflow field)"

definition is_unspendable_tx_out :: "tx_out_compact \<Rightarrow> bool" where
  "is_unspendable_tx_out out \<longleftrightarrow>
     \<not> (script_type_enum out = Some DbP2PKH \<or> script_type_enum out = Some DbP2SH)"

definition tx_out_set_entry_digest :: "(u8 list \<Rightarrow> u8 list) \<Rightarrow> db_outpoint \<Rightarrow> tx_out_compact \<Rightarrow> u8 list" where
  "tx_out_set_entry_digest blake2b o1 out =
     entry_digest_parts blake2b (dop_prev_txid o1) (dop_prev_index o1) (toc_value out) (toc_script_hash out) (toc_script_type out)"

definition fta_empty :: finalised_accumulator where
  "fta_empty = \<lparr>fta_transactions = 0, fta_transaction_outputs = 0, fta_bytes_serialized = 0,
     fta_hash_serialized = replicate 32 0, fta_total_zatoshis = 0\<rparr>"

definition fta_into_business :: "finalised_accumulator \<Rightarrow> tx_out_set_accumulator" where
  "fta_into_business acc = \<lparr>tsa_transactions = fta_transactions acc,
     tsa_transaction_outputs = fta_transaction_outputs acc, tsa_bytes_serialized = fta_bytes_serialized acc,
     tsa_hash_serialized = fta_hash_serialized acc, tsa_total_zatoshis = fta_total_zatoshis acc\<rparr>"

definition fta_replace_business :: "tx_out_set_accumulator \<Rightarrow> finalised_accumulator" where
  "fta_replace_business value = \<lparr>fta_transactions = tsa_transactions value,
     fta_transaction_outputs = tsa_transaction_outputs value, fta_bytes_serialized = tsa_bytes_serialized value,
     fta_hash_serialized = tsa_hash_serialized value, fta_total_zatoshis = tsa_total_zatoshis value\<rparr>"

definition apply_output_delta ::
  "(u8 list \<Rightarrow> u8 list) \<Rightarrow> db_outpoint \<Rightarrow> tx_out_compact \<Rightarrow> delta \<Rightarrow> finalised_accumulator \<Rightarrow>
   accumulator_delta_error + finalised_accumulator" where
  "apply_output_delta blake2b o1 out d acc =
     bindE (map_err ade_from
       (apply_entry (tx_out_set_entry_digest blake2b o1 out) (toc_value out) d (fta_into_business acc)))
       (\<lambda>folded. Inr (fta_replace_business folded))"

definition apply_added_output ::
  "(u8 list \<Rightarrow> u8 list) \<Rightarrow> db_outpoint \<Rightarrow> tx_out_compact \<Rightarrow> finalised_accumulator \<Rightarrow>
   accumulator_delta_error + finalised_accumulator" where
  "apply_added_output blake2b o1 out = apply_output_delta blake2b o1 out Added"

definition apply_removed_output ::
  "(u8 list \<Rightarrow> u8 list) \<Rightarrow> db_outpoint \<Rightarrow> tx_out_compact \<Rightarrow> finalised_accumulator \<Rightarrow>
   accumulator_delta_error + finalised_accumulator" where
  "apply_removed_output blake2b o1 out = apply_output_delta blake2b o1 out Removed"

definition fta_combine :: "finalised_accumulator \<Rightarrow> finalised_accumulator \<Rightarrow> accumulator_delta_error + finalised_accumulator" where
  "fta_combine acc other =
     bindE (map_err ade_from (tsa_combine (fta_into_business acc) (fta_into_business other)))
       (\<lambda>folded. Inr (fta_replace_business folded))"

definition accumulator_encode_v1 :: "finalised_accumulator \<Rightarrow> io_error + u8 list" where
  "accumulator_encode_v1 acc =
     writes [Inr (write_u64_le (fta_transactions acc)), Inr (write_u64_le (fta_transaction_outputs acc)),
       Inr (write_u64_le (fta_bytes_serialized acc)), Inr (write_fixed_le (fta_hash_serialized acc)),
       Inr (write_u64_le (fta_total_zatoshis acc))]"

definition accumulator_decode_v1 :: "finalised_accumulator reader" where
  "accumulator_decode_v1 =
     rbind read_u64_le (\<lambda>transactions.
     rbind read_u64_le (\<lambda>transaction_outputs.
     rbind read_u64_le (\<lambda>bytes_serialized.
     rbind (read_fixed_le 32) (\<lambda>hash_serialized.
     rbind read_u64_le (\<lambda>total_zatoshis.
       rpure \<lparr>fta_transactions = transactions, fta_transaction_outputs = transaction_outputs,
         fta_bytes_serialized = bytes_serialized, fta_hash_serialized = hash_serialized,
         fta_total_zatoshis = total_zatoshis\<rparr>)))))"

definition accumulator_serde :: "finalised_accumulator serde" where
  "accumulator_serde = serde_v1 accumulator_encode_v1 accumulator_decode_v1"

definition accumulator_encoded_len :: "u8 \<Rightarrow> nat option" where
  "accumulator_encoded_len version = (if version = V1 then Some 64 else None)"

section \<open>The exclusive or of digests\<close>

type_synonym utxo = "db_outpoint \<times> tx_out_compact"

abbreviation utxo_digest :: "(u8 list \<Rightarrow> u8 list) \<Rightarrow> utxo \<Rightarrow> u8 list" where
  "utxo_digest blake2b u \<equiv> tx_out_set_entry_digest blake2b (fst u) (snd u)"

lemma length_xor_bytes [simp]: "length (xor_bytes a b) = min (length a) (length b)"
  by (simp add: xor_bytes_def)

lemma xor_bytes_nth: "i < length a \<Longrightarrow> i < length b \<Longrightarrow> xor_bytes a b ! i = xor (a ! i) (b ! i)"
  by (simp add: xor_bytes_def)

lemma xor_bytes_right_commute: "xor_bytes (xor_bytes h a) b = xor_bytes (xor_bytes h b) a"
  by (rule nth_equalityI) (simp_all add: xor_bytes_nth ac_simps)

lemma xor_bytes_assoc: "xor_bytes (xor_bytes a b) c = xor_bytes a (xor_bytes b c)"
  by (rule nth_equalityI) (simp_all add: xor_bytes_nth ac_simps)

lemma xor_bytes_cancel: "length h = length d \<Longrightarrow> xor_bytes (xor_bytes h d) d = h"
  by (rule nth_equalityI) (simp_all add: xor_bytes_nth ac_simps)

lemma xor_bytes_zero: "length h = n \<Longrightarrow> xor_bytes h (replicate n 0) = h"
  by (rule nth_equalityI) (simp_all add: xor_bytes_nth)

definition commitment :: "(u8 list \<Rightarrow> u8 list) \<Rightarrow> utxo multiset \<Rightarrow> u8 list" where
  "commitment blake2b M = fold_mset (\<lambda>u h. xor_bytes h (utxo_digest blake2b u)) (replicate 32 0) M"

lemma commitment_empty [simp]: "commitment blake2b {#} = replicate 32 0"
  by (simp add: commitment_def)

lemma commitment_add [simp]:
  "commitment blake2b (add_mset u M) = xor_bytes (commitment blake2b M) (utxo_digest blake2b u)"
proof -
  have "comp_fun_commute (\<lambda>u h. xor_bytes h (utxo_digest blake2b u))"
    by standard (simp add: fun_eq_iff xor_bytes_right_commute)
  then show ?thesis by (simp add: commitment_def comp_fun_commute.fold_mset_add_mset)
qed

definition digested :: "(u8 list \<Rightarrow> u8 list) \<Rightarrow> utxo multiset \<Rightarrow> bool" where
  "digested blake2b M \<longleftrightarrow> (\<forall>u \<in># M. length (utxo_digest blake2b u) = 32)"

lemma digested_simps [simp]:
  "digested blake2b {#}"
  "digested blake2b (add_mset u M) \<longleftrightarrow> length (utxo_digest blake2b u) = 32 \<and> digested blake2b M"
  "digested blake2b (M + N) \<longleftrightarrow> digested blake2b M \<and> digested blake2b N"
  by (auto simp: digested_def)

lemma digested_subset: "N \<subseteq># M \<Longrightarrow> digested blake2b M \<Longrightarrow> digested blake2b N"
  by (auto simp: digested_def dest: mset_subset_eqD)

lemma length_commitment [simp]: "digested blake2b M \<Longrightarrow> length (commitment blake2b M) = 32"
  by (induction M) simp_all

lemma commitment_union:
  "digested blake2b M \<Longrightarrow> digested blake2b N \<Longrightarrow>
     commitment blake2b (M + N) = xor_bytes (commitment blake2b M) (commitment blake2b N)"
proof (induction N)
  case (add u N)
  then show ?case by (simp add: xor_bytes_assoc)
qed (simp add: xor_bytes_zero)

lemma commitment_remove:
  assumes "digested blake2b M" and "u \<in># M"
  shows "xor_bytes (commitment blake2b M) (utxo_digest blake2b u) = commitment blake2b (M - {#u#})"
proof -
  from assms(2) obtain N where M: "M = add_mset u N" by (metis mset_add)
  with assms(1) show ?thesis by (simp add: xor_bytes_cancel)
qed

section \<open>What an accumulator describes\<close>

definition total_value :: "utxo multiset \<Rightarrow> nat" where
  "total_value M = (\<Sum>u \<in># M. unat (toc_value (snd u)))"

lemma total_value_simps [simp]:
  "total_value {#} = 0"
  "total_value (add_mset u M) = unat (toc_value (snd u)) + total_value M"
  "total_value (M + N) = total_value M + total_value N"
  by (simp_all add: total_value_def)

text \<open>The sets whose totals a 64-bit accumulator can hold.\<close>

definition fits :: "utxo multiset \<Rightarrow> bool" where
  "fits M \<longleftrightarrow> 65 * size M < 2 ^ 64 \<and> total_value M < 2 ^ 64"

lemma fits_subset: "N \<subseteq># M \<Longrightarrow> fits M \<Longrightarrow> fits N"
  by (auto simp: fits_def subset_mset.le_iff_add)

definition commits :: "(u8 list \<Rightarrow> u8 list) \<Rightarrow> finalised_accumulator \<Rightarrow> utxo multiset \<Rightarrow> bool" where
  "commits blake2b acc M \<longleftrightarrow>
     digested blake2b M \<and> fta_hash_serialized acc = commitment blake2b M
     \<and> unat (fta_transaction_outputs acc) = size M \<and> unat (fta_bytes_serialized acc) = 65 * size M
     \<and> unat (fta_total_zatoshis acc) = total_value M"

lemma commits_fits: "commits blake2b acc M \<Longrightarrow> fits M"
  using unat_less_exp [of "fta_bytes_serialized acc"] unat_less_exp [of "fta_total_zatoshis acc"]
  by (simp add: commits_def fits_def)

lemma commits_unique:
  "commits blake2b a M \<Longrightarrow> commits blake2b b M \<Longrightarrow> fta_transactions a = fta_transactions b \<Longrightarrow> a = b"
  by (simp add: commits_def word_unat_eq_iff)

lemma commits_empty: "commits blake2b fta_empty {#}"
  by (simp add: commits_def fta_empty_def)

lemmas accumulator_defs = apply_output_delta_def apply_entry_def delta_step_def xor_in_def fta_into_business_def
  fta_replace_business_def TXOUT_SET_ENTRY_LEN_def Let_def

lemma added_Inr:
  assumes "commits blake2b acc M" and "length (utxo_digest blake2b (o1, out)) = 32"
    and "apply_added_output blake2b o1 out acc = Inr acc'"
  shows "commits blake2b acc' (add_mset (o1, out) M) \<and> fta_transactions acc' = fta_transactions acc"
  using assms
  by (auto simp: apply_added_output_def accumulator_defs commits_def result_simps rust_arith)

lemma added_returns:
  assumes "commits blake2b acc M" and "fits (add_mset (o1, out) M)"
  shows "\<exists>acc'. apply_added_output blake2b o1 out acc = Inr acc'"
proof -
  have "checked_add (fta_transaction_outputs acc) 1 \<noteq> None"
    "checked_add (fta_bytes_serialized acc) 65 \<noteq> None" "checked_add (fta_total_zatoshis acc) (toc_value out) \<noteq> None"
    using assms unfolding rust_arith(2) commits_def fits_def by (simp_all add: checked_add_eq_None)
  then show ?thesis by (auto simp: apply_added_output_def accumulator_defs)
qed

lemma removed_Inr:
  assumes "commits blake2b acc M" and "(o1, out) \<in># M"
  shows "\<exists>acc'. apply_removed_output blake2b o1 out acc = Inr acc' \<and> commits blake2b acc' (M - {#(o1, out)#})
    \<and> fta_transactions acc' = fta_transactions acc"
proof -
  from assms(2) obtain N where M: "M = add_mset (o1, out) N" by (metis mset_add)
  have "checked_sub (fta_transaction_outputs acc) 1 = Some (fta_transaction_outputs acc - 1)"
    "checked_sub (fta_bytes_serialized acc) 65 = Some (fta_bytes_serialized acc - 65)"
    "checked_sub (fta_total_zatoshis acc) (toc_value out) = Some (fta_total_zatoshis acc - toc_value out)"
    using assms(1) by (simp_all add: M commits_def checked_sub_def word_le_nat_alt)
  moreover have "unat (fta_transaction_outputs acc - 1) = size N" "unat (fta_bytes_serialized acc - 65) = 65 * size N"
    "unat (fta_total_zatoshis acc - toc_value out) = total_value N"
    using assms(1) by (simp_all add: M commits_def word_le_nat_alt unat_sub)
  moreover have "xor_bytes (fta_hash_serialized acc) (utxo_digest blake2b (o1, out)) = commitment blake2b N"
    using assms(1) commitment_remove [of blake2b M "(o1, out)"] by (simp add: M commits_def)
  ultimately show ?thesis
    using assms(1) by (simp add: apply_removed_output_def accumulator_defs commits_def M)
qed

lemma combine_Inr:
  assumes "commits blake2b a M" and "commits blake2b b N" and "fta_combine a b = Inr c"
  shows "commits blake2b c (M + N)
    \<and> unat (fta_transactions c) = unat (fta_transactions a) + unat (fta_transactions b)"
  using assms commitment_union [of blake2b M N]
  by (auto simp: fta_combine_def tsa_combine_def checked_field_def accumulator_defs commits_def result_simps rust_arith)

lemma combine_returns:
  assumes "commits blake2b a M" and "commits blake2b b N" and "fits (M + N)"
    and "unat (fta_transactions a) + unat (fta_transactions b) < 2 ^ 64"
  shows "\<exists>c. fta_combine a b = Inr c"
proof -
  have "checked_add (fta_transactions a) (fta_transactions b) \<noteq> None"
    "checked_add (fta_transaction_outputs a) (fta_transaction_outputs b) \<noteq> None"
    "checked_add (fta_bytes_serialized a) (fta_bytes_serialized b) \<noteq> None"
    "checked_add (fta_total_zatoshis a) (fta_total_zatoshis b) \<noteq> None"
    using assms by (simp_all add: checked_add_eq_None commits_def fits_def)
  then show ?thesis by (auto simp: fta_combine_def tsa_combine_def checked_field_def accumulator_defs)
qed

section \<open>The contract of the accumulator\<close>

text \<open>A loop whose body may fail: the first error ends it.\<close>

primrec foldE :: "('a \<Rightarrow> 'b \<Rightarrow> 'e + 'b) \<Rightarrow> 'a list \<Rightarrow> 'b \<Rightarrow> 'e + 'b" where
  "foldE f [] acc = Inr acc"
| "foldE f (x # xs) acc = bindE (f x acc) (foldE f xs)"

lemma foldE_append: "foldE f (xs @ ys) acc = bindE (foldE f xs acc) (foldE f ys)"
  by (induction xs arbitrary: acc) (simp_all add: bindE_def split: sum.splits)

locale set_accumulator =
  fixes described :: "'acc \<Rightarrow> 'u multiset \<Rightarrow> bool" and ok :: "'u \<Rightarrow> bool" and within :: "'u multiset \<Rightarrow> bool"
    and add :: "'u \<Rightarrow> 'acc \<Rightarrow> 'e + 'acc" and remove :: "'u \<Rightarrow> 'acc \<Rightarrow> 'e + 'acc"
  assumes add_Inr: "described a M \<Longrightarrow> ok u \<Longrightarrow> add u a = Inr a' \<Longrightarrow> described a' (add_mset u M)"
    and add_returns: "described a M \<Longrightarrow> within (add_mset u M) \<Longrightarrow> \<exists>a'. add u a = Inr a'"
    and remove_Inr: "described a M \<Longrightarrow> u \<in># M \<Longrightarrow> \<exists>a'. remove u a = Inr a' \<and> described a' (M - {#u#})"
    and within_subset: "N \<subseteq># M \<Longrightarrow> within M \<Longrightarrow> within N"
begin

lemma add_all_Inr:
  "described a M \<Longrightarrow> list_all ok us \<Longrightarrow> foldE add us a = Inr a' \<Longrightarrow> described a' (M + mset us)"
proof (induction us arbitrary: a M)
  case (Cons u us)
  then obtain b where b: "add u a = Inr b" "foldE add us b = Inr a'" by (auto simp: bindE_eq_Inr)
  from add_Inr [OF Cons.prems(1) _ b(1)] Cons.prems(2) have "described b (add_mset u M)" by simp
  from Cons.IH [OF this _ b(2)] Cons.prems(2) show ?case by simp
qed simp

lemma add_all_returns:
  "described a M \<Longrightarrow> list_all ok us \<Longrightarrow> within (M + mset us) \<Longrightarrow> \<exists>a'. foldE add us a = Inr a'"
proof (induction us arbitrary: a M)
  case (Cons u us)
  have "add_mset u M \<subseteq># M + mset (u # us)" by simp
  from add_returns [OF Cons.prems(1) within_subset [OF this Cons.prems(3)]] obtain b where b: "add u a = Inr b" by blast
  from add_Inr [OF Cons.prems(1) _ b] Cons.prems(2) have "described b (add_mset u M)" by simp
  from Cons.IH [OF this] Cons.prems(2,3) b show ?case by simp
qed simp

lemma remove_all:
  "described a M \<Longrightarrow> mset us \<subseteq># M \<Longrightarrow> \<exists>a'. foldE remove us a = Inr a' \<and> described a' (M - mset us)"
proof (induction us arbitrary: a M)
  case (Cons u us)
  from Cons.prems(2) have u: "u \<in># M" and us: "mset us \<subseteq># M - {#u#}"
    by (simp_all add: insert_subset_eq_iff)
  from remove_Inr [OF Cons.prems(1) u] obtain b where b: "remove u a = Inr b" "described b (M - {#u#})" by blast
  from Cons.IH [OF b(2) us] b(1) show ?case by (auto simp: diff_diff_add_mset)
qed simp

end

text \<open>The store's row, beside a count of transactions that per-output steps leave alone.\<close>

interpretation utxo_row: set_accumulator
  "\<lambda>acc M. commits blake2b acc M \<and> fta_transactions acc = n" "\<lambda>u. length (utxo_digest blake2b u) = 32" fits
  "\<lambda>u. apply_added_output blake2b (fst u) (snd u)" "\<lambda>u. apply_removed_output blake2b (fst u) (snd u)"
  for blake2b and n
proof
  fix a M u a' assume "commits blake2b a M \<and> fta_transactions a = n" and "length (utxo_digest blake2b u) = 32"
    and "apply_added_output blake2b (fst u) (snd u) a = Inr a'"
  then show "commits blake2b a' (add_mset u M) \<and> fta_transactions a' = n"
    using added_Inr [of blake2b a M "fst u" "snd u" a'] by simp
next
  fix a M u assume "commits blake2b a M \<and> fta_transactions a = n" and "fits (add_mset u M)"
  then show "\<exists>a'. apply_added_output blake2b (fst u) (snd u) a = Inr a'"
    using added_returns [of blake2b a M "fst u" "snd u"] by simp
next
  fix a M u assume "commits blake2b a M \<and> fta_transactions a = n" and "u \<in># M"
  then show "\<exists>a'. apply_removed_output blake2b (fst u) (snd u) a = Inr a'
      \<and> commits blake2b a' (M - {#u#}) \<and> fta_transactions a' = n"
    using removed_Inr [of blake2b a M "fst u" "snd u"] by auto
qed (rule fits_subset)

lemma accumulator_codec:
  "codec (\<lambda>acc. length (fta_hash_serialized acc) = 32) accumulator_encode_v1 accumulator_decode_v1"
proof
  fix x :: finalised_accumulator assume ok: "length (fta_hash_serialized x) = 32"
  show "reads accumulator_decode_v1 (accumulator_encode_v1 x) x"
    unfolding accumulator_decode_v1_def accumulator_encode_v1_def
    by (rule reads_intros | simp add: ok)+
qed (auto simp: accumulator_decode_v1_def result_simps)

interpretation accumulator: fixed_encoded_len accumulator_serde "\<lambda>acc. length (fta_hash_serialized acc) = 32" accumulator_encoded_len
  unfolding accumulator_serde_def accumulator_encoded_len_def [abs_def]
  by (rule serde_v1_fixed [OF accumulator_codec]) (auto simp: accumulator_encode_v1_def)

section \<open>The properties\<close>

lemma fold_added:
  assumes "\<And>x. length (blake2b x) = 32" and "fits (mset us)"
  shows "\<exists>acc. foldE (\<lambda>u. apply_added_output blake2b (fst u) (snd u)) us fta_empty = Inr acc
    \<and> commits blake2b acc (mset us) \<and> fta_transactions acc = 0"
proof -
  have ok: "list_all (\<lambda>u. length (utxo_digest blake2b u) = 32) us"
    using assms(1) by (simp add: list_all_iff tx_out_set_entry_digest_def entry_digest_parts_def)
  have start: "commits blake2b fta_empty {#} \<and> fta_transactions fta_empty = 0"
    using commits_empty by (simp add: fta_empty_def)
  from utxo_row.add_all_returns [OF start ok] assms(2) obtain acc where
    acc: "foldE (\<lambda>u. apply_added_output blake2b (fst u) (snd u)) us fta_empty = Inr acc" by auto
  from utxo_row.add_all_Inr [OF start ok acc] acc show ?thesis by auto
qed


text \<open>Three outputs, two of them with the same value.\<close>

definition example_utxo :: "u8 \<Rightarrow> u64 \<Rightarrow> utxo" where
  "example_utxo b v = (\<lparr>dop_prev_txid = replicate 32 b, dop_prev_index = 0\<rparr>,
     \<lparr>toc_value = v, toc_script_hash = replicate 20 b, toc_script_type = 0\<rparr>)"


lemma to_le_inject: "LENGTH('a) \<le> 8 * n \<Longrightarrow> to_le n a = to_le n b \<longleftrightarrow> a = b" for a b :: "'a::len word"
  by (metis from_le_to_le)

text \<open>C40. Two stores agree on the commitment. The digest the store computes from its row bytes is the
  one the contract defines on domain values, the outputs it leaves out are those the contract
  leaves out, and the bytes hashed for an output determine the output, its place and its script
  form.
\<close>

theorem txout_digest_contract:
  "tx_out_set_entry_digest blake2b \<lparr>dop_prev_txid = txid, dop_prev_index = i\<rparr>
      \<lparr>toc_value = v, toc_script_hash = h, toc_script_type = script_type_tag t\<rparr>
    = entry_digest blake2b \<lparr>op_txid = TransactionId txid, op_index = i\<rparr>
      \<lparr>sto_value = Zatoshis v, sto_address = \<lparr>sa_hash = h, sa_script_type = t\<rparr>\<rparr>
   \<and> (is_unspendable_tx_out \<lparr>toc_value = v, toc_script_hash = h, toc_script_type = script_type_tag t\<rparr>
        \<longleftrightarrow> is_unspendable \<lparr>sto_value = Zatoshis v, sto_address = \<lparr>sa_hash = h, sa_script_type = t\<rparr>\<rparr>)
   \<and> (length txid = 32 \<longrightarrow> length txid' = 32 \<longrightarrow> length h = 20 \<longrightarrow> length h' = 20 \<longrightarrow>
        (canonical_entry \<lparr>op_txid = TransactionId txid, op_index = i\<rparr>
            \<lparr>sto_value = Zatoshis v, sto_address = \<lparr>sa_hash = h, sa_script_type = t\<rparr>\<rparr>
          = canonical_entry \<lparr>op_txid = TransactionId txid', op_index = i'\<rparr>
            \<lparr>sto_value = Zatoshis v', sto_address = \<lparr>sa_hash = h', sa_script_type = t'\<rparr>\<rparr>
         \<longleftrightarrow> txid = txid' \<and> i = i' \<and> v = v' \<and> h = h' \<and> t = t'))"
proof (intro conjI impI)
  show "is_unspendable_tx_out \<lparr>toc_value = v, toc_script_hash = h, toc_script_type = script_type_tag t\<rparr>
      \<longleftrightarrow> is_unspendable \<lparr>sto_value = Zatoshis v, sto_address = \<lparr>sa_hash = h, sa_script_type = t\<rparr>\<rparr>"
    by (cases t) (simp_all add: is_unspendable_tx_out_def is_unspendable_def script_type_enum_def script_type_tag_def
        script_type_try_from_def)
  have tag: "script_type_tag t = script_type_tag t' \<longleftrightarrow> t = t'"
    by (cases t; cases t') (simp_all add: script_type_tag_def)
  assume "length txid = 32" "length txid' = 32" "length h = 20" "length h' = 20"
  then show "canonical_entry \<lparr>op_txid = TransactionId txid, op_index = i\<rparr>
        \<lparr>sto_value = Zatoshis v, sto_address = \<lparr>sa_hash = h, sa_script_type = t\<rparr>\<rparr>
      = canonical_entry \<lparr>op_txid = TransactionId txid', op_index = i'\<rparr>
        \<lparr>sto_value = Zatoshis v', sto_address = \<lparr>sa_hash = h', sa_script_type = t'\<rparr>\<rparr>
     \<longleftrightarrow> txid = txid' \<and> i = i' \<and> v = v' \<and> h = h' \<and> t = t'"
    by (simp add: canonical_entry_def canonical_entry_parts_def txid_bytes_def tag to_le_inject append_eq_append_conv)
qed (simp add: tx_out_set_entry_digest_def entry_digest_def txid_bytes_def)

theorem txout_digest_contract_witness:
  "canonical_entry \<lparr>op_txid = TransactionId (replicate 32 1), op_index = 0\<rparr>
      \<lparr>sto_value = Zatoshis 5, sto_address = \<lparr>sa_hash = replicate 20 2, sa_script_type = P2PKH\<rparr>\<rparr>
    \<noteq> canonical_entry \<lparr>op_txid = TransactionId (replicate 32 1), op_index = 0\<rparr>
      \<lparr>sto_value = Zatoshis 5, sto_address = \<lparr>sa_hash = replicate 20 2, sa_script_type = P2SH\<rparr>\<rparr>"
  using txout_digest_contract [of id "replicate 32 1" 0 5 "replicate 20 2" P2PKH "replicate 32 1" "replicate 20 2" 0 5 P2SH]
  by simp

end
