(* ===== verification/Zaino_Row_Scan_Theorems.thy ===== *)
theory Zaino_Row_Scan_Theorems
  imports Zaino_Row_Scan
begin

text \<open>
  What the byte-level lookups of \<open>Zaino_Row_Scan\<close> return on rows the store wrote, compared
  with decoding the whole row: the transaction identifier, transparent transaction and
  transparent output lookups agree with it; the shielded lookups decide presence correctly
  and misread every transaction that is present.
\<close>

section \<open>Steps of a cursor\<close>

lemma drop_step: "drop pos raw = w @ rest \<Longrightarrow> drop (pos + length w) raw = rest"
  by (metis add.commute append_eq_conv_conj drop_drop)

lemma cursor_read_at:
  "reads r (Inr w) x \<Longrightarrow> drop pos raw = w @ rest \<Longrightarrow> cursor_read r raw pos = Inr (x, pos + length w)"
  by (simp add: cursor_read_def reads_def)

lemma cursor_read_byte:
  "drop pos raw = b # rest \<Longrightarrow> cursor_read (read_exact (Suc 0)) raw pos = Inr ([b], Suc pos)"
  using cursor_read_at [OF reads_prims(8), of pos raw b rest] by simp

lemma cursor_read_count:
  assumes "n \<le> unat MAX_COMPACT_SIZE" and "drop pos raw = compact_size_write (of_nat n) @ rest"
  shows "cursor_read compact_size_read raw pos = Inr (of_nat n, pos + length (compact_size_write (of_nat n :: u64)))"
  using cursor_read_at [OF reads_count [OF assms(1)] assms(2)] .

lemma slice_mid:
  assumes "drop pos raw = w @ rest" and "w \<noteq> []"
  shows "slice raw pos (pos + length w) = Inr w"
proof -
  from assms(1) have "length raw - pos = length w + length rest" by (metis length_append length_drop)
  moreover have "0 < length w" using assms(2) by simp
  ultimately have "pos + length w \<le> length raw" by linarith
  with assms(1) show ?thesis by (simp add: slice_def)
qed

lemma writes_append:
  "writes (us @ vs) = Inr bs \<longleftrightarrow> (\<exists>u v. writes us = Inr u \<and> writes vs = Inr v \<and> bs = u @ v)"
  by (induction us arbitrary: bs) (auto simp: bindE_eq_Inr)

lemma serialize_v1: "serialize_with_version (serde_v1 enc dec) x 1 = bindE (enc x) (\<lambda>body. Inr (1 # body))"
  by (cases "enc x") (simp_all add: serialize_with_version_def encode_body_def serde_v1_def V1_def)

lemma write_vec_eq_Inr:
  "write_vec f xs = Inr bs \<longleftrightarrow>
     (\<exists>items. writes (map f xs) = Inr items \<and> bs = compact_size_write (of_nat (length xs)) @ items)"
  by (auto simp: write_vec_def bindE_eq_Inr)

context fixed_encoded_len
begin

text \<open>Items of a fixed-length type: their count times their length.\<close>

lemma latest_len: "len (VERSION S) = Some n \<Longrightarrow> latest_versioned_len S len = Inr (Suc n)"
  by (simp add: latest_versioned_len_def versioned_len_def VERSION_TAG_LEN_def)

lemma writes_items_length:
  assumes "len (VERSION S) = Some n" and "list_all ok xs"
    and "writes (map (\<lambda>x. serialize_with_version S x (VERSION S)) xs) = Inr items"
  shows "length items = length xs * Suc n"
  using assms(2,3)
proof (induction xs arbitrary: items)
  case (Cons x xs)
  then obtain a b where a: "serialize_with_version S x (VERSION S) = Inr a"
    and b: "writes (map (\<lambda>x. serialize_with_version S x (VERSION S)) xs) = Inr b" and items: "items = a @ b"
    by (auto simp: bindE_eq_Inr)
  have "length a = Suc n"
    using versioned_len_written [of "VERSION S" "Suc n" x a] a assms(1) Cons.prems
    by (simp add: versioned_len_def VERSION_TAG_LEN_def to_bytes_with_version_def)
  with Cons.IH [OF _ b] Cons.prems items show ?case by simp
qed simp

lemma writes_items_nth:
  assumes "len (VERSION S) = Some n" and "list_all ok xs" and "i < length xs"
    and "writes (map (\<lambda>x. serialize_with_version S x (VERSION S)) xs) = Inr items"
  obtains before w after where "items = before @ w @ after" and "length before = i * Suc n"
    and "serialize_with_version S (xs ! i) (VERSION S) = Inr w"
proof -
  let ?f = "\<lambda>x. serialize_with_version S x (VERSION S)"
  have "map ?f xs = map ?f (take i xs) @ ?f (xs ! i) # map ?f (drop (Suc i) xs)"
    using arg_cong [OF id_take_nth_drop [OF assms(3)], of "map ?f"] by simp
  with assms(4) obtain before w after where b: "writes (map ?f (take i xs)) = Inr before"
    and w: "?f (xs ! i) = Inr w" "items = before @ w @ after"
    by (auto simp: writes_append bindE_eq_Inr)
  have "list_all ok (take i xs)" using assms(2) by (auto simp: list_all_iff dest: in_set_takeD)
  from writes_items_length [OF assms(1) this b] assms(3) w that show ?thesis by simp
qed

end

section \<open>Skipping one entry\<close>

text \<open>The contract of an entry-skipping function: it lands right behind one encoded entry.\<close>

locale entry_skip =
  fixes skip_entry :: "u8 list \<Rightarrow> nat \<Rightarrow> io_error + nat"
    and ok :: "'a \<Rightarrow> bool" and enc :: "'a \<Rightarrow> io_error + u8 list"
  assumes skips: "pred_option ok x \<Longrightarrow> write_option enc x = Inr w \<Longrightarrow> drop pos raw = w @ rest \<Longrightarrow>
    skip_entry raw pos = Inr (pos + length w)"
begin

lemma skip_entries_lands:
  assumes "list_all (pred_option ok) xs" and "idx \<le> length xs"
    and "writes (map (write_option enc) xs) = Inr items" and "drop pos raw = items @ rest"
  shows "\<exists>pos' later. skip_entries skip_entry idx raw pos = Inr pos'
    \<and> writes (map (write_option enc) (drop idx xs)) = Inr later \<and> drop pos' raw = later @ rest"
  using assms
proof (induction idx arbitrary: xs pos items)
  case (Suc idx)
  then obtain x xs' where xs: "xs = x # xs'" by (cases xs) auto
  with Suc.prems(3) obtain w items' where w: "write_option enc x = Inr w"
    and items': "writes (map (write_option enc) xs') = Inr items'" and items: "items = w @ items'"
    by (auto simp: bindE_eq_Inr)
  from Suc.prems(4) items have d: "drop pos raw = w @ items' @ rest" by simp
  from skips [OF _ w d] Suc.prems(1) xs have "skip_entry raw pos = Inr (pos + length w)" by simp
  moreover have "\<exists>pos' later. skip_entries skip_entry idx raw (pos + length w) = Inr pos'
      \<and> writes (map (write_option enc) (drop idx xs')) = Inr later \<and> drop pos' raw = later @ rest"
    using Suc.IH [OF _ _ items' drop_step [OF d]] Suc.prems(1,2) xs by simp
  ultimately show ?case using xs by simp
qed auto

text \<open>The entry itself: where it starts, and what is written there.\<close>

lemma skip_entries_at:
  assumes "list_all (pred_option ok) xs" and "idx < length xs"
    and "writes (map (write_option enc) xs) = Inr items" and "drop pos raw = items @ rest"
  shows "\<exists>pos' w rest'. skip_entries skip_entry idx raw pos = Inr pos'
    \<and> write_option enc (xs ! idx) = Inr w \<and> drop pos' raw = w @ rest' \<and> skip_entry raw pos' = Inr (pos' + length w)"
proof -
  from assms(2) have cons: "drop idx xs = xs ! idx # drop (Suc idx) xs" by (simp add: Cons_nth_drop_Suc)
  from skip_entries_lands [OF assms(1) _ assms(3,4), of idx] assms(2) obtain pos' later
    where p: "skip_entries skip_entry idx raw pos = Inr pos'"
      and l: "writes (map (write_option enc) (drop idx xs)) = Inr later" and d: "drop pos' raw = later @ rest"
    by auto
  from l obtain w more where w: "write_option enc (xs ! idx) = Inr w" "later = w @ more"
    unfolding cons by (auto simp: bindE_eq_Inr)
  with d have "drop pos' raw = w @ more @ rest" by simp
  moreover have "pred_option ok (xs ! idx)" using assms(1,2) by (simp add: list_all_length)
  ultimately show ?thesis using p w(1) skips by blast
qed

end

lemma write_option_Some: "write_option enc (Some x) = Inr w \<longleftrightarrow> (\<exists>body. enc x = Inr body \<and> w = 1 # body)"
  by (auto simp: write_option_def bindE_eq_Inr)

lemma skip_counted:
  assumes "fixed_encoded_len S ok len" and "len (VERSION S) = Some n" and "vec_ok ok xs"
    and "write_vec (\<lambda>x. serialize_with_version S x (VERSION S)) xs = Inr w" and "drop pos raw = w @ rest"
  shows "skip_counted_fixed_entries S len raw pos = Inr (pos + length w)"
proof -
  from assms(3) have ok: "list_all ok xs" "length xs \<le> unat MAX_COMPACT_SIZE" by (simp_all add: vec_ok_def)
  from assms(4) obtain items where items: "writes (map (\<lambda>x. serialize_with_version S x (VERSION S)) xs) = Inr items"
    and w: "w = compact_size_write (of_nat (length xs)) @ items" by (auto simp: write_vec_eq_Inr)
  from assms(5) w have "drop pos raw = compact_size_write (of_nat (length xs)) @ items @ rest" by simp
  from cursor_read_count [OF ok(2) this] fixed_encoded_len.latest_len [OF assms(1,2)]
    fixed_encoded_len.writes_items_length [OF assms(1,2) ok(1) items] unat_count [OF ok(2)] w
  show ?thesis by (simp add: skip_counted_fixed_entries_def)
qed

lemma serde_versions [simp]:
  "VERSION tx_in_serde = 1" "VERSION tx_out_serde = 1" "VERSION sapling_spend_serde = 1"
  "VERSION sapling_output_serde = 1" "VERSION orchard_action_serde = 1" "VERSION transaction_hash_serde = 1"
  by (simp_all add: tx_in_serde_def tx_out_serde_def sapling_spend_serde_def sapling_output_serde_def
      orchard_action_serde_def transaction_hash_serde_def serde_v1_def V1_def)

lemmas counted_skips =
  skip_counted [OF tx_in.fixed_encoded_len_axioms, unfolded serde_versions]
  skip_counted [OF tx_out.fixed_encoded_len_axioms, unfolded serde_versions]
  skip_counted [OF sapling_spend.fixed_encoded_len_axioms, unfolded serde_versions]
  skip_counted [OF sapling_output.fixed_encoded_len_axioms, unfolded serde_versions]
  skip_counted [OF orchard_action.fixed_encoded_len_axioms, unfolded serde_versions]

lemmas encoded_lens = tx_in_encoded_len_def tx_out_encoded_len_def sapling_spend_encoded_len_def
  sapling_output_encoded_len_def orchard_action_encoded_len_def transaction_hash_encoded_len_def V1_def

lemma skip_transparent_present:
  assumes "drop pos raw = 1 # v # rest"
  shows "skip_opt_transparent_entry raw pos =
    bindE (skip_counted_fixed_entries tx_in_serde tx_in_encoded_len raw (Suc (Suc pos)))
      (skip_counted_fixed_entries tx_out_serde tx_out_encoded_len raw)"
proof -
  from assms have "drop (Suc pos) raw = v # rest" using drop_step [of pos raw "[1]"] by simp
  with assms show ?thesis
    by (simp add: skip_opt_transparent_entry_def cursor_read_byte skip_counted_fixed_entries_def
        bindE_def Let_def split: sum.splits)
qed

interpretation transparent_skip: entry_skip skip_opt_transparent_entry transparent_ok
  "\<lambda>t. serialize_with_version transparent_serde t 1"
proof
  fix x w pos raw rest
  assume ok: "pred_option transparent_ok x"
    and w: "write_option (\<lambda>t. serialize_with_version transparent_serde t 1) x = Inr w"
    and d: "drop pos raw = w @ rest"
  show "skip_opt_transparent_entry raw pos = Inr (pos + length w)"
  proof (cases x)
    case None
    with w d have "drop pos raw = 0 # rest" "w = [0]" by (simp_all add: write_option_def)
    then show ?thesis by (simp add: skip_opt_transparent_entry_def cursor_read_byte)
  next
    case (Some t)
    with w obtain a b where
      a: "write_vec (\<lambda>i. serialize_with_version tx_in_serde i 1) (tct_vin t) = Inr a" and
      b: "write_vec (\<lambda>o1. serialize_with_version tx_out_serde o1 1) (tct_vout t) = Inr b" and
      w: "w = 1 # 1 # a @ b"
      by (auto simp: write_option_Some transparent_serde_def serialize_v1 transparent_encode_v1_def bindE_eq_Inr)
    have d: "drop pos raw = 1 # 1 # a @ b @ rest" using d w by simp
    then have da: "drop (Suc (Suc pos)) raw = a @ b @ rest" using drop_step [of pos raw "[1, 1]"] by simp
    from ok Some have ok: "vec_ok tx_in_ok (tct_vin t)" "vec_ok tx_out_ok (tct_vout t)" by (simp_all add: transparent_ok_def)
    from counted_skips(1) [OF _ ok(1) a da] counted_skips(2) [OF _ ok(2) b drop_step [OF da]]
    show ?thesis by (simp add: skip_transparent_present [OF d] encoded_lens w)
  qed
qed

lemma prelude_present:
  assumes "drop pos raw = 1 # v # w @ rest" and "write_option (\<lambda>v. Inr (write_i64_le v)) val = Inr w"
  shows "skip_opt_tx_prelude raw pos = Inr (True, Suc (Suc pos) + length w)"
proof -
  from assms(1) have d: "drop (Suc pos) raw = v # w @ rest" "drop (Suc (Suc pos)) raw = w @ rest"
    using drop_step [of pos raw "[1]"] drop_step [of pos raw "[1, v]"] by simp_all
  from assms(2) show ?thesis
    by (cases val) (use assms(1) d in \<open>auto simp: skip_opt_tx_prelude_def cursor_read_byte write_option_def
        write_i64_le_def\<close>)
qed

lemma prelude_absent: "drop pos raw = 0 # rest \<Longrightarrow> skip_opt_tx_prelude raw pos = Inr (False, Suc pos)"
  by (simp add: skip_opt_tx_prelude_def cursor_read_byte)

interpretation sapling_skip: entry_skip skip_opt_sapling_entry sapling_ok
  "\<lambda>t. serialize_with_version sapling_serde t 1"
proof
  fix x w pos raw rest
  assume ok: "pred_option sapling_ok x"
    and w: "write_option (\<lambda>t. serialize_with_version sapling_serde t 1) x = Inr w"
    and d: "drop pos raw = w @ rest"
  show "skip_opt_sapling_entry raw pos = Inr (pos + length w)"
  proof (cases x)
    case None
    with w d show ?thesis by (auto simp: write_option_def skip_opt_sapling_entry_def prelude_absent)
  next
    case (Some t)
    with w obtain v a b where v: "write_option (\<lambda>v. Inr (write_i64_le v)) (sct_value t) = Inr v" and
      a: "write_vec (\<lambda>s. serialize_with_version sapling_spend_serde s 1) (sct_spends t) = Inr a" and
      b: "write_vec (\<lambda>o1. serialize_with_version sapling_output_serde o1 1) (sct_outputs t) = Inr b" and
      w: "w = 1 # 1 # v @ a @ b"
      by (auto simp: write_option_Some sapling_serde_def serialize_v1 sapling_encode_v1_def bindE_eq_Inr)
    have d: "drop pos raw = 1 # 1 # v @ a @ b @ rest" using d w by simp
    then have da: "drop (Suc (Suc pos) + length v) raw = a @ b @ rest" using drop_step [of pos raw "1 # 1 # v"] by simp
    from ok Some have ok: "vec_ok sapling_spend_ok (sct_spends t)" "vec_ok sapling_output_ok (sct_outputs t)"
      by (simp_all add: sapling_ok_def)
    from counted_skips(3) [OF _ ok(1) a da] counted_skips(4) [OF _ ok(2) b drop_step [OF da]]
    show ?thesis by (simp add: skip_opt_sapling_entry_def prelude_present [OF d v] encoded_lens w)
  qed
qed

interpretation orchard_skip: entry_skip skip_opt_orchard_entry orchard_ok
  "\<lambda>t. serialize_with_version orchard_serde t 1"
proof
  fix x w pos raw rest
  assume ok: "pred_option orchard_ok x"
    and w: "write_option (\<lambda>t. serialize_with_version orchard_serde t 1) x = Inr w"
    and d: "drop pos raw = w @ rest"
  show "skip_opt_orchard_entry raw pos = Inr (pos + length w)"
  proof (cases x)
    case None
    with w d show ?thesis by (auto simp: write_option_def skip_opt_orchard_entry_def prelude_absent)
  next
    case (Some t)
    with w obtain v a where v: "write_option (\<lambda>v. Inr (write_i64_le v)) (oct_value t) = Inr v" and
      a: "write_vec (\<lambda>a. serialize_with_version orchard_action_serde a 1) (oct_actions t) = Inr a" and
      w: "w = 1 # 1 # v @ a"
      by (auto simp: write_option_Some orchard_serde_def serialize_v1 orchard_encode_v1_def bindE_eq_Inr)
    have d: "drop pos raw = 1 # 1 # v @ a @ rest" using d w by simp
    then have da: "drop (Suc (Suc pos) + length v) raw = a @ rest" using drop_step [of pos raw "1 # 1 # v"] by simp
    from ok Some have "vec_ok orchard_action_ok (oct_actions t)" by (simp add: orchard_ok_def)
    from counted_skips(5) [OF _ this a da]
    show ?thesis by (simp add: skip_opt_orchard_entry_def prelude_present [OF d v] encoded_lens w)
  qed
qed

section \<open>Rows of a table\<close>

text \<open>
  \<open>raw\<close> is the row the write path puts for \<open>item\<close> under \<open>key\<close>: a checksummed entry, whose
  body is within the size a reader accepts. \<open>row_at\<close>: the table has such a row at a height.
\<close>

definition stored_row :: "(u8 list \<Rightarrow> u8 list) \<Rightarrow> 'a serde \<Rightarrow> u8 list \<Rightarrow> 'a \<Rightarrow> u8 list \<Rightarrow> bool" where
  "stored_row blake2b S key item raw \<longleftrightarrow>
     (\<exists>e body. var_new blake2b S key item = Inr e \<and> to_bytes (var_serde S) e = Inr raw
        \<and> serialize S item = Inr body \<and> length body \<le> unat MAX_COMPACT_SIZE)"

definition row_at :: "(u8 list \<Rightarrow> u8 list) \<Rightarrow> 'a serde \<Rightarrow> lmdb_txn \<Rightarrow> db_table \<Rightarrow> u32 \<Rightarrow> 'a \<Rightarrow> bool" where
  "row_at blake2b S txn table h item \<longleftrightarrow>
     (\<exists>key raw. db_height_try_from h = Inr (DbHeight h) \<and> to_bytes height_serde (DbHeight h) = Inr key
        \<and> txn_get txn table key = Inr raw \<and> stored_row blake2b S key item raw)"

lemma stored_row_layout:
  assumes "stored_row blake2b S key item raw"
  obtains body where "serialize S item = Inr body" and "length body \<le> unat MAX_COMPACT_SIZE"
    and "raw = 1 # compact_size_write (of_nat (length body)) @ body @ blake2b (key @ body)"
  using assms
  by (auto simp: stored_row_def var_new_def var_serde_def to_bytes_def to_bytes_with_version_def
      serialize_with_version_def encode_body_def serde_v1_def var_encode_v1_def V1_def write_fixed_le_def
      bindE_eq_Inr split: sum.splits)

text \<open>The two counts in front of a list row's items.\<close>

lemma list_row_header:
  assumes row: "stored_row blake2b (serde_v1 enc dec) key item raw"
    and vec: "enc item = write_vec f xs" and n: "length xs \<le> unat MAX_COMPACT_SIZE"
  obtains items pos pos' len where "writes (map f xs) = Inr items"
    and "cursor_read compact_size_read raw (Suc 0) = Inr (len, pos)"
    and "cursor_read compact_size_read raw (Suc pos) = Inr (of_nat (length xs), pos')"
    and "drop pos' raw = items @ blake2b (key @ 1 # compact_size_write (of_nat (length xs)) @ items)"
proof -
  from row obtain body where ser: "serialize (serde_v1 enc dec) item = Inr body"
    and fits: "length body \<le> unat MAX_COMPACT_SIZE"
    and raw: "raw = 1 # compact_size_write (of_nat (length body)) @ body @ blake2b (key @ body)"
    by (rule stored_row_layout)
  from ser vec obtain items where items: "writes (map f xs) = Inr items"
    and body: "body = 1 # compact_size_write (of_nat (length xs)) @ items"
    by (auto simp: serialize_def serialize_v1 [unfolded V1_def [symmetric]] serde_v1_def serialize_with_version_def
        encode_body_def V1_def write_vec_eq_Inr bindE_eq_Inr)
  have d: "drop (Suc 0) raw = compact_size_write (of_nat (length body)) @ body @ blake2b (key @ body)"
    using raw by simp
  from drop_step [OF d] body
  have "drop (Suc 0 + length (compact_size_write (of_nat (length body) :: u64))) raw
      = [1] @ compact_size_write (of_nat (length xs)) @ items @ blake2b (key @ body)" by simp
  from drop_step [OF this]
  have d': "drop (Suc (Suc 0 + length (compact_size_write (of_nat (length body) :: u64)))) raw
      = compact_size_write (of_nat (length xs)) @ items @ blake2b (key @ body)" by simp
  show ?thesis
    using that [OF items cursor_read_count [OF fits d] cursor_read_count [OF n d']] drop_step [OF d'] body by simp
qed

section \<open>Lookups that agree with the decoded row\<close>

lemma get_txid_finds:
  assumes row: "row_at blake2b txid_list_serde txn TbTxids (tl_block_height loc) l" and ok: "txid_list_ok l"
  shows "get_txid (Inr txn) loc =
    (if unat (tl_tx_index loc) < length (txl_txids l) then Inr (txl_txids l ! unat (tl_tx_index loc))
     else Inl (DataUnavailable ''tx_index out of range in txid list''))"
proof -
  let ?xs = "txl_txids l" and ?i = "unat (tl_tx_index loc)"
  from ok have okx: "list_all transaction_hash_ok ?xs" "length ?xs \<le> unat MAX_COMPACT_SIZE"
    by (simp_all add: txid_list_ok_def vec_ok_def)
  from row obtain key raw where key: "db_height_try_from (tl_block_height loc) = Inr (DbHeight (tl_block_height loc))"
    "to_bytes height_serde (DbHeight (tl_block_height loc)) = Inr key" "txn_get txn TbTxids key = Inr raw"
    and raw: "stored_row blake2b txid_list_serde key l raw" unfolding row_at_def by blast
  obtain items pos pos' len where
    items: "writes (map (\<lambda>h. serialize_with_version transaction_hash_serde h 1) ?xs) = Inr items"
    and hdr: "cursor_read compact_size_read raw (Suc 0) = Inr (len, pos)"
      "cursor_read compact_size_read raw (Suc pos) = Inr (of_nat (length ?xs), pos')"
    and d: "drop pos' raw = items @ blake2b (key @ 1 # compact_size_write (of_nat (length ?xs)) @ items)"
    by (rule list_row_header [OF raw [unfolded txid_list_serde_def] txid_list_encode_v1_def okx(2)])
  show ?thesis
  proof (cases "?i < length ?xs")
    case True
    obtain before w more where m: "items = before @ w @ more" "length before = ?i * Suc 32"
      "serialize_with_version transaction_hash_serde (?xs ! ?i) 1 = Inr w"
      by (rule transaction_hash.writes_items_nth [unfolded serde_versions, OF _ okx(1) True items])
        (simp add: encoded_lens)
    then have w: "w = 1 # dth_bytes (?xs ! ?i)"
      by (simp add: transaction_hash_serde_def serialize_v1 transaction_hash_encode_v1_def write_fixed_le_def)
    from d m(1) w have "\<exists>tail. drop pos' raw = (before @ [1]) @ dth_bytes (?xs ! ?i) @ tail" by simp
    then obtain tail where "drop pos' raw = (before @ [1]) @ dth_bytes (?xs ! ?i) @ tail" by blast
    from drop_step [OF this] m(2) have "drop (pos' + ?i * 33 + 1) raw = dth_bytes (?xs ! ?i) @ tail"
      by (simp add: add.assoc)
    moreover have "length (dth_bytes (?xs ! ?i)) = 32"
      using okx True by (simp add: list_all_length transaction_hash_ok_def)
    ultimately have "cursor_read (read_exact 32) raw (pos' + ?i * 33 + 1) = Inr (dth_bytes (?xs ! ?i), pos' + ?i * 33 + 33)"
      by (simp add: cursor_read_def codec_simps)
    then show ?thesis
      using True key hdr unat_count [OF okx(2)]
      by (simp add: get_txid_def latest_versioned_len_def latest_encoded_len_def versioned_len_def encoded_lens
          VERSION_TAG_LEN_def Let_def)
  next
    case False
    then show ?thesis using key hdr unat_count [OF okx(2)] by (simp add: get_txid_def Let_def)
  qed
qed

lemma from_serialized_v1:
  assumes "codec ok enc dec" and "ok x" and "serialize_with_version (serde_v1 enc dec) x 1 = Inr w"
  shows "from_bytes (serde_v1 enc dec) w = Inr x"
proof -
  have "reads (deserialize (serde_v1 enc dec)) (Inr w) x"
    using codec.reads_back [OF nested_v1 [OF assms(1)] assms(2)] assms(3) by simp
  from reads_all [OF this] show ?thesis by (simp add: from_bytes_def)
qed

lemma get_transparent_finds:
  assumes row: "row_at blake2b transparent_list_serde txn TbTransparent (tl_block_height loc) l"
    and ok: "transparent_list_ok l"
  shows "get_transparent (Inr txn) loc =
    (if unat (tl_tx_index loc) < length (ttl_tx l) then Inr (ttl_tx l ! unat (tl_tx_index loc))
     else Inl (Custom ''tx_index out of range in transparent tx data''))"
proof -
  let ?xs = "ttl_tx l" and ?i = "unat (tl_tx_index loc)" and ?f = "\<lambda>t. serialize_with_version transparent_serde t 1"
  from ok have okx: "list_all (pred_option transparent_ok) ?xs" "length ?xs \<le> unat MAX_COMPACT_SIZE"
    by (simp_all add: transparent_list_ok_def vec_ok_def)
  from row obtain key raw where key: "db_height_try_from (tl_block_height loc) = Inr (DbHeight (tl_block_height loc))"
    "to_bytes height_serde (DbHeight (tl_block_height loc)) = Inr key" "txn_get txn TbTransparent key = Inr raw"
    and raw: "stored_row blake2b transparent_list_serde key l raw" unfolding row_at_def by blast
  obtain items pos pos' len where items: "writes (map (write_option ?f) ?xs) = Inr items"
    and hdr: "cursor_read compact_size_read raw (Suc 0) = Inr (len, pos)"
      "cursor_read compact_size_read raw (Suc pos) = Inr (of_nat (length ?xs), pos')"
    and d: "drop pos' raw = items @ blake2b (key @ 1 # compact_size_write (of_nat (length ?xs)) @ items)"
    by (rule list_row_header [OF raw [unfolded transparent_list_serde_def] transparent_list_encode_v1_def okx(2)])
  show ?thesis
  proof (cases "?i < length ?xs")
    case True
    from transparent_skip.skip_entries_at [OF okx(1) True items d] obtain start w rest where
      start: "skip_entries skip_opt_transparent_entry ?i raw pos' = Inr start"
      and w: "write_option ?f (?xs ! ?i) = Inr w" and dw: "drop start raw = w @ rest"
      and skip: "skip_opt_transparent_entry raw start = Inr (start + length w)" by blast
    show ?thesis
    proof (cases "?xs ! ?i")
      case None
      with w dw have "drop start raw = 0 # rest" by (simp add: write_option_def)
      then show ?thesis
        using True key hdr start None unat_count [OF okx(2)]
        by (simp add: get_transparent_def Let_def cursor_read_byte)
    next
      case (Some t)
      with w obtain body where body: "?f t = Inr body" and wb: "w = 1 # body" by (auto simp: write_option_Some)
      then have "body \<noteq> []" by (auto simp: transparent_serde_def serialize_v1 bindE_eq_Inr)
      moreover have "drop (Suc start) raw = body @ rest" using drop_step [of start raw "[1]"] dw wb by simp
      ultimately have "slice raw (Suc start) (start + length w) = Inr body"
        using slice_mid [of "Suc start" raw body rest] wb by simp
      moreover have "transparent_ok t" using okx(1) True Some by (auto simp: list_all_length)
      then have "from_bytes transparent_serde body = Inr t"
        using from_serialized_v1 [OF transparent_codec] body by (simp add: transparent_serde_def)
      ultimately show ?thesis
        using True key hdr start skip Some dw wb unat_count [OF okx(2)]
        by (simp add: get_transparent_def Let_def cursor_read_byte)
    qed
  next
    case False
    then show ?thesis using key hdr unat_count [OF okx(2)] by (simp add: get_transparent_def Let_def)
  qed
qed

section \<open>The shielded lookups\<close>

context entry_skip
begin

text \<open>
  What a pool lookup does on a row: an absent entry is found absent, and for a present one the
  decoder is handed the entry with its presence byte still in front.
\<close>

lemma pool_row:
  assumes pool: "pool_skip_entry pool = skip_entry" and enc: "\<And>t. enc t = serialize_with_version (serde_v1 e1 d1) t 1"
    and row: "row_at blake2b (serde_v1 lenc ldec) txn (pool_table pool) (tl_block_height loc) l"
    and vec: "lenc l = write_vec (write_option enc) xs" and ok: "vec_ok (pred_option ok) xs"
  shows "(unat (tl_tx_index loc) \<ge> length xs \<longrightarrow>
      get_pool_tx S (Inr txn) pool loc = Inl (Custom (''tx_index out of range in '' @ pool_string pool @ '' tx list'')))
    \<and> (unat (tl_tx_index loc) < length xs \<longrightarrow> xs ! unat (tl_tx_index loc) = None \<longrightarrow>
      get_pool_tx S (Inr txn) pool loc = Inr None)
    \<and> (\<forall>t. unat (tl_tx_index loc) < length xs \<longrightarrow> xs ! unat (tl_tx_index loc) = Some t \<longrightarrow>
      (\<exists>body. enc t = Inr body \<and> get_pool_tx S (Inr txn) pool loc =
        bindE (map_err IoError (from_bytes S (1 # body))) (\<lambda>tx. Inr (Some tx))))"
proof -
  let ?i = "unat (tl_tx_index loc)"
  from ok have okx: "list_all (pred_option ok) xs" "length xs \<le> unat MAX_COMPACT_SIZE"
    by (simp_all add: vec_ok_def)
  from row obtain key raw where key: "db_height_try_from (tl_block_height loc) = Inr (DbHeight (tl_block_height loc))"
    "to_bytes height_serde (DbHeight (tl_block_height loc)) = Inr key" "txn_get txn (pool_table pool) key = Inr raw"
    and raw: "stored_row blake2b (serde_v1 lenc ldec) key l raw" unfolding row_at_def by blast
  obtain items pos pos' len where items: "writes (map (write_option enc) xs) = Inr items"
    and hdr: "cursor_read compact_size_read raw (Suc 0) = Inr (len, pos)"
      "cursor_read compact_size_read raw (Suc pos) = Inr (of_nat (length xs), pos')"
    and d: "drop pos' raw = items @ blake2b (key @ 1 # compact_size_write (of_nat (length xs)) @ items)"
    by (rule list_row_header [OF raw vec okx(2)])
  note found = get_pool_tx_def key hdr unat_count [OF okx(2)] pool Let_def
  have "get_pool_tx S (Inr txn) pool loc = Inr None" if "?i < length xs" and "xs ! ?i = None"
    using skip_entries_at [OF okx(1) that(1) items d] that by (auto simp: found write_option_def cursor_read_byte)
  moreover have "\<exists>body. enc t = Inr body \<and> get_pool_tx S (Inr txn) pool loc =
      bindE (map_err IoError (from_bytes S (1 # body))) (\<lambda>tx. Inr (Some tx))" if i: "?i < length xs" and t: "xs ! ?i = Some t" for t
  proof -
    from skip_entries_at [OF okx(1) i items d] t obtain start body rest where
      s: "skip_entries skip_entry ?i raw pos' = Inr start" "enc t = Inr body" "drop start raw = (1 # body) @ rest"
        "skip_entry raw start = Inr (start + length (1 # body))" by (auto simp: write_option_Some)
    then show ?thesis using i slice_mid [OF s(3)] by (simp add: found cursor_read_byte)
  qed
  moreover have "get_pool_tx S (Inr txn) pool loc = Inl (Custom (''tx_index out of range in '' @ pool_string pool @ '' tx list''))"
    if "?i \<ge> length xs" using that by (simp add: found)
  ultimately show ?thesis by blast
qed

end

text \<open>
  Read from one byte too early, a value balance takes its own tag for its lowest byte: it comes
  out right only when all its eight bytes are ones.
\<close>

lemma misread_value:
  assumes "write_option (\<lambda>v. Inr (write_i64_le v)) (Some v) = Inr w" and "read_i64_le (w @ after) = Inr (v, rest)"
  shows "v = 0x0101010101010101"
proof -
  define bs where "bs = to_le 8 v"
  have len: "length bs = 8" by (simp add: bs_def)
  have w: "w = 1 # bs" using assms(1) by (simp add: write_option_def write_i64_le_def bs_def)
  from assms(2) have v: "v = from_le (1 # take 7 bs)"
    by (simp add: w read_i64_le_def rbind_eq_Inr read_exact_def len split: if_splits)
  have "bs = to_le 8 (from_le (1 # take 7 bs) :: 64 word)" using v by (simp add: bs_def)
  also have "\<dots> = 1 # take 7 bs" by (rule to_le_from_le) (simp_all add: len)
  finally have eq: "bs = 1 # take 7 bs" .
  from len obtain a0 a1 a2 a3 a4 a5 a6 a7 where a: "bs = [a0, a1, a2, a3, a4, a5, a6, a7]"
    by (auto simp: numeral_eq_Suc length_Suc_conv)
  with eq have "bs = [1, 1, 1, 1, 1, 1, 1, 1]" by simp
  then have "v = from_le [1, 1, 1, 1, 1, 1, 1, 1]" using v by simp
  then show ?thesis by simp
qed

lemma sapling_misread:
  assumes body: "serialize_with_version sapling_serde t 1 = Inr body" and "from_bytes sapling_serde (1 # body) = Inr t"
  shows "sct_value t = Some 0x0101010101010101"
proof -
  from body obtain w after where b: "body = 1 # w @ after"
    and w: "write_option (\<lambda>v. Inr (write_i64_le v)) (sct_value t) = Inr w"
    by (auto simp: sapling_serde_def serialize_v1 sapling_encode_v1_def bindE_eq_Inr)
  from assms(2) obtain v rest where v: "read_i64_le (w @ after) = Inr (v, rest)" and t: "sct_value t = Some v"
    by (auto simp: b sapling_serde_def from_bytes_v1 [unfolded V1_def] sapling_decode_v1_def read_option_def
        bindE_eq_Inr rbind_eq_Inr read_exact_def)
  from misread_value [OF w [unfolded t] v] t show ?thesis by simp
qed

lemma orchard_misread:
  assumes body: "serialize_with_version orchard_serde t 1 = Inr body" and "from_bytes orchard_serde (1 # body) = Inr t"
  shows "oct_value t = Some 0x0101010101010101"
proof -
  from body obtain w after where b: "body = 1 # w @ after"
    and w: "write_option (\<lambda>v. Inr (write_i64_le v)) (oct_value t) = Inr w"
    by (auto simp: orchard_serde_def serialize_v1 orchard_encode_v1_def bindE_eq_Inr)
  from assms(2) obtain v rest where v: "read_i64_le (w @ after) = Inr (v, rest)" and t: "oct_value t = Some v"
    by (auto simp: b orchard_serde_def from_bytes_v1 [unfolded V1_def] orchard_decode_v1_def read_option_def
        bindE_eq_Inr rbind_eq_Inr read_exact_def)
  from misread_value [OF w [unfolded t] v] t show ?thesis by simp
qed

lemma sapling_lookup:
  assumes "row_at blake2b sapling_list_serde txn TbSapling (tl_block_height loc) l" and "sapling_list_ok l"
  shows "(unat (tl_tx_index loc) \<ge> length (stl_tx l) \<longrightarrow> isl (get_sapling (Inr txn) loc))
    \<and> (unat (tl_tx_index loc) < length (stl_tx l) \<longrightarrow> stl_tx l ! unat (tl_tx_index loc) = None \<longrightarrow>
         get_sapling (Inr txn) loc = Inr None)
    \<and> (\<forall>t. unat (tl_tx_index loc) < length (stl_tx l) \<longrightarrow> stl_tx l ! unat (tl_tx_index loc) = Some t \<longrightarrow>
         sct_value t \<noteq> Some 0x0101010101010101 \<longrightarrow> get_sapling (Inr txn) loc \<noteq> Inr (Some t))"
  using sapling_skip.pool_row [of Sapling sapling_encode_v1 sapling_decode_v1 blake2b sapling_list_encode_v1
      sapling_list_decode_v1 txn loc l "stl_tx l" sapling_serde] assms sapling_misread
  by (fastforce simp: pool_skip_entry_def pool_table_def sapling_serde_def [symmetric] sapling_list_serde_def [symmetric]
      sapling_list_encode_v1_def sapling_list_ok_def get_sapling_def result_simps)

lemma orchard_lookup:
  assumes "pool = Orchard \<or> pool = Ironwood" and "orchard_list_ok l"
    and "row_at blake2b orchard_list_serde txn (pool_table pool) (tl_block_height loc) l"
  shows "(unat (tl_tx_index loc) \<ge> length (otl_tx l) \<longrightarrow> isl (get_pool_tx orchard_serde (Inr txn) pool loc))
    \<and> (unat (tl_tx_index loc) < length (otl_tx l) \<longrightarrow> otl_tx l ! unat (tl_tx_index loc) = None \<longrightarrow>
         get_pool_tx orchard_serde (Inr txn) pool loc = Inr None)
    \<and> (\<forall>t. unat (tl_tx_index loc) < length (otl_tx l) \<longrightarrow> otl_tx l ! unat (tl_tx_index loc) = Some t \<longrightarrow>
         oct_value t \<noteq> Some 0x0101010101010101 \<longrightarrow> get_pool_tx orchard_serde (Inr txn) pool loc \<noteq> Inr (Some t))"
proof -
  from assms(1) have "pool_skip_entry pool = skip_opt_orchard_entry" by (auto simp: pool_skip_entry_def)
  then show ?thesis
    using orchard_skip.pool_row [of pool orchard_encode_v1 orchard_decode_v1 blake2b orchard_list_encode_v1
      orchard_list_decode_v1 txn loc l "otl_tx l" orchard_serde] assms(2,3) orchard_misread
    by (fastforce simp: orchard_serde_def [symmetric] orchard_list_serde_def [symmetric]
        orchard_list_encode_v1_def orchard_list_ok_def result_simps)
qed

section \<open>The output lookup\<close>

lemma tx_in_item: "tx_in_ok i \<Longrightarrow> serialize_with_version tx_in_serde i 1 = Inr w \<Longrightarrow> length w = 37"
  using tx_in.versioned_len_written [of 1 37 i w]
  by (simp add: versioned_len_def VERSION_TAG_LEN_def encoded_lens to_bytes_with_version_def)

lemma tx_out_item:
  assumes "tx_out_ok out" and "serialize_with_version tx_out_serde out 1 = Inr w"
  shows "length w = 30" and "from_bytes tx_out_serde w = Inr out"
  using tx_out.versioned_len_written [of 1 30 out w] from_serialized_v1 [OF tx_out_codec] assms
  by (simp_all add: versioned_len_def VERSION_TAG_LEN_def encoded_lens to_bytes_with_version_def tx_out_serde_def)

lemma latest_lens:
  "latest_versioned_len tx_in_serde tx_in_encoded_len = Inr 37"
  "latest_versioned_len tx_out_serde tx_out_encoded_len = Inr 30"
  by (simp_all add: latest_versioned_len_def versioned_len_def VERSION_TAG_LEN_def encoded_lens)

lemma skip_tx_ins_back:
  "list_all tx_in_ok ins \<Longrightarrow> writes (map (\<lambda>i. serialize_with_version tx_in_serde i 1) ins) = Inr w \<Longrightarrow>
     skip_tx_ins (length ins) (w @ rest) = Inr (Inr rest)"
  by (induction ins arbitrary: w) (auto simp: latest_lens bindE_eq_Inr dest!: tx_in_item)

lemma scan_tx_outs_other:
  "list_all tx_out_ok outs \<Longrightarrow> writes (map (\<lambda>o1. serialize_with_version tx_out_serde o1 1) outs) = Inr w \<Longrightarrow>
     scan_tx_outs False j k (length outs) (w @ rest) = Inr (Inr rest)"
  by (induction outs arbitrary: w k) (auto simp: latest_lens bindE_eq_Inr dest!: tx_out_item(1))

lemma scan_tx_outs_target:
  assumes "list_all tx_out_ok outs" and "writes (map (\<lambda>o1. serialize_with_version tx_out_serde o1 1) outs) = Inr w"
    and "k \<le> j"
  shows "scan_tx_outs True j k (length outs) (w @ rest) =
    Inr (if j - k < length outs then Inl (Some (outs ! (j - k))) else Inr rest)"
  using assms
proof (induction outs arbitrary: w k)
  case (Cons out outs)
  then obtain a b where a: "serialize_with_version tx_out_serde out 1 = Inr a"
    and b: "writes (map (\<lambda>o1. serialize_with_version tx_out_serde o1 1) outs) = Inr b" and w: "w = a @ b"
    by (auto simp: bindE_eq_Inr)
  from tx_out_item [OF _ a] Cons.prems(1) have i: "length a = 30" "from_bytes tx_out_serde a = Inr out" by simp_all
  show ?case
  proof (cases "k = j")
    case True
    then show ?thesis using i w by (simp add: latest_lens)
  next
    case False
    with Cons.prems(3) have "Suc k \<le> j" and j: "j - k = Suc (j - Suc k)" by auto
    with Cons.IH [OF _ b] Cons.prems(1) i w False show ?thesis by (simp add: latest_lens)
  qed
qed simp

text \<open>One present entry of the scan, whichever transaction is looked for.\<close>

lemma transparent_entry:
  assumes "transparent_ok t" and "serialize_with_version transparent_serde t 1 = Inr body"
  obtains ins outs where "body = 1 # compact_size_write (of_nat (length (tct_vin t))) @ ins
      @ compact_size_write (of_nat (length (tct_vout t))) @ outs"
    and "writes (map (\<lambda>i. serialize_with_version tx_in_serde i 1) (tct_vin t)) = Inr ins"
    and "writes (map (\<lambda>o1. serialize_with_version tx_out_serde o1 1) (tct_vout t)) = Inr outs"
  using assms
  by (auto simp: transparent_serde_def serialize_v1 transparent_encode_v1_def write_vec_eq_Inr bindE_eq_Inr)

lemma scan_entries_present:
  assumes ok: "transparent_ok t" and body: "serialize_with_version transparent_serde t 1 = Inr body"
  shows "scan_entries ti j i (Suc n) ((1 # body) @ rest) =
    (if i = ti \<and> j < length (tct_vout t) then Inr (Some (tct_vout t ! j)) else scan_entries ti j (i + 1) n rest)"
proof -
  from ok have v: "list_all tx_in_ok (tct_vin t)" "length (tct_vin t) \<le> unat MAX_COMPACT_SIZE"
    "list_all tx_out_ok (tct_vout t)" "length (tct_vout t) \<le> unat MAX_COMPACT_SIZE"
    by (simp_all add: transparent_ok_def vec_ok_def)
  obtain ins outs where b: "body = 1 # compact_size_write (of_nat (length (tct_vin t))) @ ins
      @ compact_size_write (of_nat (length (tct_vout t))) @ outs"
    and ins: "writes (map (\<lambda>i. serialize_with_version tx_in_serde i 1) (tct_vin t)) = Inr ins"
    and outs: "writes (map (\<lambda>o1. serialize_with_version tx_out_serde o1 1) (tct_vout t)) = Inr outs"
    by (rule transparent_entry [OF ok body])
  have counts: "compact_size_read (compact_size_write (of_nat (length (tct_vin t))) @ tail) = Inr (of_nat (length (tct_vin t)), tail)"
    "compact_size_read (compact_size_write (of_nat (length (tct_vout t))) @ tail) = Inr (of_nat (length (tct_vout t)), tail)" for tail
    using reads_count [OF v(2)] reads_count [OF v(4)] by (simp_all add: reads_def)
  show ?thesis
    using skip_tx_ins_back [OF v(1) ins] scan_tx_outs_other [OF v(3) outs] scan_tx_outs_target [OF v(3) outs, of 0]
    by (cases "i = ti") (simp_all add: b counts unat_count v(2,4))
qed

definition output_at :: "transparent_compact_tx option list \<Rightarrow> nat \<Rightarrow> nat \<Rightarrow> tx_out_compact option" where
  "output_at xs i j =
     (if i < length xs then
        (case xs ! i of None \<Rightarrow> None | Some t \<Rightarrow> if j < length (tct_vout t) then Some (tct_vout t ! j) else None)
      else None)"

lemma scan_entries_finds:
  assumes "list_all (pred_option transparent_ok) xs"
    and "writes (map (write_option (\<lambda>t. serialize_with_version transparent_serde t 1)) xs) = Inr items"
  shows "scan_entries ti j i (length xs) (items @ rest) = Inr (if i \<le> ti then output_at xs (ti - i) j else None)"
  using assms
proof (induction xs arbitrary: items i)
  case (Cons x xs)
  then obtain w more where w: "write_option (\<lambda>t. serialize_with_version transparent_serde t 1) x = Inr w"
    and m: "writes (map (write_option (\<lambda>t. serialize_with_version transparent_serde t 1)) xs) = Inr more"
    and items: "items = w @ more" by (auto simp: bindE_eq_Inr)
  note IH = Cons.IH [OF _ m, of "i + 1"]
  show ?case
  proof (cases x)
    case None
    then show ?thesis using IH Cons.prems(1) w items
      by (auto simp: write_option_def output_at_def nth_Cons' Suc_diff_Suc)
  next
    case (Some t)
    then obtain body where body: "serialize_with_version transparent_serde t 1 = Inr body" "w = 1 # body"
      using w by (auto simp: write_option_Some)
    have "transparent_ok t" using Cons.prems(1) Some by simp
    from scan_entries_present [OF this body(1), of ti j i "length xs" "more @ rest"] IH Cons.prems(1) Some body(2) items
    show ?thesis by (auto simp: output_at_def nth_Cons' Suc_diff_Suc)
  qed
qed (simp add: output_at_def)

lemma writes_member_length:
  "writes (map f xs) = Inr items \<Longrightarrow> x \<in> set xs \<Longrightarrow> f x = Inr w \<Longrightarrow> length w \<le> length items"
  by (induction xs arbitrary: items) (auto simp: bindE_eq_Inr trans_le_add1 trans_le_add2)

text \<open>A row with an output is longer than the guard at the start of the scan asks for.\<close>

lemma output_at_length:
  assumes "list_all (pred_option transparent_ok) xs"
    and "writes (map (write_option (\<lambda>t. serialize_with_version transparent_serde t 1)) xs) = Inr items"
    and "output_at xs i j = Some out"
  shows "30 \<le> length items"
proof -
  from assms(3) obtain t where i: "i < length xs" "xs ! i = Some t" and j: "j < length (tct_vout t)"
    by (auto simp: output_at_def split: if_splits option.splits)
  have t: "transparent_ok t" using assms(1) i by (auto simp: list_all_length)
  have mem: "Some t \<in> set xs" using i nth_mem by force
  with assms(2) obtain body where body: "serialize_with_version transparent_serde t 1 = Inr body"
  proof -
    assume *: "\<And>body. serialize_with_version transparent_serde t 1 = Inr body \<Longrightarrow> thesis"
    have "reads (deserialize transparent_serde) (serialize_with_version transparent_serde t 1) t"
      by (rule codec.reads_back [OF transparent_nested t])
    with * show thesis by (auto simp: reads_def)
  qed
  have len: "length (1 # body) \<le> length items"
    by (rule writes_member_length [OF assms(2) mem]) (simp add: write_option_Some body)
  obtain ins outs where b: "body = 1 # compact_size_write (of_nat (length (tct_vin t))) @ ins
      @ compact_size_write (of_nat (length (tct_vout t))) @ outs"
    and outs: "writes (map (\<lambda>o1. serialize_with_version tx_out_serde o1 1) (tct_vout t)) = Inr outs"
    using transparent_entry [OF t body] by metis
  have "list_all tx_out_ok (tct_vout t)" using t by (simp add: transparent_ok_def vec_ok_def)
  from tx_out.writes_items_length [unfolded serde_versions, OF _ this outs, of 29]
  have "length outs = length (tct_vout t) * 30" by (simp add: encoded_lens)
  with j b len show ?thesis by (cases "length (tct_vout t)") auto
qed

lemma compact_size_write_nonempty: "0 < length (compact_size_write n)"
  by (simp add: compact_size_write_def)

lemma find_txout_finds:
  assumes row: "stored_row blake2b transparent_list_serde key l raw" and ok: "transparent_list_ok l"
    and digest: "\<And>x. length (blake2b x) = 32"
  shows "find_txout_in_stored_transparent_tx_list raw i j = Inr (output_at (ttl_tx l) i j)"
proof -
  let ?xs = "ttl_tx l" and ?f = "write_option (\<lambda>t. serialize_with_version transparent_serde t 1)"
  from ok have okx: "list_all (pred_option transparent_ok) ?xs" "length ?xs \<le> unat MAX_COMPACT_SIZE"
    by (simp_all add: transparent_list_ok_def vec_ok_def)
  obtain body where ser: "serialize transparent_list_serde l = Inr body"
    and fits: "length body \<le> unat MAX_COMPACT_SIZE"
    and raw: "raw = 1 # compact_size_write (of_nat (length body)) @ body @ blake2b (key @ body)"
    by (rule stored_row_layout [OF row])
  from ser obtain items where items: "writes (map ?f ?xs) = Inr items"
    and body: "body = 1 # compact_size_write (of_nat (length ?xs)) @ items"
    by (auto simp: serialize_def serialize_with_version_def encode_body_def transparent_list_serde_def serde_v1_def
        transparent_list_encode_v1_def V1_def write_vec_eq_Inr bindE_eq_Inr)
  show ?thesis
  proof (cases "length raw < 41")
    case True
    have "\<not> 30 \<le> length items" using True raw body digest by simp
    then have "output_at ?xs i j = None" using output_at_length [OF okx(1) items] by (cases "output_at ?xs i j") auto
    then show ?thesis using True by (simp add: find_txout_in_stored_transparent_tx_list_def VERSION_TAG_LEN_def)
  next
    case False
    have "compact_size_read (drop 1 raw) = Inr (of_nat (length body), body @ blake2b (key @ body))"
      "compact_size_read (drop 1 body @ blake2b (key @ body)) = Inr (of_nat (length ?xs), items @ blake2b (key @ body))"
      using reads_count [OF fits] reads_count [OF okx(2)] raw body by (simp_all add: reads_def)
    then show ?thesis
      using False scan_entries_finds [OF okx(1) items, of i j 0] unat_count [OF fits] unat_count [OF okx(2)] digest body
      by (simp add: find_txout_in_stored_transparent_tx_list_def VERSION_TAG_LEN_def)
  qed
qed

section \<open>A small table\<close>

definition zero_digest :: "u8 list \<Rightarrow> u8 list" where "zero_digest x = replicate 32 0"

definition example_txids :: txid_list where "example_txids = TxidList [DbTransactionHash (replicate 32 7)]"
definition example_transparent :: transparent_tx_list where
  "example_transparent = TransparentTxList [Some \<lparr>tct_vin = [],
     tct_vout = [\<lparr>toc_value = 5, toc_script_hash = replicate 20 3, toc_script_type = 0\<rparr>]\<rparr>]"
definition example_sapling :: sapling_tx_list where
  "example_sapling = SaplingTxList [Some \<lparr>sct_value = None, sct_spends = [], sct_outputs = []\<rparr>]"
definition example_orchard :: orchard_tx_list where
  "example_orchard = OrchardTxList [Some \<lparr>oct_value = None, oct_actions = []\<rparr>]"

definition example_txn :: lmdb_txn where
  "example_txn = \<lparr>txn_get = (\<lambda>table key.
       if key \<noteq> [1, 0, 0, 0, 0] then Inl NotFound
       else (case table of
           TbTxids \<Rightarrow> Inr (1 # 35 # [1, 1, 1] @ replicate 32 7 @ replicate 32 0)
         | TbTransparent \<Rightarrow> Inr (1 # 36 # [1, 1, 1, 1, 0, 1, 1, 5, 0, 0, 0, 0, 0, 0, 0] @ replicate 20 3 @ [0] @ replicate 32 0)
         | TbSapling \<Rightarrow> Inr (1 # 7 # [1, 1, 1, 1, 0, 0, 0] @ replicate 32 0)
         | TbOrchard \<Rightarrow> Inr (1 # 6 # [1, 1, 1, 1, 0, 0] @ replicate 32 0)
         | TbIronwood \<Rightarrow> Inr (1 # 6 # [1, 1, 1, 1, 0, 0] @ replicate 32 0)
         | _ \<Rightarrow> Inl NotFound)),
     txn_first = (\<lambda>_. Inl NotFound), txn_set_range = (\<lambda>_ _. Inl NotFound), txn_next = (\<lambda>_ _. Inl NotFound), txn_last = (\<lambda>_. Inl NotFound)\<rparr>"

definition example_location :: tx_location where "example_location = \<lparr>tl_block_height = 0, tl_tx_index = 0\<rparr>"

lemma row_at_0:
  assumes "serialize S item = Inr body" and "length body \<le> 252"
    and "txn_get txn table [1, 0, 0, 0, 0] = Inr (1 # of_nat (length body) # body @ blake2b ([1, 0, 0, 0, 0] @ body))"
  shows "row_at blake2b S txn table 0 item"
proof -
  have n: "(of_nat (length body) :: u64) < 253" using assms(2) by (simp add: word_less_nat_alt unat_of_nat)
  have "ucast (of_nat (length body) :: u64) = (of_nat (length body) :: u8)"
    using assms(2) by (simp add: word_unat_eq_iff unat_ucast_down unat_of_nat)
  with n have "compact_size_write (of_nat (length body)) = [of_nat (length body)]" by (simp add: compact_size_write_def)
  then have "stored_row blake2b S [1, 0, 0, 0, 0] item (1 # of_nat (length body) # body @ blake2b ([1, 0, 0, 0, 0] @ body))"
    using assms(1,2) by (simp add: stored_row_def var_new_def var_serde_def to_bytes_def to_bytes_with_version_def
        serialize_with_version_def encode_body_def serde_v1_def var_encode_v1_def V1_def write_fixed_le_def MAX_COMPACT_SIZE_def)
  moreover have "to_bytes height_serde (DbHeight 0) = Inr [1, 0, 0, 0, 0]"
    by (simp add: to_bytes_def to_bytes_with_version_def serialize_with_version_def encode_body_def height_serde_def
        serde_v1_def height_encode_v1_def write_u32_be_def to_be_def V1_def numeral_eq_Suc)
  moreover have "db_height_try_from 0 = Inr (DbHeight 0)" by (simp add: db_height_try_from_def)
  ultimately show ?thesis using assms(3) unfolding row_at_def by blast
qed

lemmas example_encoding = serialize_def serialize_with_version_def encode_body_def serde_v1_def V1_def
  write_vec_def write_option_def compact_size_write_def write_fixed_le_def write_u64_le_def write_u8_def

lemma example_value: "to_le 8 (5 :: u64) = [5, 0, 0, 0, 0, 0, 0, 0]"
  by code_simp

lemma example_txids_row: "row_at zero_digest txid_list_serde example_txn TbTxids 0 example_txids"
  by (rule row_at_0 [where body = "[1, 1, 1] @ replicate 32 7"])
    (simp_all add: example_encoding example_txids_def txid_list_serde_def txid_list_encode_v1_def
      transaction_hash_serde_def transaction_hash_encode_v1_def example_txn_def zero_digest_def)

lemma example_transparent_row: "row_at zero_digest transparent_list_serde example_txn TbTransparent 0 example_transparent"
  by (rule row_at_0 [where body = "[1, 1, 1, 1, 0, 1, 1, 5, 0, 0, 0, 0, 0, 0, 0] @ replicate 20 3 @ [0]"])
    (simp_all add: example_encoding example_transparent_def transparent_list_serde_def transparent_list_encode_v1_def
      transparent_serde_def transparent_encode_v1_def tx_out_serde_def tx_out_encode_v1_def example_txn_def
      zero_digest_def example_value)

lemma example_sapling_row: "row_at zero_digest sapling_list_serde example_txn TbSapling 0 example_sapling"
  by (rule row_at_0 [where body = "[1, 1, 1, 1, 0, 0, 0]"])
    (simp_all add: example_encoding example_sapling_def sapling_list_serde_def sapling_list_encode_v1_def
      sapling_serde_def sapling_encode_v1_def example_txn_def zero_digest_def)

lemma example_orchard_row:
  "table = TbOrchard \<or> table = TbIronwood \<Longrightarrow>
     row_at zero_digest orchard_list_serde example_txn table 0 example_orchard"
  by (rule row_at_0 [where body = "[1, 1, 1, 1, 0, 0]"])
    (auto simp: example_encoding example_orchard_def orchard_list_serde_def orchard_list_encode_v1_def
      orchard_serde_def orchard_encode_v1_def example_txn_def zero_digest_def)

section \<open>The properties\<close>

text \<open>C12. Point lookups agree with decoding the row. On a table whose rows the store wrote, the
  identifier and the transparent transaction at a location, found by walking the row's bytes,
  are the ones at that index of the decoded row, and an index behind the end is refused; and
  the scan for one output of one transaction, which skips over everything else at fixed
  widths, finds exactly that output of the decoded row, or that there is none.
\<close>

theorem row_lookups_agree:
  assumes digest: "\<And>x. length (blake2b x) = 32"
    and ids: "row_at blake2b txid_list_serde txn TbTxids (tl_block_height loc) ids" "txid_list_ok ids"
    and txs: "row_at blake2b transparent_list_serde txn TbTransparent (tl_block_height loc) l" "transparent_list_ok l"
  shows "get_txid (Inr txn) loc =
      (if unat (tl_tx_index loc) < length (txl_txids ids) then Inr (txl_txids ids ! unat (tl_tx_index loc))
       else Inl (DataUnavailable ''tx_index out of range in txid list''))
    \<and> get_transparent (Inr txn) loc =
      (if unat (tl_tx_index loc) < length (ttl_tx l) then Inr (ttl_tx l ! unat (tl_tx_index loc))
       else Inl (Custom ''tx_index out of range in transparent tx data''))
    \<and> (\<exists>key raw. to_bytes height_serde (DbHeight (tl_block_height loc)) = Inr key
         \<and> txn_get txn TbTransparent key = Inr raw
         \<and> (\<forall>i j. find_txout_in_stored_transparent_tx_list raw i j = Inr (output_at (ttl_tx l) i j)))"
proof (intro conjI)
  show "get_txid (Inr txn) loc =
      (if unat (tl_tx_index loc) < length (txl_txids ids) then Inr (txl_txids ids ! unat (tl_tx_index loc))
       else Inl (DataUnavailable ''tx_index out of range in txid list''))"
    by (rule get_txid_finds [OF ids])
  show "get_transparent (Inr txn) loc =
      (if unat (tl_tx_index loc) < length (ttl_tx l) then Inr (ttl_tx l ! unat (tl_tx_index loc))
       else Inl (Custom ''tx_index out of range in transparent tx data''))"
    by (rule get_transparent_finds [OF txs])
  show "\<exists>key raw. to_bytes height_serde (DbHeight (tl_block_height loc)) = Inr key
      \<and> txn_get txn TbTransparent key = Inr raw
      \<and> (\<forall>i j. find_txout_in_stored_transparent_tx_list raw i j = Inr (output_at (ttl_tx l) i j))"
    using txs find_txout_finds [where blake2b = blake2b, OF _ _ digest] unfolding row_at_def by blast
qed

theorem row_lookups_agree_witness:
  "get_txid (Inr example_txn) example_location = Inr (DbTransactionHash (replicate 32 7))
   \<and> get_transparent (Inr example_txn) example_location = Inr (ttl_tx example_transparent ! 0)"
proof -
  have "txid_list_ok example_txids" "transparent_list_ok example_transparent"
    by (simp_all add: example_txids_def txid_list_ok_def transaction_hash_ok_def example_transparent_def
        transparent_list_ok_def transparent_ok_def tx_out_ok_def script_type_try_from_def vec_ok_def MAX_COMPACT_SIZE_def)
  with row_lookups_agree [of zero_digest example_txn example_location example_txids example_transparent]
    example_txids_row example_transparent_row
  show ?thesis by (simp add: zero_digest_def example_location_def example_txids_def example_transparent_def)
qed

text \<open>C22. The shielded point lookups. On a row the store wrote, an index behind the end is refused
  and an absent transaction is found absent; but a present one is never returned, in any of
  the three pools, unless its value balance is the number with eight one bytes, which is
  above the supply of coins: the lookup hands the decoder the entry together with its presence
  byte, so every field is read one byte too early.
\<close>

theorem shielded_lookups_misread:
  assumes "row_at blake2b sapling_list_serde txn TbSapling (tl_block_height loc) srow" "sapling_list_ok srow"
    and "row_at blake2b orchard_list_serde txn TbOrchard (tl_block_height loc) orow" "orchard_list_ok orow"
    and "row_at blake2b orchard_list_serde txn TbIronwood (tl_block_height loc) irow" "orchard_list_ok irow"
    and i: "i = unat (tl_tx_index loc)"
  shows "(i \<ge> length (stl_tx srow) \<longrightarrow> isl (get_sapling (Inr txn) loc))
    \<and> (i < length (stl_tx srow) \<longrightarrow> stl_tx srow ! i = None \<longrightarrow> get_sapling (Inr txn) loc = Inr None)
    \<and> (\<forall>t. i < length (stl_tx srow) \<longrightarrow> stl_tx srow ! i = Some t \<longrightarrow> sct_value t \<noteq> Some 0x0101010101010101 \<longrightarrow>
         get_sapling (Inr txn) loc \<noteq> Inr (Some t))
    \<and> (i \<ge> length (otl_tx orow) \<longrightarrow> isl (get_orchard (Inr txn) loc))
    \<and> (i < length (otl_tx orow) \<longrightarrow> otl_tx orow ! i = None \<longrightarrow> get_orchard (Inr txn) loc = Inr None)
    \<and> (\<forall>t. i < length (otl_tx orow) \<longrightarrow> otl_tx orow ! i = Some t \<longrightarrow> oct_value t \<noteq> Some 0x0101010101010101 \<longrightarrow>
         get_orchard (Inr txn) loc \<noteq> Inr (Some t))
    \<and> (i \<ge> length (otl_tx irow) \<longrightarrow> isl (get_ironwood (Inr txn) loc))
    \<and> (i < length (otl_tx irow) \<longrightarrow> otl_tx irow ! i = None \<longrightarrow> get_ironwood (Inr txn) loc = Inr None)
    \<and> (\<forall>t. i < length (otl_tx irow) \<longrightarrow> otl_tx irow ! i = Some t \<longrightarrow> oct_value t \<noteq> Some 0x0101010101010101 \<longrightarrow>
         get_ironwood (Inr txn) loc \<noteq> Inr (Some t))"
  using sapling_lookup [OF assms(1,2)] orchard_lookup [of Orchard orow blake2b txn loc]
    orchard_lookup [of Ironwood irow blake2b txn loc] assms(3-6)
  unfolding get_orchard_def get_ironwood_def i by (simp add: pool_table_def)

theorem shielded_lookups_misread_witness:
  "get_sapling (Inr example_txn) example_location \<noteq> Inr (stl_tx example_sapling ! 0)
   \<and> get_orchard (Inr example_txn) example_location \<noteq> Inr (otl_tx example_orchard ! 0)
   \<and> get_ironwood (Inr example_txn) example_location \<noteq> Inr (otl_tx example_orchard ! 0)"
proof -
  have "sapling_list_ok example_sapling" "orchard_list_ok example_orchard"
    by (simp_all add: example_sapling_def sapling_list_ok_def sapling_ok_def example_orchard_def orchard_list_ok_def
        orchard_ok_def vec_ok_def MAX_COMPACT_SIZE_def)
  with shielded_lookups_misread [of zero_digest example_txn example_location example_sapling example_orchard example_orchard 0]
    example_sapling_row example_orchard_row
  show ?thesis by (simp add: example_location_def example_sapling_def example_orchard_def)
qed

end
