(* ===== verification/Zaino_Txout_Update.thy ===== *)
theory Zaino_Txout_Update
  imports Zaino_Txout_Rebuild
begin

text \<open>
  The incremental update of the unspent-output accumulator over a range of blocks, and the
  choice between it and the bulk rebuild, from
  \<^verbatim>\<open>zaino-chain-store-zainodb/src/store/finalised_source/v1/tx_out_set_accumulator.rs\<close>
  (\<^verbatim>\<open>update_tx_out_set_accumulator_for_range\<close> with the lookups behind it, and
  \<^verbatim>\<open>advance_tx_out_set_accumulator_to_tip\<close>).

  The scan of the range fills the collections of the record \<open>range_scan\<close>. A hash set is a list
  without repetitions. The difference of the transaction count is an integer: it counts
  elements of a collection in memory, so its 64 bits are never exhausted.
\<close>

section \<open>Lookups through a transaction\<close>

text \<open>The derived \<^verbatim>\<open>Debug\<close> forms that occur in error texts.\<close>

definition show_bytes :: "u8 list \<Rightarrow> string" where
  "show_bytes bs = ''['' @ concat (case map (\<lambda>b. show_nat (unat b)) bs of [] \<Rightarrow> [] | s # ss \<Rightarrow> s # map (\<lambda>s. '', '' @ s) ss) @ '']''"

definition show_outpoint :: "db_outpoint \<Rightarrow> string" where
  "show_outpoint o1 =
     ''Outpoint { prev_txid: '' @ show_bytes (dop_prev_txid o1) @ '', prev_index: '' @ show_nat (unat (dop_prev_index o1)) @ '' }''"

definition is_outpoint_unspent_in_txn :: "lmdb_txn \<Rightarrow> db_outpoint \<Rightarrow> store_error + bool" where
  "is_outpoint_unspent_in_txn txn o1 =
     bindE (map_err IoError (to_bytes outpoint_serde o1)) (\<lambda>key.
     case txn_get txn TbSpent key of
       Inr _ \<Rightarrow> Inr False
     | Inl NotFound \<Rightarrow> Inr True
     | Inl e \<Rightarrow> Inl (LmdbError e))"

definition find_txid_location_in_txn ::
  "(u8 list \<Rightarrow> u8 list) \<Rightarrow> lmdb_txn \<Rightarrow> db_transaction_hash \<Rightarrow> store_error + tx_location option" where
  "find_txid_location_in_txn blake2b txn txid =
     (let key = dth_bytes txid in
     case txn_get txn TbTxidLocation key of
       Inr bytes \<Rightarrow>
         bindE (map_err (CustomIo ''corrupt txid_location entry: '')
           (from_bytes (fixed_serde tx_location_serde tx_location_encoded_len) bytes)) (\<lambda>entry.
           if fixed_verify blake2b tx_location_serde key entry = Some True
           then Inr (Some (sef_item entry))
           else Inl (Custom ''txid_location entry checksum mismatch''))
     | Inl NotFound \<Rightarrow> Inr None
     | Inl e \<Rightarrow> Inl (LmdbError e))"

definition resolve_prev_output_in_txn ::
  "(u8 list \<Rightarrow> u8 list) \<Rightarrow> lmdb_txn \<Rightarrow> db_outpoint \<Rightarrow> store_error + tx_out_compact option" where
  "resolve_prev_output_in_txn blake2b txn o1 =
     bindE (find_txid_location_in_txn blake2b txn (DbTransactionHash (dop_prev_txid o1))) (\<lambda>found.
     case found of
       None \<Rightarrow> Inr None
     | Some location \<Rightarrow>
         bindE (map_err IoError (to_bytes height_serde (DbHeight (tl_block_height location)))) (\<lambda>height_bytes.
         case txn_get txn TbTransparent height_bytes of
           Inr stored \<Rightarrow> find_txout_in_stored_transparent_tx_list stored (unat (tl_tx_index location)) (unat (dop_prev_index o1))
         | Inl NotFound \<Rightarrow> Inr None
         | Inl e \<Rightarrow> Inl (LmdbError e)))"

definition get_transparent_tx_in_txn ::
  "(u8 list \<Rightarrow> u8 list) \<Rightarrow> lmdb_txn \<Rightarrow> db_transaction_hash \<Rightarrow> store_error + transparent_compact_tx option" where
  "get_transparent_tx_in_txn blake2b txn txid =
     bindE (find_txid_location_in_txn blake2b txn txid) (\<lambda>found.
     case found of
       None \<Rightarrow> Inr None
     | Some location \<Rightarrow>
         bindE (map_err IoError (to_bytes height_serde (DbHeight (tl_block_height location)))) (\<lambda>height_bytes.
         if txn_get txn TbTransparent height_bytes = Inl NotFound then Inr None
         else
           bindE (read_transparent_row blake2b txn height_bytes) (\<lambda>txs.
             let i = unat (tl_tx_index location) in Inr (if i < length txs then txs ! i else None))))"

section \<open>The scan of the range\<close>

record range_scan =
  rs_accumulator :: finalised_accumulator
  rs_txids :: "u8 list list"
  rs_outputs :: "(u8 list, tx_out_compact) hmap"
  rs_created :: "(u8 list, db_outpoint list) hmap"
  rs_spends :: "db_outpoint list"

fun range_outputs ::
  "(u8 list \<Rightarrow> u8 list) \<Rightarrow> u8 list \<Rightarrow> nat \<Rightarrow> tx_out_compact list \<Rightarrow> range_scan \<Rightarrow> store_error + range_scan" where
  "range_outputs blake2b txid out_index [] st = Inr st"
| "range_outputs blake2b txid out_index (output # outputs) st =
     (if is_unspendable_tx_out output then range_outputs blake2b txid (out_index + 1) outputs st
      else
        let o1 = \<lparr>dop_prev_txid = txid, dop_prev_index = of_nat out_index\<rparr> in
        bindE (map_err (\<lambda>e. Custom (ade_message e)) (apply_added_output blake2b o1 output (rs_accumulator st))) (\<lambda>acc.
        bindE (map_err IoError (to_bytes outpoint_serde o1)) (\<lambda>key.
          range_outputs blake2b txid (out_index + 1) outputs (st\<lparr>rs_accumulator := acc,
            rs_outputs := hm_insert key output (rs_outputs st),
            rs_created := hm_insert txid ((case hm_get (rs_created st) txid of None \<Rightarrow> [] | Some os \<Rightarrow> os) @ [o1])
              (rs_created st)\<rparr>))))"

fun range_txs ::
  "(u8 list \<Rightarrow> u8 list) \<Rightarrow> u32 \<Rightarrow> db_transaction_hash list \<Rightarrow> nat \<Rightarrow> transparent_compact_tx option list \<Rightarrow> range_scan \<Rightarrow>
   store_error + range_scan" where
  "range_txs blake2b height txids tx_index [] st = Inr st"
| "range_txs blake2b height txids tx_index (tx_opt # txs) st =
     (if length txids \<le> tx_index
      then Inl (Custom (''txid/transparent length mismatch at height '' @ show_nat (unat height)))
      else
        let txid = dth_bytes (txids ! tx_index); st = st\<lparr>rs_txids := List.insert txid (rs_txids st)\<rparr> in
        case tx_opt of
          None \<Rightarrow> range_txs blake2b height txids (tx_index + 1) txs st
        | Some transparent_tx \<Rightarrow>
            bindE (range_outputs blake2b txid 0 (tct_vout transparent_tx) st) (\<lambda>st.
              range_txs blake2b height txids (tx_index + 1) txs
                (st\<lparr>rs_spends := rs_spends st @ spent_outpoints transparent_tx\<rparr>)))"

text \<open>\<open>n\<close> blocks from \<open>height\<close> on.\<close>

fun range_blocks ::
  "(u8 list \<Rightarrow> u8 list) \<Rightarrow> lmdb_txn \<Rightarrow> nat \<Rightarrow> u32 \<Rightarrow> range_scan \<Rightarrow> store_error + range_scan" where
  "range_blocks blake2b txn 0 height st = Inr st"
| "range_blocks blake2b txn (Suc n) height st =
     bindE (map_err IoError (to_bytes height_serde (DbHeight height))) (\<lambda>height_bytes.
     bindE (read_transparent_row blake2b txn height_bytes) (\<lambda>transparent_tx_list.
     bindE (read_txids_row blake2b txn height_bytes) (\<lambda>txids.
     bindE (range_txs blake2b height txids 0 transparent_tx_list st) (\<lambda>st.
       range_blocks blake2b txn n (height + 1) st))))"

section \<open>The spends of the range\<close>

fun remove_spends ::
  "(u8 list \<Rightarrow> u8 list) \<Rightarrow> lmdb_txn \<Rightarrow> range_scan \<Rightarrow> db_outpoint list \<Rightarrow> finalised_accumulator \<Rightarrow> u8 list list \<Rightarrow>
   store_error + finalised_accumulator \<times> u8 list list" where
  "remove_spends blake2b txn st [] acc prior_spent_txids = Inr (acc, prior_spent_txids)"
| "remove_spends blake2b txn st (o1 # spends) acc prior_spent_txids =
     bindE (map_err IoError (to_bytes outpoint_serde o1)) (\<lambda>outpoint_bytes.
     if dop_prev_txid o1 \<in> set (rs_txids st)
     then (case hm_get (rs_outputs st) outpoint_bytes of
         None \<Rightarrow> remove_spends blake2b txn st spends acc prior_spent_txids
       | Some output \<Rightarrow>
           bindE (map_err (\<lambda>e. Custom (ade_message e)) (apply_removed_output blake2b o1 output acc)) (\<lambda>acc.
             remove_spends blake2b txn st spends acc prior_spent_txids))
     else
       bindE (resolve_prev_output_in_txn blake2b txn o1) (\<lambda>found.
       case found of
         None \<Rightarrow> Inl (Custom (''incremental accumulator update: previous output '' @ show_outpoint o1 @ '' not found''))
       | Some output \<Rightarrow>
           if is_unspendable_tx_out output then remove_spends blake2b txn st spends acc prior_spent_txids
           else
             bindE (map_err (\<lambda>e. Custom (ade_message e)) (apply_removed_output blake2b o1 output acc)) (\<lambda>acc.
               remove_spends blake2b txn st spends acc (List.insert (dop_prev_txid o1) prior_spent_txids))))"

section \<open>The count of transactions\<close>

fun any_unspent :: "lmdb_txn \<Rightarrow> db_outpoint list \<Rightarrow> store_error + bool" where
  "any_unspent txn [] = Inr False"
| "any_unspent txn (o1 # os) =
     bindE (is_outpoint_unspent_in_txn txn o1) (\<lambda>unspent. if unspent then Inr True else any_unspent txn os)"

fun count_entering :: "lmdb_txn \<Rightarrow> db_outpoint list list \<Rightarrow> int \<Rightarrow> store_error + int" where
  "count_entering txn [] transactions_delta = Inr transactions_delta"
| "count_entering txn (outpoints # rest) transactions_delta =
     bindE (any_unspent txn outpoints) (\<lambda>has_unspent.
       count_entering txn rest (if has_unspent then transactions_delta + 1 else transactions_delta))"

fun all_spent :: "lmdb_txn \<Rightarrow> u8 list \<Rightarrow> nat \<Rightarrow> tx_out_compact list \<Rightarrow> store_error + bool" where
  "all_spent txn prev_txid out_index [] = Inr True"
| "all_spent txn prev_txid out_index (output # outputs) =
     (if is_unspendable_tx_out output then all_spent txn prev_txid (out_index + 1) outputs
      else
        bindE (is_outpoint_unspent_in_txn txn \<lparr>dop_prev_txid = prev_txid, dop_prev_index = of_nat out_index\<rparr>) (\<lambda>unspent.
          if unspent then Inr False else all_spent txn prev_txid (out_index + 1) outputs))"

fun count_leaving :: "(u8 list \<Rightarrow> u8 list) \<Rightarrow> lmdb_txn \<Rightarrow> u8 list list \<Rightarrow> int \<Rightarrow> store_error + int" where
  "count_leaving blake2b txn [] transactions_delta = Inr transactions_delta"
| "count_leaving blake2b txn (prev_txid # rest) transactions_delta =
     bindE (get_transparent_tx_in_txn blake2b txn (DbTransactionHash prev_txid)) (\<lambda>found.
     case found of
       None \<Rightarrow> Inl (Custom (''incremental accumulator update: spent transaction '' @ show_bytes prev_txid @ '' missing''))
     | Some prev_tx \<Rightarrow>
         bindE (all_spent txn prev_txid 0 (tct_vout prev_tx)) (\<lambda>all.
           count_leaving blake2b txn rest (if all then transactions_delta - 1 else transactions_delta)))"

definition apply_transactions_delta :: "u64 \<Rightarrow> int \<Rightarrow> u64 option" where
  "apply_transactions_delta transactions transactions_delta =
     (let counted = int (unat transactions); result = counted + transactions_delta in
      if counted < 2 ^ 63 \<and> - (2 ^ 63) \<le> result \<and> result < 2 ^ 63 \<and> 0 \<le> result then Some (of_int result) else None)"

section \<open>The update\<close>

definition load_accumulator ::
  "(u8 list \<Rightarrow> u8 list) \<Rightarrow> lmdb_txn \<Rightarrow> store_error + finalised_accumulator" where
  "load_accumulator blake2b txn =
     bindE (case txn_get txn TbTxOutSetInfoAccumulator TX_OUT_SET_INFO_ACCUMULATOR_KEY of
         Inr val \<Rightarrow> Inr val
       | Inl NotFound \<Rightarrow> Inl (Custom ''txout-set accumulator missing during incremental update'')
       | Inl e \<Rightarrow> Inl (LmdbError e)) (\<lambda>raw.
     bindE (map_err (CustomIo ''txout-set accumulator decode error: '')
       (from_bytes (fixed_serde accumulator_serde accumulator_encoded_len) raw)) (\<lambda>entry.
       if fixed_verify blake2b accumulator_serde TX_OUT_SET_INFO_ACCUMULATOR_KEY entry = Some True
       then Inr (sef_item entry)
       else Inl (Custom ''txout-set accumulator checksum mismatch'')))"

definition update_tx_out_set_accumulator_for_range ::
  "(u8 list \<Rightarrow> u8 list) \<Rightarrow> lmdb_error + lmdb_txn \<Rightarrow> db_height \<Rightarrow> db_height \<Rightarrow> store_error + put list" where
  "update_tx_out_set_accumulator_for_range blake2b begin_ro_txn built tip =
     bindE (map_err LmdbError begin_ro_txn) (\<lambda>txn.
     bindE (load_accumulator blake2b txn) (\<lambda>accumulator.
     bindE (range_blocks blake2b txn (unat (dbh_u32 tip) - unat (dbh_u32 built)) (dbh_u32 built + 1)
       \<lparr>rs_accumulator = accumulator, rs_txids = [], rs_outputs = [], rs_created = [], rs_spends = []\<rparr>) (\<lambda>st.
     bindE (remove_spends blake2b txn st (rs_spends st) (rs_accumulator st) []) (\<lambda>(accumulator, prior_spent_txids).
     bindE (count_entering txn (hm_values (rs_created st)) 0) (\<lambda>transactions_delta.
     bindE (count_leaving blake2b txn prior_spent_txids transactions_delta) (\<lambda>transactions_delta.
     bindE (ok_or (apply_transactions_delta (fta_transactions accumulator) transactions_delta)
       (Custom ''txout-set accumulator transactions delta under/overflow'')) (\<lambda>transactions.
     bindE (put_tx_out_set_accumulator blake2b (accumulator\<lparr>fta_transactions := transactions\<rparr>)) (\<lambda>row.
     bindE (put_tx_out_set_accumulator_watermark blake2b tip) (\<lambda>watermark.
       Inr [row, watermark])))))))))"

section \<open>Bringing the accumulator to the tip\<close>

definition ACCUMULATOR_INCREMENTAL_MAX_GAP :: u32 where "ACCUMULATOR_INCREMENTAL_MAX_GAP = 1000"

definition advance_tx_out_set_accumulator_to_tip ::
  "(u8 list \<Rightarrow> u8 list) \<Rightarrow> lmdb_error + lmdb_txn \<Rightarrow> u64 \<Rightarrow> db_height \<Rightarrow> (store_error + put list) option" where
  "advance_tx_out_set_accumulator_to_tip blake2b txn memory_size height =
     (case read_tx_out_set_accumulator_built_height blake2b txn of
        Inl e \<Rightarrow> Some (Inl e)
      | Inr None \<Rightarrow> rebuild_tx_out_set_accumulator blake2b txn memory_size
      | Inr (Some built) \<Rightarrow>
          if dbh_u32 built \<ge> dbh_u32 height then Some (Inr [])
          else if saturating_sub (dbh_u32 height) (dbh_u32 built) \<le> ACCUMULATOR_INCREMENTAL_MAX_GAP
          then Some (update_tx_out_set_accumulator_for_range blake2b txn built height)
          else rebuild_tx_out_set_accumulator blake2b txn memory_size)"

end
