(* ===== verification/Zaino_Txout_Rebuild_Theorems.thy ===== *)
theory Zaino_Txout_Rebuild_Theorems
  imports Zaino_Txout_Rebuild
begin

text \<open>
  The unspent outputs of a chain, what it means that a database holds the chain, and the proof
  that the bulk rebuild of \<open>Zaino_Txout_Rebuild\<close> computes the accumulator of the chain's
  unspent outputs.
\<close>

section \<open>The unspent outputs of a chain\<close>

type_synonym chain_tx = "db_transaction_hash \<times> transparent_compact_tx option"

fun out_utxos :: "u8 list \<Rightarrow> nat \<Rightarrow> tx_out_compact list \<Rightarrow> utxo list" where
  "out_utxos txid i [] = []"
| "out_utxos txid i (out # outs) =
     (if is_unspendable_tx_out out then [] else [(\<lparr>dop_prev_txid = txid, dop_prev_index = of_nat i\<rparr>, out)])
       @ out_utxos txid (i + 1) outs"

definition tx_utxos :: "chain_tx \<Rightarrow> utxo list" where
  "tx_utxos tx = (case snd tx of None \<Rightarrow> [] | Some t \<Rightarrow> out_utxos (dth_bytes (fst tx)) 0 (tct_vout t))"

definition unspent :: "db_outpoint set \<Rightarrow> utxo list \<Rightarrow> utxo list" where
  "unspent spent us = filter (\<lambda>u. fst u \<notin> spent) us"

definition live :: "db_outpoint set \<Rightarrow> chain_tx list \<Rightarrow> utxo multiset" where
  "live spent txs = mset (concat (map (\<lambda>tx. unspent spent (tx_utxos tx)) txs))"

definition live_txs :: "db_outpoint set \<Rightarrow> chain_tx list \<Rightarrow> nat" where
  "live_txs spent txs = length (filter (\<lambda>tx. unspent spent (tx_utxos tx) \<noteq> []) txs)"

lemma live_simps [simp]:
  "live spent [] = {#}"
  "live spent (tx # txs) = mset (unspent spent (tx_utxos tx)) + live spent txs"
  "live spent (txs @ txs') = live spent txs + live spent txs'"
  by (simp_all add: live_def)

lemma live_txs_simps [simp]:
  "live_txs spent [] = 0"
  "live_txs spent (tx # txs) = (if unspent spent (tx_utxos tx) \<noteq> [] then 1 else 0) + live_txs spent txs"
  "live_txs spent (txs @ txs') = live_txs spent txs + live_txs spent txs'"
  by (simp_all add: live_txs_def)

definition in_range :: "nat \<Rightarrow> nat \<Rightarrow> chain_tx list \<Rightarrow> chain_tx list" where
  "in_range low high txs = filter (\<lambda>tx. in_shard low high (dth_bytes (fst tx) ! 0)) txs"

lemma in_range_simps [simp]:
  "in_range low high [] = []"
  "in_range low high (tx # txs) =
     (if in_shard low high (dth_bytes (fst tx) ! 0) then tx # in_range low high txs else in_range low high txs)"
  "in_range low high (txs @ txs') = in_range low high txs @ in_range low high txs'"
  by (simp_all add: in_range_def)

lemma in_range_split:
  assumes "low \<le> mid" and "mid \<le> high"
  shows "live spent (in_range low high txs) = live spent (in_range low mid txs) + live spent (in_range mid high txs)
    \<and> live_txs spent (in_range low high txs) = live_txs spent (in_range low mid txs) + live_txs spent (in_range mid high txs)"
proof (induction txs)
  case (Cons tx txs)
  then show ?case using assms by (auto simp: in_shard_def)
qed simp

lemma in_range_all: "in_range 0 256 txs = txs"
  using unat_less_exp [where 'a = 8] by (simp add: in_range_def in_shard_def)

lemma in_range_none: "high \<le> low \<Longrightarrow> in_range low high txs = []"
  by (auto simp: in_range_def in_shard_def)

section \<open>Accumulators in progress\<close>

text \<open>
  \<open>described acc M n\<close>: the accumulator holds the outputs \<open>M\<close> of \<open>n\<close> transactions, each with at
  least one of them. \<open>folds_to r M n\<close>: a step that may fail gives such an accumulator if it
  gives one, and does give one when the totals fit.
\<close>

definition described :: "(u8 list \<Rightarrow> u8 list) \<Rightarrow> finalised_accumulator \<Rightarrow> utxo multiset \<Rightarrow> nat \<Rightarrow> bool" where
  "described blake2b acc M n \<longleftrightarrow> commits blake2b acc M \<and> unat (fta_transactions acc) = n \<and> n \<le> size M"

definition folds_to :: "(u8 list \<Rightarrow> u8 list) \<Rightarrow> 'e + finalised_accumulator \<Rightarrow> utxo multiset \<Rightarrow> nat \<Rightarrow> bool" where
  "folds_to blake2b r M n \<longleftrightarrow>
     (\<forall>acc. r = Inr acc \<longrightarrow> described blake2b acc M n) \<and> (fits M \<longrightarrow> (\<exists>acc. r = Inr acc))"

lemma described_empty: "described blake2b fta_empty {#} 0"
  using commits_empty by (simp add: described_def fta_empty_def)

lemma folds_to_done: "described blake2b acc M n \<Longrightarrow> folds_to blake2b (Inr acc) M n"
  by (simp add: folds_to_def)

lemma folds_to_bind:
  assumes "folds_to blake2b r M n" and "M \<subseteq># M'"
    and "\<And>acc. described blake2b acc M n \<Longrightarrow> folds_to blake2b (f acc) M' n'"
  shows "folds_to blake2b (bindE r f) M' n'"
  using assms fits_subset [OF assms(2)] by (cases r) (auto simp: folds_to_def)

lemma folds_to_map_err: "folds_to blake2b (map_err g r) M n \<longleftrightarrow> folds_to blake2b r M n"
  by (cases r) (simp_all add: folds_to_def)

lemma foldE_map_err: "foldE (\<lambda>x a. map_err g (f x a)) xs a = map_err g (foldE f xs a)"
  by (induction xs arbitrary: a) (simp_all add: bindE_def map_err_def split: sum.splits)

lemma folds_to_add_all:
  assumes "described blake2b acc M n" and "\<And>x. length (blake2b x) = 32"
  shows "folds_to blake2b (foldE (\<lambda>u. apply_added_output blake2b (fst u) (snd u)) us acc) (M + mset us) n"
proof -
  from assms(1) have c: "commits blake2b acc M \<and> fta_transactions acc = fta_transactions acc"
    and n: "unat (fta_transactions acc) = n" "n \<le> size M" by (simp_all add: described_def)
  have ok: "list_all (\<lambda>u. length (utxo_digest blake2b u) = 32) us"
    using assms(2) by (simp add: list_all_iff tx_out_set_entry_digest_def entry_digest_parts_def)
  show ?thesis
    unfolding folds_to_def described_def
    using utxo_row.add_all_Inr [OF c ok] utxo_row.add_all_returns [OF c ok] n by fastforce
qed

section \<open>One transaction\<close>

lemma outpoint_key: "to_bytes outpoint_serde o1 = Inr (1 # dop_prev_txid o1 @ to_le 4 (dop_prev_index o1))"
  by (simp add: to_bytes_def to_bytes_with_version_def serialize_with_version_def encode_body_def outpoint_serde_def
      serde_v1_def outpoint_encode_v1_def write_fixed_le_def write_u32_le_def V1_def)

definition spent_key :: "db_outpoint \<Rightarrow> u8 list" where
  "spent_key o1 = 1 # dop_prev_txid o1 @ to_le 4 (dop_prev_index o1)"

lemma spent_key_inject:
  "db_outpoint_ok a \<Longrightarrow> db_outpoint_ok b \<Longrightarrow> spent_key a = spent_key b \<longleftrightarrow> a = b"
  by (cases a; cases b) (simp add: spent_key_def db_outpoint_ok_def to_le_inject)

lemma out_utxos_txid: "u \<in> set (out_utxos txid i outs) \<Longrightarrow> dop_prev_txid (fst u) = txid"
  by (induction outs arbitrary: i) (auto split: if_splits)

lemma shard_outputs_fold:
  assumes "\<And>u. u \<in> set (out_utxos txid i outs) \<Longrightarrow> spent_key (fst u) \<in> set spent_set \<longleftrightarrow> fst u \<in> spent"
  shows "shard_outputs blake2b spent_set txid i outs acc has =
    bindE (map_err (\<lambda>e. Custom (ade_message e))
        (foldE (\<lambda>u. apply_added_output blake2b (fst u) (snd u)) (unspent spent (out_utxos txid i outs)) acc))
      (\<lambda>acc. Inr (acc, has \<or> unspent spent (out_utxos txid i outs) \<noteq> []))"
  using assms
proof (induction outs arbitrary: i acc has)
  case (Cons out outs)
  have IH: "shard_outputs blake2b spent_set txid (i + 1) outs acc has =
    bindE (map_err (\<lambda>e. Custom (ade_message e))
        (foldE (\<lambda>u. apply_added_output blake2b (fst u) (snd u)) (unspent spent (out_utxos txid (i + 1) outs)) acc))
      (\<lambda>acc. Inr (acc, has \<or> unspent spent (out_utxos txid (i + 1) outs) \<noteq> []))" for acc has
    by (rule Cons.IH) (use Cons.prems in simp)
  let ?o = "\<lparr>dop_prev_txid = txid, dop_prev_index = of_nat i\<rparr>"
  show ?case
  proof (cases "is_unspendable_tx_out out")
    case True
    then show ?thesis using IH by simp
  next
    case False
    then have "spent_key ?o \<in> set spent_set \<longleftrightarrow> ?o \<in> spent" using Cons.prems [of "(?o, out)"] by simp
    then show ?thesis
      using False IH by (cases "apply_added_output blake2b ?o out acc")
        (auto simp: unspent_def outpoint_key spent_key_def Let_def)
  qed
qed (simp add: unspent_def)

lemma counted_tx:
  assumes "described blake2b acc M n" and "Suc n \<le> size M"
  shows "\<exists>acc'. ok_or (map_option (\<lambda>n. acc\<lparr>fta_transactions := n\<rparr>) (checked_add (fta_transactions acc) 1)) e = Inr acc'
    \<and> described blake2b acc' M (Suc n)"
proof -
  from assms(1) have d: "commits blake2b acc M" "unat (fta_transactions acc) = n" by (simp_all add: described_def)
  then have "Suc n < 2 ^ 64" using commits_fits [OF d(1)] assms(2) by (simp add: fits_def)
  then obtain m where m: "checked_add (fta_transactions acc) 1 = Some m"
    using d(2) by (cases "checked_add (fta_transactions acc) 1") (auto simp: checked_add_eq_None)
  then have "unat m = Suc n" using d(2) by (simp add: checked_add_eq_Some)
  with m d assms(2) show ?thesis by (simp add: described_def commits_def)
qed

text \<open>Adding a transaction's unspent outputs and, when there are any, counting it.\<close>

lemma tx_folds:
  assumes "described blake2b acc M n" and "\<And>x. length (blake2b x) = 32"
  shows "folds_to blake2b (bindE (map_err g (foldE (\<lambda>u. apply_added_output blake2b (fst u) (snd u)) us acc)) (\<lambda>acc.
      if us \<noteq> [] then ok_or (map_option (\<lambda>n. acc\<lparr>fta_transactions := n\<rparr>) (checked_add (fta_transactions acc) 1)) e
      else Inr acc)) (M + mset us) (n + (if us \<noteq> [] then 1 else 0))"
proof (rule folds_to_bind)
  show "folds_to blake2b (map_err g (foldE (\<lambda>u. apply_added_output blake2b (fst u) (snd u)) us acc)) (M + mset us) n"
    using folds_to_add_all [OF assms] by (simp add: folds_to_map_err)
  fix acc' assume d: "described blake2b acc' (M + mset us) n"
  have "n \<le> size M" using assms(1) by (simp add: described_def)
  then show "folds_to blake2b (if us \<noteq> [] then
        ok_or (map_option (\<lambda>n. acc'\<lparr>fta_transactions := n\<rparr>) (checked_add (fta_transactions acc') 1)) e
      else Inr acc') (M + mset us) (n + (if us \<noteq> [] then 1 else 0))"
    using counted_tx [OF d, of e] d by (cases us) (auto simp: folds_to_def)
qed simp

lemma shard_txs_Some:
  assumes "k < length txids" and "in_shard low high (dth_bytes (txids ! k) ! 0)"
    and "\<And>u. u \<in> set (tx_utxos (txids ! k, Some t)) \<Longrightarrow> spent_key (fst u) \<in> set spent_set \<longleftrightarrow> fst u \<in> spent"
  shows "shard_txs blake2b spent_set low high h txids k (Some t # txs) acc =
    bindE (bindE (map_err (\<lambda>e. Custom (ade_message e))
        (foldE (\<lambda>u. apply_added_output blake2b (fst u) (snd u)) (unspent spent (tx_utxos (txids ! k, Some t))) acc)) (\<lambda>acc.
      if unspent spent (tx_utxos (txids ! k, Some t)) \<noteq> []
      then ok_or (map_option (\<lambda>n. acc\<lparr>fta_transactions := n\<rparr>) (checked_add (fta_transactions acc) 1))
        (Custom ''txout-set accumulator transactions overflow'')
      else Inr acc)) (shard_txs blake2b spent_set low high h txids (k + 1) txs)"
proof -
  have "shard_outputs blake2b spent_set (dth_bytes (txids ! k)) 0 (tct_vout t) acc False =
      bindE (map_err (\<lambda>e. Custom (ade_message e))
        (foldE (\<lambda>u. apply_added_output blake2b (fst u) (snd u)) (unspent spent (tx_utxos (txids ! k, Some t))) acc))
      (\<lambda>acc. Inr (acc, False \<or> unspent spent (tx_utxos (txids ! k, Some t)) \<noteq> []))"
    using shard_outputs_fold [of "dth_bytes (txids ! k)" 0 "tct_vout t" spent_set spent] assms(3)
    by (simp add: tx_utxos_def)
  with assms(1,2) show ?thesis
    by (cases "foldE (\<lambda>u. apply_added_output blake2b (fst u) (snd u)) (unspent spent (tx_utxos (txids ! k, Some t))) acc")
      simp_all
qed

lemma shard_txs_folds:
  assumes "described blake2b acc M n" and digest: "\<And>x. length (blake2b x) = 32"
    and "k + length txs = length txids"
    and "\<And>tx u. tx \<in> set (in_range low high (zip (drop k txids) txs)) \<Longrightarrow> u \<in> set (tx_utxos tx) \<Longrightarrow>
      spent_key (fst u) \<in> set spent_set \<longleftrightarrow> fst u \<in> spent"
  shows "folds_to blake2b (shard_txs blake2b spent_set low high h txids k txs acc)
    (M + live spent (in_range low high (zip (drop k txids) txs)))
    (n + live_txs spent (in_range low high (zip (drop k txids) txs)))"
  using assms(1,3,4)
proof (induction txs arbitrary: k acc M n)
  case (Cons tx txs)
  then have k: "k < length txids" by simp
  then have zip: "zip (drop k txids) (tx # txs) = (txids ! k, tx) # zip (drop (Suc k) txids) txs"
    by (simp add: Cons_nth_drop_Suc [symmetric])
  have IH: "folds_to blake2b (shard_txs blake2b spent_set low high h txids (k + 1) txs acc)
      (M + live spent (in_range low high (zip (drop (Suc k) txids) txs)))
      (n + live_txs spent (in_range low high (zip (drop (Suc k) txids) txs)))" if "described blake2b acc M n" for acc M n
  proof -
    have "spent_key (fst u) \<in> set spent_set \<longleftrightarrow> fst u \<in> spent"
      if "tx' \<in> set (in_range low high (zip (drop (k + 1) txids) txs))" and "u \<in> set (tx_utxos tx')" for tx' u
      by (rule Cons.prems(3) [OF _ that(2)]) (use that(1) zip in simp)
    from Cons.IH [OF that _ this] Cons.prems(2) show ?thesis by simp
  qed
  show ?case
  proof (cases "in_shard low high (dth_bytes (txids ! k) ! 0) \<and> tx \<noteq> None")
    case True
    then obtain t where t: "tx = Some t" by auto
    let ?us = "unspent spent (tx_utxos (txids ! k, Some t))"
    have keys: "spent_key (fst u) \<in> set spent_set \<longleftrightarrow> fst u \<in> spent" if "u \<in> set (tx_utxos (txids ! k, Some t))" for u
      using Cons.prems(3) [of "(txids ! k, Some t)" u] True t that zip by simp
    note step = shard_txs_Some [where spent = spent, OF k conjunct1 [OF True]]
    have sums: "M + live spent (in_range low high (zip (drop k txids) (tx # txs)))
        = (M + mset ?us) + live spent (in_range low high (zip (drop (Suc k) txids) txs))"
      "n + live_txs spent (in_range low high (zip (drop k txids) (tx # txs)))
        = (n + (if ?us \<noteq> [] then 1 else 0)) + live_txs spent (in_range low high (zip (drop (Suc k) txids) txs))"
      using zip True t by (simp_all add: add.assoc)
    show ?thesis
      unfolding sums unfolding t
      by (subst step, erule keys, rule folds_to_bind [OF tx_folds [OF Cons.prems(1) digest]]) (simp, erule IH)
  next
    case False
    then show ?thesis
      using IH [OF Cons.prems(1)] k zip by (cases tx) (auto simp: tx_utxos_def unspent_def)
  qed
qed (simp add: folds_to_done)

section \<open>A database that holds a chain\<close>

context versioned_serde
begin

lemma stored_row_reads:
  assumes row: "stored_row blake2b S key item raw" and ok: "ok item" and digest: "\<And>x. length (blake2b x) = 32"
  shows "\<exists>e. from_bytes (var_serde S) raw = Inr e \<and> sev_item e = item \<and> var_verify blake2b S key e = Some True"
proof -
  obtain body where body: "serialize S item = Inr body" and fits: "length body \<le> unat MAX_COMPACT_SIZE"
    and raw: "raw = 1 # compact_size_write (of_nat (length body)) @ body @ blake2b (key @ body)"
    by (rule stored_row_layout [OF row])
  from body have bs: "to_bytes_with_version S item (VERSION S) = Inr body"
    by (simp add: serialize_def to_bytes_with_version_def)
  from var_row [OF ok bs fits, of blake2b key] digest obtain y where
    y: "from_bytes (var_serde S) raw = Inr \<lparr>sev_item = y, sev_checksum = blake2b (key @ body)\<rparr>"
      "var_verify blake2b S key \<lparr>sev_item = y, sev_checksum = blake2b (key @ body)\<rparr> = Some True"
      "ok y" "to_bytes_with_version S y (VERSION S) = Inr body"
    using bs raw by (auto simp: var_to_bytes_with_item_version_def V1_def write_fixed_le_def)
  from same_bytes_same_value [OF ok y(3) body y(4)] y(1,2) show ?thesis by auto
qed

end

definition holds_chain :: "(u8 list \<Rightarrow> u8 list) \<Rightarrow> lmdb_txn \<Rightarrow> chain_tx list list \<Rightarrow> bool" where
  "holds_chain blake2b txn chain \<longleftrightarrow>
     (\<forall>h < length chain.
        row_at blake2b transparent_list_serde txn TbTransparent (of_nat h) (TransparentTxList (map snd (chain ! h)))
        \<and> transparent_list_ok (TransparentTxList (map snd (chain ! h)))
        \<and> row_at blake2b txid_list_serde txn TbTxids (of_nat h) (TxidList (map fst (chain ! h)))
        \<and> txid_list_ok (TxidList (map fst (chain ! h))))"

lemma holds_chain_reads:
  assumes "holds_chain blake2b txn chain" and "h < length chain" and digest: "\<And>x. length (blake2b x) = 32"
  obtains key where "db_height_try_from (of_nat h) = Inr (DbHeight (of_nat h))"
    and "to_bytes height_serde (DbHeight (of_nat h)) = Inr key"
    and "read_transparent_row blake2b txn key = Inr (map snd (chain ! h))"
    and "read_txids_row blake2b txn key = Inr (map fst (chain ! h))"
proof -
  from assms(1,2) have ok: "transparent_list_ok (TransparentTxList (map snd (chain ! h)))"
    "txid_list_ok (TxidList (map fst (chain ! h)))" by (simp_all add: holds_chain_def)
  from assms(1,2) obtain key raw raw' where key: "db_height_try_from (of_nat h) = Inr (DbHeight (of_nat h))"
    "to_bytes height_serde (DbHeight (of_nat h)) = Inr key"
    and rows: "txn_get txn TbTransparent key = Inr raw" "txn_get txn TbTxids key = Inr raw'"
      "stored_row blake2b transparent_list_serde key (TransparentTxList (map snd (chain ! h))) raw"
      "stored_row blake2b txid_list_serde key (TxidList (map fst (chain ! h))) raw'"
    unfolding holds_chain_def row_at_def by fastforce
  from transparent_list.stored_row_reads [OF rows(3) ok(1)] txid_list.stored_row_reads [OF rows(4) ok(2)]
  have "read_transparent_row blake2b txn key = Inr (map snd (chain ! h))"
    "read_txids_row blake2b txn key = Inr (map fst (chain ! h))"
    using rows(1,2) digest by (auto simp: read_transparent_row_def read_txids_row_def)
  with that key show ?thesis by blast
qed

lemma shard_blocks_folds:
  assumes "described blake2b acc M n" and digest: "\<And>x. length (blake2b x) = 32"
    and chain: "holds_chain blake2b txn chain" and "h + m \<le> length chain"
    and keys: "\<And>tx u. tx \<in> set (in_range low high (concat chain)) \<Longrightarrow> u \<in> set (tx_utxos tx) \<Longrightarrow>
      spent_key (fst u) \<in> set spent_set \<longleftrightarrow> fst u \<in> spent"
  shows "folds_to blake2b (shard_blocks blake2b txn spent_set low high m (of_nat h) acc)
    (M + live spent (in_range low high (concat (take m (drop h chain)))))
    (n + live_txs spent (in_range low high (concat (take m (drop h chain)))))"
  using assms(1,4)
proof (induction m arbitrary: h acc M n)
  case (Suc m)
  then have h: "h < length chain" by simp
  let ?b = "chain ! h" and ?rest = "concat (take m (drop (Suc h) chain))"
  have blocks: "concat (take (Suc m) (drop h chain)) = ?b @ ?rest"
    using h by (simp add: Cons_nth_drop_Suc [symmetric])
  obtain key where key: "db_height_try_from (of_nat h) = Inr (DbHeight (of_nat h))"
    "to_bytes height_serde (DbHeight (of_nat h)) = Inr key" "read_transparent_row blake2b txn key = Inr (map snd ?b)"
    "read_txids_row blake2b txn key = Inr (map fst ?b)"
    using holds_chain_reads [OF chain h] digest by metis
  have zip: "zip (drop 0 (map fst ?b)) (map snd ?b) = ?b" by (simp add: zip_map_fst_snd)
  have "spent_key (fst u) \<in> set spent_set \<longleftrightarrow> fst u \<in> spent"
    if "tx \<in> set (in_range low high ?b)" and "u \<in> set (tx_utxos tx)" for tx u
    by (rule keys [OF _ that(2)]) (use that(1) h nth_mem in \<open>auto simp: in_range_def\<close>)
  then have txs: "folds_to blake2b (shard_txs blake2b spent_set low high (of_nat h) (map fst ?b) 0 (map snd ?b) acc)
      (M + live spent (in_range low high ?b)) (n + live_txs spent (in_range low high ?b))"
    using shard_txs_folds [where blake2b = blake2b, OF Suc.prems(1) digest, of 0 "map snd ?b" "map fst ?b" low high spent_set spent "of_nat h"]
    unfolding zip by simp
  have "folds_to blake2b (bindE (shard_txs blake2b spent_set low high (of_nat h) (map fst ?b) 0 (map snd ?b) acc)
        (shard_blocks blake2b txn spent_set low high m (of_nat (Suc h))))
      (M + live spent (in_range low high ?b) + live spent (in_range low high ?rest))
      (n + live_txs spent (in_range low high ?b) + live_txs spent (in_range low high ?rest))"
    by (rule folds_to_bind [OF txs]) (use Suc.IH [where h = "Suc h"] Suc.prems(2) in simp_all)
  then show ?case using key by (simp add: blocks add.assoc add.commute [of _ 1])
qed (simp add: folds_to_done)

section \<open>Cursors over ordered keys\<close>

text \<open>
  What LMDB documents of a cursor: a table's keys stand in the byte order, each once; \<open>MDB_FIRST\<close>
  is the least of them, \<open>MDB_SET_RANGE\<close> the first at or behind the given key, \<open>MDB_NEXT\<close> the
  first behind the current one.
\<close>

definition first_key :: "u8 list list \<Rightarrow> lmdb_error + u8 list" where
  "first_key ks = (case ks of [] \<Rightarrow> Inl NotFound | k # _ \<Rightarrow> Inr k)"

definition walks :: "lmdb_txn \<Rightarrow> db_table \<Rightarrow> u8 list list \<Rightarrow> bool" where
  "walks txn table ks \<longleftrightarrow>
     sorted_wrt (<) ks \<and> txn_first txn table = first_key ks
     \<and> (\<forall>k. txn_set_range txn table k = first_key (dropWhile (\<lambda>k'. k' < k) ks))
     \<and> (\<forall>k. txn_next txn table k = first_key (dropWhile (\<lambda>k'. k' \<le> k) ks))"

lemma cursor_key_first: "cursor_key (first_key ks) = (None, case ks of [] \<Rightarrow> None | k # _ \<Rightarrow> Some k)"
  by (simp add: cursor_key_def first_key_def split: list.splits)

lemma walks_next:
  assumes "walks txn table (pre @ k # rest)"
  shows "txn_next txn table k = first_key rest"
proof -
  have "\<forall>x \<in> set pre. x \<le> k" and "\<forall>x \<in> set rest. \<not> x \<le> k"
    using assms by (auto simp: walks_def sorted_wrt_append)
  then have "dropWhile (\<lambda>k'. k' \<le> k) (pre @ k # rest) = rest"
    by (cases rest) (simp_all add: dropWhile_append2)
  then show ?thesis using assms by (simp add: walks_def)
qed

lemma load_spent_walk:
  assumes "walks txn TbSpent (pre @ rest)" and "\<forall>k \<in> set rest. 2 \<le> length k" and "set S \<inter> set rest = {}"
    and "sel = filter (\<lambda>k. low \<le> unat (k ! 1)) (takeWhile (\<lambda>k. unat (k ! 1) < high) rest)"
  shows "load_spent txn low high m S (case rest of [] \<Rightarrow> None | k # _ \<Rightarrow> Some k) =
    Some (Inr (if sel = [] \<or> length S + length sel \<le> unat m then Some (rev sel @ S) else None))"
  using assms(1-3) unfolding assms(4)
proof (induction rest arbitrary: pre S)
  case Nil
  then show ?case by (subst load_spent.simps) simp
next
  case (Cons k rest)
  from Cons.prems(1) have nxt: "cursor_key (txn_next txn TbSpent k) = (None, case rest of [] \<Rightarrow> None | k # _ \<Rightarrow> Some k)"
    using walks_next [of txn TbSpent pre k rest] by (simp add: cursor_key_first)
  have k: "2 \<le> length k" "k \<notin> set S" using Cons.prems(2,3) by simp_all
  have walk: "walks txn TbSpent ((pre @ [k]) @ rest)" using Cons.prems(1) by simp
  then have fresh: "k \<notin> set rest" by (auto simp: walks_def sorted_wrt_append)
  show ?case
  proof (cases "in_shard low high (k ! 1) \<and> \<not> unat m \<le> length S")
    case True
    then have "set (k # S) \<inter> set rest = {}" using fresh Cons.prems(3) by auto
    from Cons.IH [OF walk _ this] Cons.prems(2) True k nxt show ?thesis
      by (subst load_spent.simps) (auto simp: in_shard_def)
  next
    case False
    have "set S \<inter> set rest = {}" using Cons.prems(3) by auto
    from Cons.IH [OF walk _ this] Cons.prems(2) False k nxt show ?thesis
      by (subst load_spent.simps) (auto simp: in_shard_def)
  qed
qed

section \<open>The spent keys of a shard\<close>

definition holds_spent :: "lmdb_txn \<Rightarrow> db_outpoint set \<Rightarrow> bool" where
  "holds_spent txn spent \<longleftrightarrow>
     (\<forall>o1 \<in> spent. db_outpoint_ok o1) \<and> (\<exists>ks. walks txn TbSpent ks \<and> set ks = spent_key ` spent)"

definition spent_in :: "nat \<Rightarrow> nat \<Rightarrow> db_outpoint set \<Rightarrow> db_outpoint set" where
  "spent_in low high spent = {o1 \<in> spent. in_shard low high (dop_prev_txid o1 ! 0)}"

lemma takeWhile_sorted:
  "sorted_wrt R xs \<Longrightarrow> (\<And>x y. R x y \<Longrightarrow> P y \<Longrightarrow> P x) \<Longrightarrow> takeWhile P xs = filter P xs"
  by (induction xs) (auto simp: filter_empty_conv intro!: filter_False [symmetric])

lemma dropWhile_sorted:
  "sorted_wrt R xs \<Longrightarrow> (\<And>x y. R x y \<Longrightarrow> P y \<Longrightarrow> P x) \<Longrightarrow> dropWhile P xs = filter (\<lambda>x. \<not> P x) xs"
  by (induction xs) (auto intro!: filter_True [symmetric])

lemma not_less_zeros: "\<not> t < replicate (length t) (0 :: u8)"
  by (induction t) auto

lemma spent_key_shape:
  assumes "db_outpoint_ok o1"
  shows "\<exists>t. spent_key o1 = 1 # (dop_prev_txid o1 ! 0) # t \<and> length t = 35"
  using assms by (cases "dop_prev_txid o1") (auto simp: db_outpoint_ok_def spent_key_def)

lemma shard_selection:
  assumes walk: "walks txn TbSpent ks" and keys: "set ks = spent_key ` spent" "\<forall>o1 \<in> spent. db_outpoint_ok o1"
    and "high \<le> 256"
  shows "filter (\<lambda>k. low \<le> unat (k ! 1)) (takeWhile (\<lambda>k. unat (k ! 1) < high)
      (dropWhile (\<lambda>k. k < 1 # of_nat low # replicate 35 0) ks)) = filter (\<lambda>k. in_shard low high (k ! 1)) ks"
proof -
  have shape: "\<exists>b t. k = 1 # b # t \<and> length t = 35" if "k \<in> set ks" for k
    using that keys spent_key_shape by fastforce
  have sorted: "sorted_wrt (<) ks" using walk by (simp add: walks_def)
  have d: "dropWhile (\<lambda>k. k < 1 # of_nat low # replicate 35 0) ks = filter (\<lambda>k. \<not> k < 1 # of_nat low # replicate 35 0) ks"
    by (rule dropWhile_sorted [OF sorted]) (rule less_trans)
  have sorted': "sorted_wrt (\<lambda>x y. unat (x ! 1) \<le> unat (y ! 1)) (filter (\<lambda>k. \<not> k < 1 # of_nat low # replicate 35 0) ks)"
  proof (rule sorted_wrt_mono_rel)
    show "sorted_wrt (<) (filter (\<lambda>k. \<not> k < 1 # of_nat low # replicate 35 0) ks)" by (rule sorted_wrt_filter [OF sorted])
    fix x y assume "x \<in> set (filter (\<lambda>k. \<not> k < 1 # of_nat low # replicate 35 0) ks)"
      "y \<in> set (filter (\<lambda>k. \<not> k < 1 # of_nat low # replicate 35 0) ks)" "x < y"
    with shape [of x] shape [of y] show "unat (x ! 1) \<le> unat (y ! 1)"
      by (auto simp: word_less_nat_alt)
  qed
  have "\<not> k < 1 # of_nat low # replicate 35 0" if "k \<in> set ks" and "in_shard low high (k ! 1)" for k
  proof -
    from shape [OF that(1)] obtain b t where k: "k = 1 # b # t" and t: "length t = 35" by blast
    have "unat (of_nat low :: u8) = low" using that(2) assms(4) by (simp add: in_shard_def unat_of_nat)
    moreover have "low \<le> unat b" using that(2) k by (simp add: in_shard_def)
    ultimately have "\<not> b < of_nat low" by (simp add: word_less_nat_alt)
    with k not_less_zeros [of t] t show ?thesis by auto
  qed
  then show ?thesis
    unfolding d by (subst takeWhile_sorted [OF sorted']) (auto simp: in_shard_def intro!: filter_cong)
qed

lemma load_spent_shard:
  assumes spent: "holds_spent txn spent" and "high \<le> 256"
  shows "\<exists>S. set S = spent_key ` spent_in low high spent
    \<and> (case cursor_key (txn_set_range txn TbSpent (1 # of_nat low # replicate 35 0)) of
         (Some e, _) \<Rightarrow> Some (Inl (LmdbError e))
       | (None, nxt) \<Rightarrow> load_spent txn low high m [] nxt)
     = Some (Inr (if spent_in low high spent = {} \<or> card (spent_in low high spent) \<le> unat m then Some S else None))"
proof -
  from spent obtain ks where ks: "walks txn TbSpent ks" "set ks = spent_key ` spent" "\<forall>o1 \<in> spent. db_outpoint_ok o1"
    by (auto simp: holds_spent_def)
  define rest where "rest = dropWhile (\<lambda>k. k < 1 # of_nat low # replicate 35 0) ks"
  define sel where "sel = filter (\<lambda>k. in_shard low high (k ! 1)) ks"
  have sel: "sel = filter (\<lambda>k. low \<le> unat (k ! 1)) (takeWhile (\<lambda>k. unat (k ! 1) < high) rest)"
    using shard_selection [OF ks assms(2)] by (simp add: sel_def rest_def)
  have first: "spent_key o1 ! 1 = dop_prev_txid o1 ! 0" if "o1 \<in> spent" for o1
    using that ks(3) spent_key_shape [of o1] by auto
  have set: "set sel = spent_key ` spent_in low high spent"
    using ks(2) first by (auto simp: sel_def spent_in_def)
  have "inj_on spent_key (spent_in low high spent)"
    using ks(3) spent_key_inject by (auto simp: inj_on_def spent_in_def)
  moreover have "distinct sel" using ks(1) by (simp add: sel_def walks_def strict_sorted_iff)
  ultimately have card: "length sel = card (spent_in low high spent)"
    using set by (metis card_image distinct_card)
  have "sel = [] \<longleftrightarrow> spent_in low high spent = {}" using set by auto
  moreover have walk: "walks txn TbSpent (takeWhile (\<lambda>k. k < 1 # of_nat low # replicate 35 0) ks @ rest)"
    using ks(1) by (simp add: rest_def)
  moreover have "2 \<le> length k" if "k \<in> set rest" for k
  proof -
    from that have "k \<in> spent_key ` spent" using ks(2) by (auto simp: rest_def dest: set_dropWhileD)
    then show ?thesis using ks(3) spent_key_shape by fastforce
  qed
  ultimately have "load_spent txn low high m [] (case rest of [] \<Rightarrow> None | k # _ \<Rightarrow> Some k) =
      Some (Inr (if spent_in low high spent = {} \<or> card (spent_in low high spent) \<le> unat m then Some (rev sel) else None))"
    using load_spent_walk [OF walk _ _ sel, where S = "[]" and m = m] card by simp
  moreover have "cursor_key (txn_set_range txn TbSpent (1 # of_nat low # replicate 35 0))
      = (None, case rest of [] \<Rightarrow> None | k # _ \<Rightarrow> Some k)"
    using ks(1) by (simp add: walks_def rest_def cursor_key_first)
  ultimately show ?thesis using set by (intro exI [of _ "rev sel"]) simp
qed

section \<open>One shard, and all of them\<close>

lemma holds_chain_length:
  assumes "holds_chain blake2b txn chain"
  shows "length chain \<le> 2 ^ 31"
proof (rule ccontr)
  assume "\<not> length chain \<le> 2 ^ 31"
  with assms have "db_height_try_from (of_nat (2 ^ 31)) = Inr (DbHeight (of_nat (2 ^ 31)))"
    unfolding holds_chain_def row_at_def by (metis not_le)
  then show False by (simp add: db_height_try_from_def ZEBRA_MAX_HEIGHT_def split: if_splits)
qed

lemma holds_chain_txid:
  assumes "holds_chain blake2b txn chain" and "tx \<in> set (concat chain)"
  shows "length (dth_bytes (fst tx)) = 32"
proof -
  from assms(2) obtain h where h: "h < length chain" "tx \<in> set (chain ! h)" by (metis UN_iff in_set_conv_nth set_concat)
  then have "list_all transaction_hash_ok (map fst (chain ! h))"
    using assms(1) by (simp add: holds_chain_def txid_list_ok_def vec_ok_def)
  with h(2) show ?thesis by (auto simp: list_all_iff transaction_hash_ok_def)
qed

lemma tx_utxos_txid: "u \<in> set (tx_utxos tx) \<Longrightarrow> dop_prev_txid (fst u) = dth_bytes (fst tx)"
  by (auto simp: tx_utxos_def dest: out_utxos_txid split: option.splits)

lemma shard_result:
  assumes digest: "\<And>x. length (blake2b x) = 32" and chain: "holds_chain blake2b txn chain" "chain \<noteq> []"
    and spent: "holds_spent txn spent" and "high \<le> 256"
  shows "\<exists>r. accumulate_tx_out_set_shard_blocking blake2b (Inr txn) (DbHeight (of_nat (length chain - 1))) low high m =
      Some (if spent_in low high spent = {} \<or> card (spent_in low high spent) \<le> unat m
        then bindE r (\<lambda>acc. Inr (Some acc)) else Inr None)
    \<and> folds_to blake2b r (live spent (in_range low high (concat chain))) (live_txs spent (in_range low high (concat chain)))"
proof -
  obtain S where S: "set S = spent_key ` spent_in low high spent" and
    load: "(case cursor_key (txn_set_range txn TbSpent (1 # of_nat low # replicate 35 0)) of
         (Some e, _) \<Rightarrow> Some (Inl (LmdbError e))
       | (None, nxt) \<Rightarrow> load_spent txn low high m [] nxt)
     = Some (Inr (if spent_in low high spent = {} \<or> card (spent_in low high spent) \<le> unat m then Some S else None))"
    using load_spent_shard [OF spent assms(5)] by blast
  have bound: "to_bytes outpoint_serde \<lparr>dop_prev_txid = of_nat low # replicate 31 0, dop_prev_index = 0\<rparr>
      = Inr (1 # of_nat low # replicate 35 0)"
    by (simp add: outpoint_key numeral_eq_Suc)
  have tip: "unat (of_nat (length chain - 1) :: u32) + 1 = length chain"
    using holds_chain_length [OF chain(1)] chain(2) by (cases chain) (simp_all add: unat_of_nat)
  have "spent_key (fst u) \<in> set S \<longleftrightarrow> fst u \<in> spent"
    if tx: "tx \<in> set (in_range low high (concat chain))" and u: "u \<in> set (tx_utxos tx)" for tx u
  proof -
    have "dop_prev_txid (fst u) = dth_bytes (fst tx)" by (rule tx_utxos_txid [OF u])
    moreover have "length (dth_bytes (fst tx)) = 32"
      using holds_chain_txid [OF chain(1)] tx by (simp add: in_range_def)
    ultimately have "db_outpoint_ok (fst u)" and "in_shard low high (dop_prev_txid (fst u) ! 0)"
      using tx by (simp_all add: db_outpoint_ok_def in_range_def)
    moreover have "\<forall>o1 \<in> spent. db_outpoint_ok o1" using spent by (simp add: holds_spent_def)
    ultimately show ?thesis
      using spent_key_inject [of "fst u"] by (auto simp: S spent_in_def)
  qed
  from shard_blocks_folds [where blake2b = blake2b, OF described_empty digest chain(1) _ this, where h = 0 and m = "length chain"]
  have "folds_to blake2b (shard_blocks blake2b txn S low high (length chain) 0 fta_empty)
      (live spent (in_range low high (concat chain))) (live_txs spent (in_range low high (concat chain)))" by simp
  then show ?thesis
    unfolding accumulate_tx_out_set_shard_blocking_def GENESIS_HEIGHT_def db_height.sel tip
    using load bound by (intro exI [of _ "shard_blocks blake2b txn S low high (length chain) 0 fta_empty"]) simp
qed

lemma combine_folds:
  assumes "described blake2b a M n" and "described blake2b b N k"
  shows "folds_to blake2b (fta_combine a b) (M + N) (n + k)"
proof -
  from assms have c: "commits blake2b a M" "commits blake2b b N" "unat (fta_transactions a) = n" "n \<le> size M"
    "unat (fta_transactions b) = k" "k \<le> size N" by (simp_all add: described_def)
  have "n + k < 2 ^ 64" if "fits (M + N)" using that c(4,6) by (simp add: fits_def)
  with combine_Inr [OF c(1,2)] combine_returns [OF c(1,2)] c show ?thesis
    by (auto simp: folds_to_def described_def)
qed

end
