(* ===== verification/Zaino_Txout_Rebuild_Correct.thy ===== *)
theory Zaino_Txout_Rebuild_Correct
  imports Zaino_Txout_Rebuild_Theorems
begin

text \<open>
  The whole bulk rebuild: the work list of shards, the sizing pass, and the two rows the
  rebuild puts. On a database that holds a chain it commits the accumulator of the chain's
  unspent outputs, or names a first byte whose spent outputs exceed the memory budget.
\<close>

section \<open>The work list\<close>

definition pending_live :: "db_outpoint set \<Rightarrow> chain_tx list \<Rightarrow> (nat \<times> nat) list \<Rightarrow> utxo multiset" where
  "pending_live spent txs pending = (\<Sum>(low, high)\<leftarrow>pending. live spent (in_range low high txs))"

definition pending_txs :: "db_outpoint set \<Rightarrow> chain_tx list \<Rightarrow> (nat \<times> nat) list \<Rightarrow> nat" where
  "pending_txs spent txs pending = (\<Sum>(low, high)\<leftarrow>pending. live_txs spent (in_range low high txs))"

lemma pending_simps [simp]:
  "pending_live spent txs [] = {#}"
  "pending_live spent txs ((low, high) # pending) = live spent (in_range low high txs) + pending_live spent txs pending"
  "pending_txs spent txs [] = 0"
  "pending_txs spent txs ((low, high) # pending) = live_txs spent (in_range low high txs) + pending_txs spent txs pending"
  by (simp_all add: pending_live_def pending_txs_def)

definition bytes_of :: "(nat \<times> nat) list \<Rightarrow> nat set" where
  "bytes_of pending = {b. \<exists>(low, high) \<in> set pending. low \<le> b \<and> b < high}"

lemma bytes_of_simps [simp]:
  "bytes_of [] = {}"
  "bytes_of ((low, high) # pending) = {low..<high} \<union> bytes_of pending"
  by (auto simp: bytes_of_def)

lemma spent_finite:
  assumes "holds_spent txn spent"
  shows "finite spent"
proof -
  from assms obtain ks where "set ks = spent_key ` spent" "\<forall>o1 \<in> spent. db_outpoint_ok o1"
    by (auto simp: holds_spent_def)
  then have "inj_on spent_key spent" "finite (spent_key ` spent)"
    using spent_key_inject by (auto simp: inj_on_def intro: finite_subset [OF _ finite_set [of ks]])
  then show ?thesis by (rule finite_imageD [rotated])
qed

lemma spent_in_byte:
  assumes "finite spent" and "low \<le> b" and "b < high"
  shows "card (spent_in b (Suc b) spent) \<le> card (spent_in low high spent)"
  using assms by (intro card_mono) (auto simp: spent_in_def in_shard_def)

text \<open>
  What the loop gives: the accumulator of what it held and of the pending ranges when every
  first byte in them is within the budget; otherwise the error for a byte that is not.
\<close>

definition built ::
  "(u8 list \<Rightarrow> u8 list) \<Rightarrow> db_outpoint set \<Rightarrow> u64 \<Rightarrow> nat set \<Rightarrow> utxo multiset \<Rightarrow> nat \<Rightarrow>
   store_error + finalised_accumulator \<Rightarrow> bool" where
  "built blake2b spent m bytes M n r \<longleftrightarrow>
     (case r of
        Inr acc \<Rightarrow> described blake2b acc M n \<and> (\<forall>b \<in> bytes. card (spent_in b (Suc b) spent) \<le> unat m)
      | Inl e \<Rightarrow> fits M \<longrightarrow> (\<exists>b \<in> bytes. unat m < card (spent_in b (Suc b) spent) \<and> e = over_budget b m))"

text \<open>A range that is not read to the end, because a part of it failed, or because it was too large.\<close>

lemma built_failed:
  assumes "folds_to blake2b (Inl e' :: 'e + _) N k" and "N \<subseteq># M"
  shows "built blake2b spent m bytes M n (Inl e)"
  using assms fits_subset [OF assms(2)] by (auto simp: built_def folds_to_def)

lemma built_more:
  assumes "built blake2b spent m bytes M n r" and "bytes \<subseteq> bytes'"
    and "\<And>b. b \<in> bytes' - bytes \<Longrightarrow> card (spent_in b (Suc b) spent) \<le> unat m"
  shows "built blake2b spent m bytes' M n r"
  using assms by (cases r) (auto simp: built_def)

definition work :: "(nat \<times> nat) list \<Rightarrow> nat" where
  "work pending = (\<Sum>(low, high)\<leftarrow>pending. if high \<le> low then 1 else 2 * (high - low) - 1)"

lemma shard_result_card:
  assumes digest: "\<And>x. length (blake2b x) = 32" and chain: "holds_chain blake2b txn chain" "chain \<noteq> []"
    and spent: "holds_spent txn spent" and high: "high \<le> 256"
  obtains r where "accumulate_tx_out_set_shard_blocking blake2b (Inr txn) (DbHeight (of_nat (length chain - 1))) low high m =
      Some (if card (spent_in low high spent) \<le> unat m then bindE r (\<lambda>acc. Inr (Some acc)) else Inr None)"
    and "folds_to blake2b r (live spent (in_range low high (concat chain))) (live_txs spent (in_range low high (concat chain)))"
proof -
  have "spent_in low high spent = {} \<or> card (spent_in low high spent) \<le> unat m \<longleftrightarrow> card (spent_in low high spent) \<le> unat m"
    by auto
  with shard_result [where blake2b = blake2b, OF digest chain spent high, of low m] that show thesis by auto
qed

text \<open>A range that is read: its partial result is combined, and the loop goes on.\<close>

lemma shard_read:
  assumes shard: "accumulate_tx_out_set_shard_blocking blake2b txn tip low high m = Some (bindE r (\<lambda>acc. Inr (Some acc)))"
    and folds: "folds_to blake2b r L k" and total: "described blake2b total_acc M n"
    and bytes: "\<And>b. low \<le> b \<Longrightarrow> b < high \<Longrightarrow> card (spent_in b (Suc b) spent) \<le> unat m"
    and IH: "\<And>t. described blake2b t (M + L) (n + k) \<Longrightarrow>
      \<exists>r. build_shards blake2b txn tip m rest t = Some r \<and> built blake2b spent m (bytes_of rest) (M + L + PL) (n + k + PT) r"
  shows "\<exists>r. build_shards blake2b txn tip m ((low, high) # rest) total_acc = Some r
    \<and> built blake2b spent m (bytes_of ((low, high) # rest)) (M + L + PL) (n + k + PT) r"
proof (cases r)
  case (Inl e)
  with shard have "build_shards blake2b txn tip m ((low, high) # rest) total_acc = Some (Inl e)" by simp
  moreover have "L \<subseteq># M + L + PL" by (simp add: subset_mset.add_increasing subset_mset.add_increasing2)
  ultimately show ?thesis using built_failed [OF folds [unfolded Inl]] by simp
next
  case (Inr acc)
  with folds have acc: "described blake2b acc L k" by (simp add: folds_to_def)
  note both = combine_folds [OF total acc]
  show ?thesis
  proof (cases "fta_combine total_acc acc")
    case comb: (Inl e)
    with shard Inr have "build_shards blake2b txn tip m ((low, high) # rest) total_acc = Some (Inl (Custom (ade_message e)))"
      by simp
    then show ?thesis using built_failed [OF both [unfolded comb]] by simp
  next
    case comb: (Inr t)
    with both have "described blake2b t (M + L) (n + k)" by (simp add: folds_to_def)
    from IH [OF this] obtain r' where r': "build_shards blake2b txn tip m rest t = Some r'"
      "built blake2b spent m (bytes_of rest) (M + L + PL) (n + k + PT) r'" by blast
    have "built blake2b spent m (bytes_of ((low, high) # rest)) (M + L + PL) (n + k + PT) r'"
      by (rule built_more [OF r'(2)]) (use bytes in auto)
    with r'(1) shard Inr comb show ?thesis by simp
  qed
qed

text \<open>A range too large for the budget: split in two, or refused when it is one byte.\<close>

lemma shard_split:
  assumes "low < mid" and "mid < high"
  shows "work ((mid, high) # (low, mid) # rest) < work ((low, high) # rest)"
    and "bytes_of ((mid, high) # (low, mid) # rest) = bytes_of ((low, high) # rest)"
    and "pending_live spent txs ((mid, high) # (low, mid) # rest) = pending_live spent txs ((low, high) # rest)"
    and "pending_txs spent txs ((mid, high) # (low, mid) # rest) = pending_txs spent txs ((low, high) # rest)"
  using assms in_range_split [of low mid high spent txs] by (auto simp: work_def ac_simps)

lemma build_shards_built:
  assumes digest: "\<And>x. length (blake2b x) = 32" and chain: "holds_chain blake2b txn chain" "chain \<noteq> []"
    and spent: "holds_spent txn spent"
    and "described blake2b total_acc M n" and "\<forall>(low, high) \<in> set pending. high \<le> 256"
  shows "\<exists>r. build_shards blake2b (Inr txn) (DbHeight (of_nat (length chain - 1))) m pending total_acc = Some r
    \<and> built blake2b spent m (bytes_of pending) (M + pending_live spent (concat chain) pending)
        (n + pending_txs spent (concat chain) pending) r"
  using assms(5,6)
proof (induction "work pending" arbitrary: pending total_acc M n rule: less_induct)
  case less
  let ?build = "build_shards blake2b (Inr txn) (DbHeight (of_nat (length chain - 1))) m"
  show ?case
  proof (cases pending)
    case Nil
    then show ?thesis using less.prems by (simp add: built_def)
  next
    case (Cons range rest)
    obtain low high where range: "pending = (low, high) # rest" using Cons by (cases range) simp
    with less.prems(2) have high: "high \<le> 256" and rest: "\<forall>(low, high) \<in> set rest. high \<le> 256" by auto
    obtain r where r: "accumulate_tx_out_set_shard_blocking blake2b (Inr txn) (DbHeight (of_nat (length chain - 1))) low high m =
        Some (if card (spent_in low high spent) \<le> unat m then bindE r (\<lambda>acc. Inr (Some acc)) else Inr None)"
      and folds: "folds_to blake2b r (live spent (in_range low high (concat chain))) (live_txs spent (in_range low high (concat chain)))"
      using shard_result_card [where blake2b = blake2b, OF digest chain spent high] by blast
    show ?thesis
    proof (cases "card (spent_in low high spent) \<le> unat m")
      case True
      have IH: "\<exists>r. ?build rest t = Some r \<and> built blake2b spent m (bytes_of rest)
          (M' + pending_live spent (concat chain) rest) (n' + pending_txs spent (concat chain) rest) r"
        if "described blake2b t M' n'" for t M' n'
        by (rule less.hyps [OF _ that rest]) (use range in \<open>auto simp: work_def\<close>)
      have bytes: "card (spent_in b (Suc b) spent) \<le> unat m" if "low \<le> b" "b < high" for b
        using spent_in_byte [OF spent_finite [OF spent] that] True by simp
      show ?thesis
        unfolding range pending_simps add.assoc [symmetric]
        by (rule shard_read [OF _ folds less.prems(1) bytes IH]) (use r True in simp_all)
    next
      case over: False
      then have "spent_in low high spent \<noteq> {}" by auto
      then have "low < high" by (auto simp: spent_in_def in_shard_def)
      show ?thesis
      proof (cases "high - low \<le> 1")
        case True
        with \<open>low < high\<close> have "high = Suc low" by simp
        with r over range show ?thesis by (auto simp: built_def)
      next
        case False
        define mid where "mid = low + (high - low) div 2"
        with False have mid: "low < mid" "mid < high" by auto
        note split = shard_split [OF mid, where rest = rest]
        have "\<forall>(low, high) \<in> set ((mid, high) # (low, mid) # rest). high \<le> 256" using rest high mid by auto
        from less.hyps [OF split(1) [folded range] less.prems(1) this]
        have "\<exists>r. ?build ((mid, high) # (low, mid) # rest) total_acc = Some r
          \<and> built blake2b spent m (bytes_of pending) (M + pending_live spent (concat chain) pending)
              (n + pending_txs spent (concat chain) pending) r" by (simp only: split(2-4) range)
        moreover have "?build pending total_acc = ?build ((mid, high) # (low, mid) # rest) total_acc"
          unfolding range using r over False by (subst build_shards.simps(2)) (simp add: mid_def Let_def)
        ultimately show ?thesis by simp
      qed
    qed
  qed
qed

section \<open>The initial partition\<close>

text \<open>\<open>parts shards n\<close> is the first \<open>n\<close> of the ranges the work list starts with.\<close>

definition parts :: "nat \<Rightarrow> nat \<Rightarrow> (nat \<times> nat) list" where
  "parts shards n = rev (map (\<lambda>shard. (shard * 256 div shards, (shard + 1) * 256 div shards)) [0..<n])"

lemma parts_Suc: "parts shards (Suc n) = (n * 256 div shards, Suc n * 256 div shards) # parts shards n"
  by (simp add: parts_def)

lemma parts_cover:
  "pending_live spent txs (parts shards n) = live spent (in_range 0 (n * 256 div shards) txs)
   \<and> pending_txs spent txs (parts shards n) = live_txs spent (in_range 0 (n * 256 div shards) txs)
   \<and> bytes_of (parts shards n) = {..<n * 256 div shards}"
proof (induction n)
  case 0
  then show ?case by (simp add: parts_def in_range_none)
next
  case (Suc n)
  have le: "n * 256 div shards \<le> Suc n * 256 div shards" by (rule div_le_mono) simp
  then have "{n * 256 div shards..<Suc n * 256 div shards} \<union> {..<n * 256 div shards} = {..<Suc n * 256 div shards}"
    by auto
  with in_range_split [OF le0 le, of spent txs] Suc show ?case
    by (simp only: parts_Suc pending_simps bytes_of_simps) (simp add: ac_simps)
qed

lemma parts_bound: "n \<le> shards \<Longrightarrow> \<forall>(low, high) \<in> set (parts shards n). high \<le> 256"
proof -
  assume "n \<le> shards"
  have "(k + 1) * 256 div shards \<le> 256" if "k < n" for k
  proof -
    have "(k + 1) * 256 div shards \<le> shards * 256 div shards"
      using that \<open>n \<le> shards\<close> by (intro div_le_mono mult_le_mono1) simp
    also have "\<dots> \<le> 256" by (cases "shards = 0") simp_all
    finally show ?thesis .
  qed
  then show ?thesis by (auto simp: parts_def)
qed

lemma build_built:
  assumes digest: "\<And>x. length (blake2b x) = 32" and chain: "holds_chain blake2b txn chain" "chain \<noteq> []"
    and spent: "holds_spent txn spent"
  shows "\<exists>r. build_tx_out_set_accumulator_blocking blake2b (Inr txn) (DbHeight (of_nat (length chain - 1))) shards m = Some r
    \<and> built blake2b spent (max m 1) {..<256} (live spent (concat chain)) (live_txs spent (concat chain)) r"
proof -
  let ?n = "unat (max shards 1)"
  have "max shards 1 \<noteq> 0" by (auto simp: max_def)
  then have n: "?n \<noteq> 0" by (simp add: unat_eq_0)
  then have all: "?n * 256 div ?n = 256" by simp
  have "build_tx_out_set_accumulator_blocking blake2b (Inr txn) (DbHeight (of_nat (length chain - 1))) shards m =
      build_shards blake2b (Inr txn) (DbHeight (of_nat (length chain - 1))) (max m 1) (parts ?n ?n) fta_empty"
    by (simp add: build_tx_out_set_accumulator_blocking_def Let_def parts_def)
  then show ?thesis
    using build_shards_built [where blake2b = blake2b, OF digest chain spent described_empty parts_bound [OF order_refl, of ?n],
        where m = "max m 1"] parts_cover [of spent "concat chain" ?n ?n]
    unfolding all in_range_all by simp
qed

section \<open>The sizing pass\<close>

lemma count_spent_returns:
  assumes "walks txn TbSpent (pre @ rest)"
  shows "\<exists>c. count_spent txn m counted (first_key rest) = Some (Inr c)"
  using assms
proof (induction rest arbitrary: pre counted)
  case Nil
  then show ?case by (subst count_spent.simps) (simp add: cursor_key_first)
next
  case (Cons k rest)
  have "\<exists>c. count_spent txn m (counted + 1) (txn_next txn TbSpent k) = Some (Inr c)"
    using walks_next [OF Cons.prems] Cons.IH [of "pre @ [k]" "counted + 1"] Cons.prems by simp
  then show ?case by (subst count_spent.simps) (simp add: cursor_key_first)
qed

lemma build_shards_returns:
  assumes "holds_spent txn spent"
  shows "\<exists>shards. accumulator_build_shards (Inr txn) budget = Some (Inr shards)"
proof -
  from assms obtain ks where ks: "walks txn TbSpent ks" by (auto simp: holds_spent_def)
  then have "txn_first txn TbSpent = first_key ks" by (simp add: walks_def)
  then have "\<exists>c. count_spent txn m 0 (txn_first txn TbSpent) = Some (Inr c)" for m
    using count_spent_returns [of txn "[]" ks] ks by simp
  then obtain c where "\<And>m. count_spent txn m 0 (txn_first txn TbSpent) = Some (Inr (c m))" by metis
  then show ?thesis by (simp add: accumulator_build_shards_def estimate_spent_set_bytes_def Let_def)
qed

section \<open>The rows the rebuild puts\<close>

context fixed_encoded_len
begin

text \<open>An entry that is made and encoded at the newest version reads back, and verifies.\<close>

lemma fixed_put:
  assumes ok: "ok x" and len: "len (VERSION S) = Some n" and body: "serialize S x = Inr body"
    and digest: "length (blake2b (key @ body)) = 32"
  obtains e row where "fixed_new blake2b S key x = Inr e" and "to_bytes (fixed_serde S len) e = Inr row"
    and "from_bytes (fixed_serde S len) row = Inr e" and "sef_item e = x" and "fixed_verify blake2b S key e = Some True"
proof -
  let ?e = "\<lparr>sef_item = x, sef_checksum = blake2b (key @ body)\<rparr>"
  from body have bs: "to_bytes_with_version S x (VERSION S) = Inr body"
    by (simp add: serialize_def to_bytes_with_version_def)
  from fixed_row [OF ok bs len, of blake2b key] digest obtain row y where
    y: "fixed_to_bytes_with_item_version blake2b S len key x (VERSION S) = Inr row"
      "from_bytes (fixed_serde S len) row = Inr \<lparr>sef_item = y, sef_checksum = blake2b (key @ body)\<rparr>"
      "fixed_verify blake2b S key \<lparr>sef_item = y, sef_checksum = blake2b (key @ body)\<rparr> = Some True"
      "ok y" "to_bytes_with_version S y (VERSION S) = Inr body" by blast
  from same_bytes_same_value [OF ok y(4) body y(5)] have "y = x" .
  moreover have "to_bytes (fixed_serde S len) ?e = Inr row"
    using y(1) bs body len
    by (auto simp: fixed_to_bytes_with_item_version_def fixed_serde_def to_bytes_def to_bytes_with_version_def
        serialize_with_version_def encode_body_def serde_v1_def fixed_encode_v1_def latest_versioned_len_def
        versioned_len_def V1_def write_fixed_le_def latest_encoded_len_def bindE_eq_Inr split: if_splits)
  ultimately show thesis using that [of ?e row] y(2,3) body by (simp add: fixed_new_def)
qed

end

text \<open>The reads of a database after a transaction that puts rows has committed.\<close>

definition committed :: "put list \<Rightarrow> lmdb_txn \<Rightarrow> lmdb_txn" where
  "committed puts txn =
     fold (\<lambda>(table, key, val) txn. txn\<lparr>txn_get := (txn_get txn)(table := (txn_get txn table)(key := Inr val))\<rparr>) puts txn"

definition holds_tip :: "lmdb_txn \<Rightarrow> chain_tx list list \<Rightarrow> bool" where
  "holds_tip txn chain \<longleftrightarrow>
     (if chain = [] then txn_last txn TbHeaders = Inl NotFound
      else \<exists>key. txn_last txn TbHeaders = Inr key
        \<and> to_bytes height_serde (DbHeight (of_nat (length chain - 1))) = Inr key)"

lemma accumulator_put:
  assumes "length (fta_hash_serialized acc) = 32" and digest: "\<And>x. length (blake2b x) = 32"
  obtains bytes where "put_tx_out_set_accumulator blake2b acc
      = Inr (TbTxOutSetInfoAccumulator, TX_OUT_SET_INFO_ACCUMULATOR_KEY, bytes)"
    and "\<And>txn. txn_get txn TbTxOutSetInfoAccumulator TX_OUT_SET_INFO_ACCUMULATOR_KEY = Inr bytes \<Longrightarrow>
      get_tx_out_set_info_accumulator blake2b (Inr txn) = Inr acc"
proof -
  have "\<exists>body. serialize accumulator_serde acc = Inr body"
    by (simp add: serialize_def serialize_with_version_def encode_body_def accumulator_serde_def serde_v1_def V1_def
        accumulator_encode_v1_def)
  then obtain body where body: "serialize accumulator_serde acc = Inr body" ..
  have len: "accumulator_encoded_len (VERSION accumulator_serde) = Some 64"
    by (simp add: accumulator_encoded_len_def accumulator_serde_def serde_v1_def)
  from accumulator.fixed_put [OF assms(1) len body] digest obtain e row where
    "fixed_new blake2b accumulator_serde TX_OUT_SET_INFO_ACCUMULATOR_KEY acc = Inr e"
    "to_bytes (fixed_serde accumulator_serde accumulator_encoded_len) e = Inr row"
    "from_bytes (fixed_serde accumulator_serde accumulator_encoded_len) row = Inr e" "sef_item e = acc"
    "fixed_verify blake2b accumulator_serde TX_OUT_SET_INFO_ACCUMULATOR_KEY e = Some True" by metis
  then show thesis
    using that [of row] by (simp add: put_tx_out_set_accumulator_def get_tx_out_set_info_accumulator_def)
qed

lemma watermark_put:
  assumes "db_height_ok h" and digest: "\<And>x. length (blake2b x) = 32"
  obtains bytes where "put_tx_out_set_accumulator_watermark blake2b h
      = Inr (TbMetadata, TX_OUT_SET_ACCUMULATOR_BUILT_HEIGHT_KEY, bytes)"
    and "\<And>txn. txn_get txn TbMetadata TX_OUT_SET_ACCUMULATOR_BUILT_HEIGHT_KEY = Inr bytes \<Longrightarrow>
      read_tx_out_set_accumulator_built_height blake2b (Inr txn) = Inr (Some h)"
proof -
  have "\<exists>body. serialize height_serde h = Inr body"
    by (simp add: serialize_def serialize_with_version_def encode_body_def height_serde_def serde_v1_def V1_def
        height_encode_v1_def)
  then obtain body where body: "serialize height_serde h = Inr body" ..
  have len: "height_encoded_len (VERSION height_serde) = Some 4"
    by (simp add: height_encoded_len_def height_serde_def serde_v1_def)
  from height.fixed_put [OF assms(1) len body] digest obtain e row where
    "fixed_new blake2b height_serde TX_OUT_SET_ACCUMULATOR_BUILT_HEIGHT_KEY h = Inr e"
    "to_bytes (fixed_serde height_serde height_encoded_len) e = Inr row"
    "from_bytes (fixed_serde height_serde height_encoded_len) row = Inr e" "sef_item e = h"
    "fixed_verify blake2b height_serde TX_OUT_SET_ACCUMULATOR_BUILT_HEIGHT_KEY e = Some True" by metis
  then show thesis
    using that [of row] by (simp add: put_tx_out_set_accumulator_watermark_def read_tx_out_set_accumulator_built_height_def)
qed

section \<open>The rebuild\<close>

definition spent_cap :: "u64 \<Rightarrow> u64" where
  "spent_cap memory_size = max (max memory_size 1 div SPENT_SET_ENTRY_BYTES_ESTIMATE) 1"

lemma holds_tip_reads:
  assumes "holds_tip txn chain" and "holds_chain blake2b txn chain" and "chain \<noteq> []"
  shows "db_height_ok (DbHeight (of_nat (length chain - 1)))"
    and "tip_height (Inr txn) = Inr (Some (DbHeight (of_nat (length chain - 1))))"
proof -
  from assms(2,3) have "db_height_try_from (of_nat (length chain - 1)) = Inr (DbHeight (of_nat (length chain - 1)))"
    unfolding holds_chain_def row_at_def by (cases chain) auto
  then show ok: "db_height_ok (DbHeight (of_nat (length chain - 1)))"
    by (auto simp: db_height_try_from_def db_height_ok_def split: if_splits)
  from assms(1,3) obtain key where "txn_last txn TbHeaders = Inr key"
    "to_bytes height_serde (DbHeight (of_nat (length chain - 1))) = Inr key" by (auto simp: holds_tip_def)
  with height.from_to_bytes [OF ok] show "tip_height (Inr txn) = Inr (Some (DbHeight (of_nat (length chain - 1))))"
    by (simp add: tip_height_def)
qed

text \<open>Putting an accumulator and its height, and reading both back once they are committed.\<close>

definition put_both :: "(u8 list \<Rightarrow> u8 list) \<Rightarrow> db_height \<Rightarrow> finalised_accumulator \<Rightarrow> store_error + put list" where
  "put_both blake2b tip acc =
     bindE (put_tx_out_set_accumulator blake2b acc) (\<lambda>row.
     bindE (put_tx_out_set_accumulator_watermark blake2b tip) (\<lambda>watermark. Inr [row, watermark]))"

lemma put_both_reads:
  assumes hash: "length (fta_hash_serialized acc) = 32" and tip: "db_height_ok tip" and digest: "\<And>x. length (blake2b x) = 32"
  obtains puts where "put_both blake2b tip acc = Inr puts"
    and "\<And>txn. get_tx_out_set_info_accumulator blake2b (Inr (committed puts txn)) = Inr acc"
    and "\<And>txn. read_tx_out_set_accumulator_built_height blake2b (Inr (committed puts txn)) = Inr (Some tip)"
proof -
  obtain row where row: "put_tx_out_set_accumulator blake2b acc
        = Inr (TbTxOutSetInfoAccumulator, TX_OUT_SET_INFO_ACCUMULATOR_KEY, row)"
    "\<And>txn. txn_get txn TbTxOutSetInfoAccumulator TX_OUT_SET_INFO_ACCUMULATOR_KEY = Inr row \<Longrightarrow>
      get_tx_out_set_info_accumulator blake2b (Inr txn) = Inr acc"
    by (rule accumulator_put [where blake2b = blake2b, OF hash digest]) blast
  obtain mark where mark: "put_tx_out_set_accumulator_watermark blake2b tip
        = Inr (TbMetadata, TX_OUT_SET_ACCUMULATOR_BUILT_HEIGHT_KEY, mark)"
    "\<And>txn. txn_get txn TbMetadata TX_OUT_SET_ACCUMULATOR_BUILT_HEIGHT_KEY = Inr mark \<Longrightarrow>
      read_tx_out_set_accumulator_built_height blake2b (Inr txn) = Inr (Some tip)"
    by (rule watermark_put [where blake2b = blake2b, OF tip digest]) blast
  let ?puts = "[(TbTxOutSetInfoAccumulator, TX_OUT_SET_INFO_ACCUMULATOR_KEY, row),
    (TbMetadata, TX_OUT_SET_ACCUMULATOR_BUILT_HEIGHT_KEY, mark)]"
  show thesis
    by (rule that [of ?puts]) (simp_all add: put_both_def row mark committed_def)
qed

lemma rebuild_run:
  assumes digest: "\<And>x. length (blake2b x) = 32"
    and chain: "chain \<noteq> []" "holds_chain blake2b txn chain" "holds_tip txn chain" and spent: "holds_spent txn spent"
  obtains r where "rebuild_tx_out_set_accumulator blake2b (Inr txn) memory_size =
      Some (bindE r (put_both blake2b (DbHeight (of_nat (length chain - 1)))))"
    and "built blake2b spent (spent_cap memory_size) {..<256} (live spent (concat chain)) (live_txs spent (concat chain)) r"
proof -
  let ?tip = "DbHeight (of_nat (length chain - 1))"
  obtain shards where shards: "accumulator_build_shards (Inr txn) (max memory_size 1) = Some (Inr shards)"
    using build_shards_returns [OF spent] by blast
  have cap: "max (spent_cap memory_size) 1 = spent_cap memory_size" by (simp add: spent_cap_def)
  obtain r where r: "build_tx_out_set_accumulator_blocking blake2b (Inr txn) ?tip shards (spent_cap memory_size) = Some r"
    and b: "built blake2b spent (spent_cap memory_size) {..<256} (live spent (concat chain)) (live_txs spent (concat chain)) r"
    using build_built [where blake2b = blake2b, OF digest chain(2,1) spent, of shards "spent_cap memory_size"] unfolding cap by blast
  show thesis
    by (rule that [OF _ b])
      (use holds_tip_reads(2) [OF chain(3,2,1)] shards r in
        \<open>simp add: rebuild_tx_out_set_accumulator_def spent_cap_def Let_def put_both_def [abs_def]\<close>)
qed

text \<open>C3. The bulk rebuild gives the accumulator of the chain's unspent outputs. On a database
  that holds a chain and its spent outpoints, for every memory size, the rebuild returns. When
  the spent outpoints under each first byte of a transaction identifier are within the cap the
  memory size gives, it commits an accumulator that holds the digest, count, size and value of
  exactly the spendable unspent outputs, and the number of transactions that have one, so the
  partition into shards and the memory size do not show in the result; the accumulator and the
  height it was built to read back from the committed database with their checksums. Otherwise
  it puts nothing and reports a first byte that exceeds the cap.
\<close>

theorem rebuild_correct:
  assumes digest: "\<And>x. length (blake2b x) = 32"
    and chain: "chain \<noteq> []" "holds_chain blake2b txn chain" "holds_tip txn chain" and spent: "holds_spent txn spent"
    and fit: "fits (live spent (concat chain))"
  shows "\<exists>r. rebuild_tx_out_set_accumulator blake2b (Inr txn) memory_size = Some r
    \<and> (if \<forall>b < 256. card (spent_in b (Suc b) spent) \<le> unat (spent_cap memory_size)
       then \<exists>puts acc. r = Inr puts
         \<and> commits blake2b acc (live spent (concat chain)) \<and> unat (fta_transactions acc) = live_txs spent (concat chain)
         \<and> get_tx_out_set_info_accumulator blake2b (Inr (committed puts txn)) = Inr acc
         \<and> read_tx_out_set_accumulator_built_height blake2b (Inr (committed puts txn))
             = Inr (Some (DbHeight (of_nat (length chain - 1))))
       else \<exists>b < 256. unat (spent_cap memory_size) < card (spent_in b (Suc b) spent)
         \<and> r = Inl (over_budget b (spent_cap memory_size)))"
proof -
  let ?tip = "DbHeight (of_nat (length chain - 1))"
  obtain r where run: "rebuild_tx_out_set_accumulator blake2b (Inr txn) memory_size = Some (bindE r (put_both blake2b ?tip))"
    and b: "built blake2b spent (spent_cap memory_size) {..<256} (live spent (concat chain)) (live_txs spent (concat chain)) r"
    using rebuild_run [where blake2b = blake2b, OF digest chain spent] by metis
  show ?thesis
  proof (cases r)
    case (Inl e)
    with b fit run show ?thesis by (auto simp: built_def not_le)
  next
    case (Inr acc)
    with b have acc: "commits blake2b acc (live spent (concat chain))" "unat (fta_transactions acc) = live_txs spent (concat chain)"
      "\<forall>b < 256. card (spent_in b (Suc b) spent) \<le> unat (spent_cap memory_size)" by (auto simp: built_def described_def)
    then have hash: "length (fta_hash_serialized acc) = 32" by (simp add: commits_def)
    obtain puts where "put_both blake2b ?tip acc = Inr puts"
      "get_tx_out_set_info_accumulator blake2b (Inr (committed puts txn)) = Inr acc"
      "read_tx_out_set_accumulator_built_height blake2b (Inr (committed puts txn)) = Inr (Some ?tip)"
      using put_both_reads [where blake2b = blake2b, OF hash holds_tip_reads(1) [OF chain(3,2,1)] digest] by metis
    with run Inr acc show ?thesis by auto
  qed
qed

text \<open>One block with one output of 5 zatoshis, and a spent outpoint of another transaction.\<close>

definition example_spent :: db_outpoint where
  "example_spent = \<lparr>dop_prev_txid = replicate 32 9, dop_prev_index = 0\<rparr>"

definition example_db :: lmdb_txn where
  "example_db = (let keys = (\<lambda>table. if table = TbSpent then [spent_key example_spent] else []) in example_txn\<lparr>
     txn_first := (\<lambda>table. first_key (keys table)),
     txn_set_range := (\<lambda>table k. first_key (dropWhile (\<lambda>k'. k' < k) (keys table))),
     txn_next := (\<lambda>table k. first_key (dropWhile (\<lambda>k'. k' \<le> k) (keys table))),
     txn_last := (\<lambda>table. if table = TbHeaders then Inr [1, 0, 0, 0, 0] else Inl NotFound)\<rparr>)"

definition example_chain :: "chain_tx list list" where
  "example_chain = [zip (txl_txids example_txids) (ttl_tx example_transparent)]"

lemma example_db_row: "row_at blake2b S example_txn table h item \<Longrightarrow> row_at blake2b S example_db table h item"
  by (simp add: row_at_def example_db_def Let_def)

lemma example_db_holds:
  "holds_chain zero_digest example_db example_chain" "holds_tip example_db example_chain"
  "holds_spent example_db {example_spent}"
proof -
  have chain: "length example_chain = 1" "TxidList (map fst (example_chain ! 0)) = example_txids"
    "TransparentTxList (map snd (example_chain ! 0)) = example_transparent"
    by (simp_all add: example_chain_def example_txids_def example_transparent_def)
  have "txid_list_ok example_txids" "transparent_list_ok example_transparent"
    by (simp_all add: example_txids_def txid_list_ok_def transaction_hash_ok_def example_transparent_def
        transparent_list_ok_def transparent_ok_def tx_out_ok_def script_type_try_from_def vec_ok_def MAX_COMPACT_SIZE_def)
  then show "holds_chain zero_digest example_db example_chain"
    using example_db_row [OF example_txids_row] example_db_row [OF example_transparent_row]
    by (simp add: holds_chain_def chain)
  show "holds_tip example_db example_chain"
    by (simp add: holds_tip_def example_chain_def example_db_def Let_def example_encoding to_bytes_def to_bytes_with_version_def
        height_serde_def height_encode_v1_def write_u32_be_def to_be_def numeral_eq_Suc)
  show "holds_spent example_db {example_spent}"
    unfolding holds_spent_def
    by (intro conjI exI [of _ "[spent_key example_spent]"])
      (simp_all add: walks_def example_db_def Let_def db_outpoint_ok_def example_spent_def)
qed

theorem rebuild_correct_witness:
  "\<exists>puts acc. rebuild_tx_out_set_accumulator zero_digest (Inr example_db) 1024 = Some (Inr puts)
    \<and> get_tx_out_set_info_accumulator zero_digest (Inr (committed puts example_db)) = Inr acc
    \<and> unat (fta_total_zatoshis acc) = 5 \<and> unat (fta_transactions acc) = 1"
proof -
  have chain: "example_chain \<noteq> []" by (simp add: example_chain_def)
  have live: "live {example_spent} (concat example_chain) =
      {#(\<lparr>dop_prev_txid = replicate 32 7, dop_prev_index = 0\<rparr>, \<lparr>toc_value = 5, toc_script_hash = replicate 20 3, toc_script_type = 0\<rparr>)#}"
    "live_txs {example_spent} (concat example_chain) = 1"
    by (simp_all add: example_chain_def example_txids_def example_transparent_def tx_utxos_def unspent_def example_spent_def
        is_unspendable_tx_out_def script_type_enum_def script_type_try_from_def)
  have "card (spent_in b (Suc b) {example_spent}) \<le> unat (spent_cap 1024)" for b
  proof -
    have "card (spent_in b (Suc b) {example_spent}) \<le> card {example_spent}"
      by (rule card_mono) (auto simp: spent_in_def)
    moreover have "unat (spent_cap 1024) = 4" by (simp add: spent_cap_def SPENT_SET_ENTRY_BYTES_ESTIMATE_def)
    ultimately show ?thesis by simp
  qed
  with rebuild_correct [of zero_digest example_chain example_db "{example_spent}" 1024] chain example_db_holds live show ?thesis
    by (force simp: zero_digest_def fits_def commits_def)
qed

end
