(* ===== verification/Zaino_Txout_Update_Theorems.thy ===== *)
theory Zaino_Txout_Update_Theorems
  imports Zaino_Txout_Update Zaino_Txout_Rebuild_Correct
begin

text \<open>
  The incremental update of \<open>Zaino_Txout_Update\<close> against the specification of the bulk
  rebuild: from the accumulator of a chain's first blocks it makes the accumulator of the
  whole chain.
\<close>

section \<open>Outputs and spends of a chain\<close>

definition created :: "chain_tx list \<Rightarrow> utxo list" where
  "created txs = concat (map tx_utxos txs)"

definition spends_of :: "chain_tx \<Rightarrow> db_outpoint list" where
  "spends_of tx = (case snd tx of None \<Rightarrow> [] | Some t \<Rightarrow> spent_outpoints t)"

definition chain_spends :: "chain_tx list \<Rightarrow> db_outpoint list" where
  "chain_spends txs = concat (map spends_of txs)"

abbreviation txid_of :: "chain_tx \<Rightarrow> u8 list" where
  "txid_of tx \<equiv> dth_bytes (fst tx)"

lemma created_simps [simp]:
  "created [] = []" "created (tx # txs) = tx_utxos tx @ created txs" "created (txs @ txs') = created txs @ created txs'"
  by (simp_all add: created_def)

lemma chain_spends_simps [simp]:
  "chain_spends [] = []" "chain_spends (tx # txs) = spends_of tx @ chain_spends txs"
  "chain_spends (txs @ txs') = chain_spends txs @ chain_spends txs'"
  by (simp_all add: chain_spends_def)

lemma live_created: "live spent txs = filter_mset (\<lambda>u. fst u \<notin> spent) (mset (created txs))"
  by (induction txs) (simp_all add: unspent_def mset_filter)

lemma out_utxos_nth:
  "u \<in> set (out_utxos txid i outs) \<longleftrightarrow>
     (\<exists>j < length outs. \<not> is_unspendable_tx_out (outs ! j)
        \<and> u = (\<lparr>dop_prev_txid = txid, dop_prev_index = of_nat (i + j)\<rparr>, outs ! j))"
proof (induction outs arbitrary: i)
  case (Cons out outs)
  let ?P = "\<lambda>i outs j. \<not> is_unspendable_tx_out (outs ! j)
    \<and> u = (\<lparr>dop_prev_txid = txid, dop_prev_index = of_nat (i + j)\<rparr>, outs ! j)"
  have "(\<exists>j < length (out # outs). ?P i (out # outs) j) \<longleftrightarrow> ?P i (out # outs) 0 \<or> (\<exists>j < length outs. ?P (i + 1) outs j)"
    unfolding length_Cons Ex_less_Suc2 by simp
  then show ?case using Cons.IH [of "i + 1"] by (simp only: out_utxos.simps set_append Un_iff) auto
qed simp

lemma out_utxos_distinct:
  "i + length outs \<le> 2 ^ 32 \<Longrightarrow> distinct (map fst (out_utxos txid i outs))"
proof (induction outs arbitrary: i)
  case (Cons out outs)
  have "(\<lparr>dop_prev_txid = txid, dop_prev_index = of_nat i\<rparr>) \<notin> fst ` set (out_utxos txid (i + 1) outs)"
  proof
    assume "(\<lparr>dop_prev_txid = txid, dop_prev_index = of_nat i\<rparr>) \<in> fst ` set (out_utxos txid (i + 1) outs)"
    then obtain j where "j < length outs" "(of_nat i :: u32) = of_nat (i + 1 + j)" by (auto simp: out_utxos_nth)
    from this(1) arg_cong [where f = unat, OF this(2)] Cons.prems show False by (simp only: unat_of_nat) simp
  qed
  with Cons show ?case by auto
qed simp

text \<open>A chain whose identifiers are all different, of 32 bytes, and whose output lists a row can hold.\<close>

definition txs_ok :: "chain_tx list \<Rightarrow> bool" where
  "txs_ok txs \<longleftrightarrow> distinct (map txid_of txs) \<and> (\<forall>tx \<in> set txs. length (txid_of tx) = 32
     \<and> (case snd tx of None \<Rightarrow> True | Some t \<Rightarrow> length (tct_vout t) \<le> 2 ^ 32))"

lemma tx_utxos_nth:
  "u \<in> set (tx_utxos tx) \<longleftrightarrow> (\<exists>t j. snd tx = Some t \<and> j < length (tct_vout t) \<and> \<not> is_unspendable_tx_out (tct_vout t ! j)
     \<and> u = (\<lparr>dop_prev_txid = txid_of tx, dop_prev_index = of_nat j\<rparr>, tct_vout t ! j))"
  by (cases "snd tx") (auto simp: tx_utxos_def out_utxos_nth)

lemma created_member: "u \<in> set (created txs) \<longleftrightarrow> (\<exists>tx \<in> set txs. u \<in> set (tx_utxos tx))"
  by (auto simp: created_def)

lemma created_distinct: "txs_ok txs \<Longrightarrow> distinct (map fst (created txs))"
proof (induction txs)
  case (Cons tx txs)
  then have ok: "txs_ok txs" by (simp add: txs_ok_def)
  have "distinct (map fst (tx_utxos tx))"
    using Cons.prems out_utxos_distinct [of 0] by (auto simp: txs_ok_def tx_utxos_def split: option.splits)
  moreover have "fst u \<noteq> fst v" if u: "u \<in> set (tx_utxos tx)" and v: "v \<in> set (created txs)" for u v
  proof -
    from v obtain tx' where "tx' \<in> set txs" "v \<in> set (tx_utxos tx')" by (auto simp: created_member)
    then have "dop_prev_txid (fst v) \<in> txid_of ` set txs" by (simp add: tx_utxos_txid)
    moreover have "txid_of tx \<notin> txid_of ` set txs" using Cons.prems by (simp add: txs_ok_def)
    ultimately show ?thesis using tx_utxos_txid [OF u] by metis
  qed
  ultimately show ?case using Cons.IH [OF ok] by (auto simp: disjoint_iff)
qed simp

lemma created_ok: "txs_ok txs \<Longrightarrow> u \<in> set (created txs) \<Longrightarrow> db_outpoint_ok (fst u)"
  by (auto simp: created_member txs_ok_def db_outpoint_ok_def tx_utxos_nth)

section \<open>The scan of the range\<close>

definition grouped :: "u8 list \<Rightarrow> utxo list \<Rightarrow> (u8 list, db_outpoint list) hmap \<Rightarrow> (u8 list, db_outpoint list) hmap" where
  "grouped txid us m =
     (if us = [] then m else hm_insert txid ((case hm_get m txid of None \<Rightarrow> [] | Some os \<Rightarrow> os) @ map fst us) m)"

lemma hm_insert_twice: "hm_insert k v (hm_insert k v' m) = hm_insert k v m"
  by (induction m) (auto simp: hm_insert_def)

lemma hm_insert_fresh: "k \<notin> fst ` set m \<Longrightarrow> hm_insert k v m = m @ [(k, v)]"
  by (induction m) (auto simp: hm_insert_def)

lemma grouped_Cons:
  "grouped txid us (hm_insert txid ((case hm_get m txid of None \<Rightarrow> [] | Some os \<Rightarrow> os) @ [fst u]) m) = grouped txid (u # us) m"
  by (auto simp: grouped_def hm_get_insert hm_insert_twice)

abbreviation noted :: "utxo list \<Rightarrow> (u8 list, tx_out_compact) hmap \<Rightarrow> (u8 list, tx_out_compact) hmap" where
  "noted us m \<equiv> fold (\<lambda>u. hm_insert (spent_key (fst u)) (snd u)) us m"

abbreviation add_all :: "(u8 list \<Rightarrow> u8 list) \<Rightarrow> utxo list \<Rightarrow> finalised_accumulator \<Rightarrow> store_error + finalised_accumulator" where
  "add_all blake2b us acc \<equiv>
     map_err (\<lambda>e. Custom (ade_message e)) (foldE (\<lambda>u. apply_added_output blake2b (fst u) (snd u)) us acc)"

abbreviation remove_all :: "(u8 list \<Rightarrow> u8 list) \<Rightarrow> utxo list \<Rightarrow> finalised_accumulator \<Rightarrow> store_error + finalised_accumulator" where
  "remove_all blake2b us acc \<equiv>
     map_err (\<lambda>e. Custom (ade_message e)) (foldE (\<lambda>u. apply_removed_output blake2b (fst u) (snd u)) us acc)"

lemma add_all_append: "add_all blake2b (us @ vs) acc = bindE (add_all blake2b us acc) (add_all blake2b vs)"
  by (cases "foldE (\<lambda>u. apply_added_output blake2b (fst u) (snd u)) us acc") (simp_all add: foldE_append)

lemma range_outputs_fold:
  "range_outputs blake2b txid i outs st = bindE (add_all blake2b (out_utxos txid i outs) (rs_accumulator st)) (\<lambda>acc.
     Inr (st\<lparr>rs_accumulator := acc, rs_outputs := noted (out_utxos txid i outs) (rs_outputs st),
       rs_created := grouped txid (out_utxos txid i outs) (rs_created st)\<rparr>))"
proof (induction outs arbitrary: i st)
  case Nil
  then show ?case by (simp add: grouped_def)
next
  case (Cons out outs)
  let ?u = "(\<lparr>dop_prev_txid = txid, dop_prev_index = of_nat i\<rparr>, out)"
  show ?case
  proof (cases "is_unspendable_tx_out out")
    case True
    then show ?thesis using Cons.IH [of "i + 1"] by simp
  next
    case False
    then show ?thesis
      using Cons.IH [of "i + 1"] grouped_Cons [of txid "out_utxos txid (i + 1) outs" "rs_created st" ?u]
      by (cases "apply_added_output blake2b (fst ?u) out (rs_accumulator st)")
        (simp_all add: Let_def outpoint_key spent_key_def)
  qed
qed

definition scan_tx :: "chain_tx \<Rightarrow> range_scan \<Rightarrow> range_scan" where
  "scan_tx tx st = st\<lparr>rs_txids := List.insert (txid_of tx) (rs_txids st), rs_outputs := noted (tx_utxos tx) (rs_outputs st),
     rs_created := grouped (txid_of tx) (tx_utxos tx) (rs_created st), rs_spends := rs_spends st @ spends_of tx\<rparr>"

lemma scan_tx_accumulator [simp]:
  "rs_accumulator (scan_tx tx st) = rs_accumulator st"
  "scan_tx tx (st\<lparr>rs_accumulator := acc\<rparr>) = (scan_tx tx st)\<lparr>rs_accumulator := acc\<rparr>"
  by (simp_all add: scan_tx_def)

lemma fold_scan_accumulator [simp]: "rs_accumulator (fold scan_tx txs st) = rs_accumulator st"
  by (induction txs arbitrary: st) simp_all

lemma fold_scan_set_accumulator [simp]:
  "fold scan_tx txs (st\<lparr>rs_accumulator := acc\<rparr>) = (fold scan_tx txs st)\<lparr>rs_accumulator := acc\<rparr>"
  by (induction txs arbitrary: st) simp_all

lemma range_txs_step:
  assumes "k < length txids"
  shows "range_txs blake2b h txids k (tx # txs) st =
    bindE (add_all blake2b (tx_utxos (txids ! k, tx)) (rs_accumulator st)) (\<lambda>acc.
      range_txs blake2b h txids (k + 1) txs ((scan_tx (txids ! k, tx) st)\<lparr>rs_accumulator := acc\<rparr>))"
proof (cases tx)
  case None
  then show ?thesis using assms by (simp add: scan_tx_def tx_utxos_def spends_of_def grouped_def Let_def)
next
  case (Some t)
  let ?us = "out_utxos (dth_bytes (txids ! k)) 0 (tct_vout t)"
  show ?thesis
    using assms Some
    by (cases st; cases "add_all blake2b ?us (rs_accumulator st)")
      (simp_all add: scan_tx_def tx_utxos_def spends_of_def Let_def range_outputs_fold)
qed

lemma range_txs_fold:
  assumes "k + length txs = length txids"
  shows "range_txs blake2b h txids k txs st =
    bindE (add_all blake2b (created (zip (drop k txids) txs)) (rs_accumulator st)) (\<lambda>acc.
      Inr ((fold scan_tx (zip (drop k txids) txs) st)\<lparr>rs_accumulator := acc\<rparr>))"
  using assms
proof (induction txs arbitrary: k st)
  case (Cons tx txs)
  then have k: "k < length txids" by simp
  then have zip: "zip (drop k txids) (tx # txs) = (txids ! k, tx) # zip (drop (k + 1) txids) txs"
    by (simp add: Cons_nth_drop_Suc [symmetric])
  have "k + 1 + length txs = length txids" using Cons.prems by simp
  note IH = Cons.IH [OF this]
  show ?case
    unfolding range_txs_step [OF k] zip created_simps add_all_append IH
    by (cases "add_all blake2b (tx_utxos (txids ! k, tx)) (rs_accumulator st)") simp_all
qed simp

lemma range_blocks_fold:
  assumes digest: "\<And>x. length (blake2b x) = 32" and chain: "holds_chain blake2b txn chain" and "h + m \<le> length chain"
  shows "range_blocks blake2b txn m (of_nat h) st =
    bindE (add_all blake2b (created (concat (take m (drop h chain)))) (rs_accumulator st)) (\<lambda>acc.
      Inr ((fold scan_tx (concat (take m (drop h chain))) st)\<lparr>rs_accumulator := acc\<rparr>))"
  using assms(3)
proof (induction m arbitrary: h st)
  case (Suc m)
  then have h: "h < length chain" by simp
  let ?b = "chain ! h" and ?rest = "concat (take m (drop (Suc h) chain))"
  have blocks: "concat (take (Suc m) (drop h chain)) = ?b @ ?rest"
    using h by (simp add: Cons_nth_drop_Suc [symmetric])
  obtain key where key: "to_bytes height_serde (DbHeight (of_nat h)) = Inr key"
    "read_transparent_row blake2b txn key = Inr (map snd ?b)" "read_txids_row blake2b txn key = Inr (map fst ?b)"
    using holds_chain_reads [OF chain h] digest by metis
  have txs: "range_txs blake2b (of_nat h) (map fst ?b) 0 (map snd ?b) st =
    bindE (add_all blake2b (created ?b) (rs_accumulator st)) (\<lambda>acc. Inr ((fold scan_tx ?b st)\<lparr>rs_accumulator := acc\<rparr>))"
    using range_txs_fold [of 0 "map snd ?b" "map fst ?b"] by (simp add: zip_map_fst_snd)
  have nxt: "(of_nat h :: u32) + 1 = of_nat (Suc h)" by simp
  have IH: "range_blocks blake2b txn m (of_nat (Suc h)) st = bindE (add_all blake2b (created ?rest) (rs_accumulator st)) (\<lambda>acc.
      Inr ((fold scan_tx ?rest st)\<lparr>rs_accumulator := acc\<rparr>))" for st
    by (rule Suc.IH) (use Suc.prems in simp)
  show ?case
    unfolding blocks created_simps add_all_append range_blocks.simps key map_err_simps bindE_simps txs nxt IH
    by (cases "add_all blake2b (created ?b) (rs_accumulator st)") simp_all
qed simp

text \<open>What the scan has collected.\<close>

lemma scan_spends: "rs_spends (fold scan_tx txs st) = rs_spends st @ chain_spends txs"
  by (induction txs arbitrary: st) (simp_all add: scan_tx_def)

lemma scan_txids: "set (rs_txids (fold scan_tx txs st)) = set (rs_txids st) \<union> txid_of ` set txs"
  by (induction txs arbitrary: st) (auto simp: scan_tx_def)

lemma scan_outputs: "rs_outputs (fold scan_tx txs st) = noted (created txs) (rs_outputs st)"
  by (induction txs arbitrary: st) (simp_all add: scan_tx_def)

lemma scan_created:
  assumes "distinct (map txid_of txs)" and "txid_of ` set txs \<inter> fst ` set (rs_created st) = {}"
  shows "rs_created (fold scan_tx txs st) =
    rs_created st @ map (\<lambda>tx. (txid_of tx, map fst (tx_utxos tx))) (filter (\<lambda>tx. tx_utxos tx \<noteq> []) txs)"
  using assms
proof (induction txs arbitrary: st)
  case (Cons tx txs)
  then have fresh: "txid_of tx \<notin> fst ` set (rs_created st)" by auto
  then have "hm_get (rs_created st) (txid_of tx) = None" by (simp add: hm_get_def map_of_eq_None_iff)
  with fresh have step: "rs_created (scan_tx tx st) =
      rs_created st @ (if tx_utxos tx = [] then [] else [(txid_of tx, map fst (tx_utxos tx))])"
    by (simp add: scan_tx_def grouped_def hm_insert_fresh)
  then have "txid_of ` set txs \<inter> fst ` set (rs_created (scan_tx tx st)) = {}" using Cons.prems by auto
  from Cons.IH [OF _ this] Cons.prems(1) step show ?case by simp
qed simp

lemma noted_get: "hm_get (noted us m) k = (hm_get m ++ map_of (map (\<lambda>u. (spent_key (fst u), snd u)) (rev us))) k"
proof (induction us arbitrary: m)
  case (Cons u us)
  have "hm_get (hm_insert (spent_key (fst u)) (snd u) m) = (hm_get m)(spent_key (fst u) \<mapsto> snd u)"
    by (rule ext) (simp add: hm_get_insert)
  then show ?case using Cons.IH by (simp add: map_add_def split: option.splits)
qed simp

text \<open>The output at an outpoint, as the specification finds it.\<close>

definition output_of :: "chain_tx list \<Rightarrow> db_outpoint \<Rightarrow> tx_out_compact option" where
  "output_of txs o1 = map_of (created txs) o1"

lemma option_ext: "(\<And>x. a = Some x \<longleftrightarrow> b = Some x) \<Longrightarrow> a = b"
  by (cases a; cases b) (force+)

lemma map_of_rev: "distinct (map fst kv) \<Longrightarrow> map_of (rev kv) = map_of kv"
  by (rule ext, rule option_ext) (simp add: rev_map [symmetric])

lemma output_of_eq:
  assumes "txs_ok txs"
  shows "output_of txs o1 = Some out \<longleftrightarrow> (o1, out) \<in> set (created txs)"
  using created_distinct [OF assms] by (simp add: output_of_def)

lemma scanned_output:
  assumes ok: "txs_ok txs" and o1: "db_outpoint_ok o1"
  shows "hm_get (noted (created txs) []) (spent_key o1) = output_of txs o1"
proof -
  let ?kv = "map (\<lambda>u. (spent_key (fst u), snd u)) (created txs)"
  have "inj_on spent_key (fst ` set (created txs))"
    using created_ok [OF ok] spent_key_inject by (auto simp: inj_on_def)
  then have "distinct (map spent_key (map fst (created txs)))"
    using created_distinct [OF ok] by (simp only: distinct_map set_map)
  then have d: "distinct (map fst ?kv)" by (simp add: comp_def)
  have same: "spent_key (fst u) = spent_key o1 \<longleftrightarrow> fst u = o1" if "u \<in> set (created txs)" for u
    by (rule spent_key_inject [OF created_ok [OF ok that] o1])
  have "map_of ?kv (spent_key o1) = Some out \<longleftrightarrow> output_of txs o1 = Some out" for out
  proof -
    have "map_of ?kv (spent_key o1) = Some out \<longleftrightarrow> (\<exists>u \<in> set (created txs). spent_key (fst u) = spent_key o1 \<and> snd u = out)"
      unfolding map_of_eq_Some_iff [OF d] set_map image_iff by (rule bex_cong) auto
    also have "\<dots> \<longleftrightarrow> (o1, out) \<in> set (created txs)" using same by force
    finally show ?thesis using output_of_eq [OF ok] by simp
  qed
  then have "map_of ?kv (spent_key o1) = output_of txs o1" by (rule option_ext)
  moreover have "map_of (map (\<lambda>u. (spent_key (fst u), snd u)) (rev (created txs))) = map_of ?kv"
    using map_of_rev [OF d] by (simp add: rev_map)
  ultimately show ?thesis by (simp add: noted_get map_add_def split: option.splits)
qed

section \<open>A database with its indexes\<close>

text \<open>
  The reads of the spent table, and the index from identifiers to locations: each transaction
  of the chain has a row with its height and its place in the block.
\<close>

definition spent_gets :: "lmdb_txn \<Rightarrow> db_outpoint set \<Rightarrow> bool" where
  "spent_gets txn spent \<longleftrightarrow>
     (\<forall>o1. db_outpoint_ok o1 \<longrightarrow>
        (if o1 \<in> spent then \<exists>val. txn_get txn TbSpent (spent_key o1) = Inr val
         else txn_get txn TbSpent (spent_key o1) = Inl NotFound))"

definition location_row :: "(u8 list \<Rightarrow> u8 list) \<Rightarrow> lmdb_txn \<Rightarrow> u8 list \<Rightarrow> tx_location \<Rightarrow> bool" where
  "location_row blake2b txn key loc \<longleftrightarrow>
     (\<exists>e row. fixed_new blake2b tx_location_serde key loc = Inr e
        \<and> to_bytes (fixed_serde tx_location_serde tx_location_encoded_len) e = Inr row
        \<and> txn_get txn TbTxidLocation key = Inr row)"

definition holds_locations :: "(u8 list \<Rightarrow> u8 list) \<Rightarrow> lmdb_txn \<Rightarrow> chain_tx list list \<Rightarrow> bool" where
  "holds_locations blake2b txn chain \<longleftrightarrow>
     (\<forall>h < length chain. length (chain ! h) \<le> 2 ^ 16 \<and> (\<forall>i < length (chain ! h).
        location_row blake2b txn (txid_of (chain ! h ! i)) \<lparr>tl_block_height = of_nat h, tl_tx_index = of_nat i\<rparr>))"

lemma unspent_in_txn:
  assumes "spent_gets txn spent" and "db_outpoint_ok o1"
  shows "is_outpoint_unspent_in_txn txn o1 = Inr (o1 \<notin> spent)"
proof -
  from assms have "if o1 \<in> spent then \<exists>val. txn_get txn TbSpent (spent_key o1) = Inr val
      else txn_get txn TbSpent (spent_key o1) = Inl NotFound" by (simp add: spent_gets_def)
  then show ?thesis
    unfolding is_outpoint_unspent_in_txn_def outpoint_key spent_key_def [symmetric] by (cases "o1 \<in> spent") auto
qed

lemma location_found:
  assumes "location_row blake2b txn (dth_bytes txid) loc" and digest: "\<And>x. length (blake2b x) = 32"
  shows "find_txid_location_in_txn blake2b txn txid = Inr (Some loc)"
proof -
  have "\<exists>body. serialize tx_location_serde loc = Inr body"
    by (simp add: serialize_def serialize_with_version_def encode_body_def tx_location_serde_def serde_v1_def V1_def
        tx_location_encode_v1_def)
  then obtain body where body: "serialize tx_location_serde loc = Inr body" ..
  have len: "tx_location_encoded_len (VERSION tx_location_serde) = Some 6"
    by (simp add: tx_location_encoded_len_def tx_location_serde_def serde_v1_def)
  from tx_location.fixed_put [OF TrueI len body, of blake2b "dth_bytes txid"] digest obtain e row where
    "fixed_new blake2b tx_location_serde (dth_bytes txid) loc = Inr e"
    "to_bytes (fixed_serde tx_location_serde tx_location_encoded_len) e = Inr row"
    "from_bytes (fixed_serde tx_location_serde tx_location_encoded_len) row = Inr e" "sef_item e = loc"
    "fixed_verify blake2b tx_location_serde (dth_bytes txid) e = Some True" by metis
  with assms(1) show ?thesis by (auto simp: location_row_def find_txid_location_in_txn_def Let_def)
qed

lemma chain_member:
  assumes "tx \<in> set (concat chain)"
  obtains h i where "h < length chain" and "i < length (chain ! h)" and "tx = chain ! h ! i"
  using assms by (metis UN_iff in_set_conv_nth set_concat)

lemma chain_lookups:
  assumes digest: "\<And>x. length (blake2b x) = 32" and chain: "holds_chain blake2b txn chain"
    and loc: "holds_locations blake2b txn chain" and tx: "tx \<in> set (concat chain)"
  shows "get_transparent_tx_in_txn blake2b txn (fst tx) = Inr (snd tx)"
    and "dop_prev_txid o1 = txid_of tx \<Longrightarrow> resolve_prev_output_in_txn blake2b txn o1 =
      Inr (case snd tx of None \<Rightarrow> None | Some t \<Rightarrow>
        if unat (dop_prev_index o1) < length (tct_vout t) then Some (tct_vout t ! unat (dop_prev_index o1)) else None)"
proof -
  from tx obtain h i where at: "h < length chain" "i < length (chain ! h)" "tx = chain ! h ! i" by (rule chain_member)
  let ?loc = "\<lparr>tl_block_height = of_nat h, tl_tx_index = of_nat i\<rparr> :: tx_location"
  have found: "find_txid_location_in_txn blake2b txn (fst tx) = Inr (Some ?loc)"
    by (rule location_found [OF _ digest]) (use loc at in \<open>auto simp: holds_locations_def\<close>)
  have i: "unat (of_nat i :: u16) = i" using loc at by (auto simp: holds_locations_def unat_of_nat)
  obtain key where key: "to_bytes height_serde (DbHeight (of_nat h)) = Inr key"
    "read_transparent_row blake2b txn key = Inr (map snd (chain ! h))"
    using holds_chain_reads [OF chain at(1)] digest by metis
  from key(2) obtain raw where raw: "txn_get txn TbTransparent key = Inr raw"
    by (cases "txn_get txn TbTransparent key") (simp_all add: read_transparent_row_def)
  show "get_transparent_tx_in_txn blake2b txn (fst tx) = Inr (snd tx)"
    using found key raw i at by (simp add: get_transparent_tx_in_txn_def Let_def)
  assume o1: "dop_prev_txid o1 = txid_of tx"
  have "stored_row blake2b transparent_list_serde key (TransparentTxList (map snd (chain ! h))) raw"
    "transparent_list_ok (TransparentTxList (map snd (chain ! h)))"
    using chain at(1) key(1) raw by (auto simp: holds_chain_def row_at_def)
  from find_txout_finds [where blake2b = blake2b, OF this digest, of i "unat (dop_prev_index o1)"]
  show "resolve_prev_output_in_txn blake2b txn o1 = Inr (case snd tx of None \<Rightarrow> None | Some t \<Rightarrow>
        if unat (dop_prev_index o1) < length (tct_vout t) then Some (tct_vout t ! unat (dop_prev_index o1)) else None)"
    using found key raw i at o1 by (cases "snd tx") (simp_all add: resolve_prev_output_in_txn_def output_at_def)
qed

section \<open>The spends of the range\<close>

text \<open>
  A chain grows from \<open>old\<close> by \<open>new\<close>: no outpoint is spent twice, what \<open>old\<close> spends is of \<open>old\<close>, and what
  \<open>new\<close> spends exists.
\<close>

definition has_output :: "chain_tx list \<Rightarrow> db_outpoint \<Rightarrow> bool" where
  "has_output txs o1 \<longleftrightarrow> (\<exists>tx \<in> set txs. \<exists>t. snd tx = Some t \<and> dop_prev_txid o1 = txid_of tx
     \<and> unat (dop_prev_index o1) < length (tct_vout t))"

definition grows :: "chain_tx list \<Rightarrow> chain_tx list \<Rightarrow> bool" where
  "grows old new \<longleftrightarrow> txs_ok (old @ new) \<and> distinct (chain_spends (old @ new))
     \<and> (\<forall>o1 \<in> set (chain_spends old). has_output old o1) \<and> (\<forall>o1 \<in> set (chain_spends new). has_output (old @ new) o1)"

lemma has_output_ok: "txs_ok txs \<Longrightarrow> has_output txs o1 \<Longrightarrow> db_outpoint_ok o1"
  by (auto simp: has_output_def txs_ok_def db_outpoint_ok_def)

lemma txid_unique: "txs_ok txs \<Longrightarrow> tx \<in> set txs \<Longrightarrow> tx' \<in> set txs \<Longrightarrow> txid_of tx = txid_of tx' \<Longrightarrow> tx = tx'"
  unfolding txs_ok_def by (metis distinct_map inj_onD)

lemma output_of_at:
  assumes "txs_ok txs" and "tx \<in> set txs" and "snd tx = Some t" and "dop_prev_txid o1 = txid_of tx"
    and "unat (dop_prev_index o1) < length (tct_vout t)"
  shows "output_of txs o1 = (let out = tct_vout t ! unat (dop_prev_index o1) in if is_unspendable_tx_out out then None else Some out)"
proof -
  let ?j = "unat (dop_prev_index o1)"
  have "(o1, out) \<in> set (created txs) \<longleftrightarrow> \<not> is_unspendable_tx_out (tct_vout t ! ?j) \<and> out = tct_vout t ! ?j" for out
  proof
    assume "(o1, out) \<in> set (created txs)"
    then obtain tx' t' j where tx': "tx' \<in> set txs" "snd tx' = Some t'" "j < length (tct_vout t')"
      "\<not> is_unspendable_tx_out (tct_vout t' ! j)" "o1 = \<lparr>dop_prev_txid = txid_of tx', dop_prev_index = of_nat j\<rparr>" "out = tct_vout t' ! j"
      by (auto simp: created_member tx_utxos_nth)
    then have "tx' = tx" using txid_unique [OF assms(1), of tx' tx] assms(2,4) by simp
    with tx' assms(3) have t: "t' = t" by simp
    have "length (tct_vout t) \<le> 2 ^ 32" using assms(1,2,3) by (auto simp: txs_ok_def)
    then have "?j = j" using tx'(3,5) t by (simp add: unat_of_nat)
    with tx' t show "\<not> is_unspendable_tx_out (tct_vout t ! ?j) \<and> out = tct_vout t ! ?j" by simp
  next
    assume "\<not> is_unspendable_tx_out (tct_vout t ! ?j) \<and> out = tct_vout t ! ?j"
    with assms have "(o1, out) \<in> set (tx_utxos tx)" by (cases o1) (auto simp: tx_utxos_nth intro!: exI [of _ ?j])
    with assms(2) show "(o1, out) \<in> set (created txs)" by (auto simp: created_member)
  qed
  then show ?thesis by (intro option_ext) (auto simp: output_of_eq [OF assms(1)] Let_def)
qed

lemma output_of_here:
  assumes "txs_ok (old @ new)" and "dop_prev_txid o1 \<in> txid_of ` set new"
  shows "output_of (old @ new) o1 = output_of new o1"
proof -
  have "txid_of ` set old \<inter> txid_of ` set new = {}" using assms(1) by (auto simp: txs_ok_def)
  then have "o1 \<notin> fst ` set (created old)" using assms(2) by (force simp: created_member dest: tx_utxos_txid)
  then have "map_of (created old) o1 = None" by (simp add: map_of_eq_None_iff)
  then show ?thesis by (simp add: output_of_def map_add_def split: option.splits)
qed

definition taken :: "chain_tx list \<Rightarrow> db_outpoint list \<Rightarrow> utxo list" where
  "taken txs spends = concat (map (\<lambda>o1. case output_of txs o1 of None \<Rightarrow> [] | Some out \<Rightarrow> [(o1, out)]) spends)"

definition touched :: "chain_tx list \<Rightarrow> chain_tx list \<Rightarrow> db_outpoint list \<Rightarrow> u8 list list" where
  "touched old new spends = map dop_prev_txid
     (filter (\<lambda>o1. dop_prev_txid o1 \<notin> txid_of ` set new \<and> output_of (old @ new) o1 \<noteq> None) spends)"

lemma taken_simps [simp]:
  "taken txs [] = []"
  "taken txs (o1 # spends) = (case output_of txs o1 of None \<Rightarrow> [] | Some out \<Rightarrow> [(o1, out)]) @ taken txs spends"
  by (simp_all add: taken_def)

lemma touched_simps [simp]:
  "touched old new [] = []"
  "touched old new (o1 # spends) =
     (if dop_prev_txid o1 \<notin> txid_of ` set new \<and> output_of (old @ new) o1 \<noteq> None then [dop_prev_txid o1] else [])
       @ touched old new spends"
  by (simp_all add: touched_def)

lemma remove_spends_fold:
  assumes digest: "\<And>x. length (blake2b x) = 32" and chain: "holds_chain blake2b txn chain"
    and loc: "holds_locations blake2b txn chain" and grow: "concat chain = old @ new" "grows old new"
    and st: "set (rs_txids st) = txid_of ` set new" "rs_outputs st = noted (created new) []"
    and "set spends \<subseteq> set (chain_spends new)"
  shows "remove_spends blake2b txn st spends acc prior =
    bindE (remove_all blake2b (taken (old @ new) spends) acc) (\<lambda>acc. Inr (acc, fold List.insert (touched old new spends) prior))"
  using assms(8)
proof (induction spends arbitrary: acc prior)
  case (Cons o1 spends)
  have ok: "txs_ok (old @ new)" "txs_ok new" using grow(2) by (auto simp: grows_def txs_ok_def)
  have o1: "has_output (old @ new) o1" using grow(2) Cons.prems by (auto simp: grows_def)
  then have o1_ok: "db_outpoint_ok o1" by (rule has_output_ok [OF ok(1)])
  have IH: "remove_spends blake2b txn st spends acc prior = bindE (remove_all blake2b (taken (old @ new) spends) acc)
      (\<lambda>acc. Inr (acc, fold List.insert (touched old new spends) prior))" for acc prior
    by (rule Cons.IH) (use Cons.prems in simp)
  show ?case
  proof (cases "dop_prev_txid o1 \<in> txid_of ` set new")
    case True
    have "hm_get (rs_outputs st) (spent_key o1) = output_of (old @ new) o1"
      using scanned_output [OF ok(2) o1_ok] output_of_here [OF ok(1) True] st(2) by simp
    with True IH show ?thesis
      by (cases "output_of (old @ new) o1"; cases "apply_removed_output blake2b o1 (the (output_of (old @ new) o1)) acc")
        (simp_all add: outpoint_key spent_key_def [symmetric] st(1))
  next
    case False
    from o1 obtain tx t where tx: "tx \<in> set (old @ new)" "snd tx = Some t" "dop_prev_txid o1 = txid_of tx"
      "unat (dop_prev_index o1) < length (tct_vout t)" by (auto simp: has_output_def)
    let ?out = "tct_vout t ! unat (dop_prev_index o1)"
    have "resolve_prev_output_in_txn blake2b txn o1 = Inr (Some ?out)"
      using chain_lookups(2) [where blake2b = blake2b, OF digest chain loc _ tx(3)] tx grow(1) by simp
    moreover have "output_of (old @ new) o1 = (if is_unspendable_tx_out ?out then None else Some ?out)"
      using output_of_at [OF ok(1) tx] by (simp add: Let_def)
    ultimately show ?thesis
      using False IH by (cases "apply_removed_output blake2b o1 ?out acc") (simp_all add: outpoint_key st(1))
  qed
qed simp

lemma taken_member: "(o1, out) \<in> set (taken txs spends) \<longleftrightarrow> o1 \<in> set spends \<and> output_of txs o1 = Some out"
  by (induction spends) (auto split: option.splits)

lemma taken_mset:
  assumes "txs_ok txs" and "distinct spends"
  shows "mset (taken txs spends) = filter_mset (\<lambda>u. fst u \<in> set spends) (mset (created txs))"
proof -
  have mem: "u \<in> set (taken txs spends) \<longleftrightarrow> fst u \<in> set spends \<and> u \<in> set (created txs)" for u
    using taken_member [of "fst u" "snd u"] output_of_eq [OF assms(1), of "fst u" "snd u"] by simp
  have "distinct (taken txs spends)"
    using assms(2)
  proof (induction spends)
    case (Cons o1 spends)
    have "u \<in> set (taken txs spends) \<Longrightarrow> fst u \<in> set spends" for u by (auto simp: taken_def split: option.splits)
    with Cons show ?case by (auto split: option.splits)
  qed simp
  moreover have "distinct (filter (\<lambda>u. fst u \<in> set spends) (created txs))"
    using created_distinct [OF assms(1)] by (simp add: distinct_map)
  ultimately have "mset (taken txs spends) = mset (filter (\<lambda>u. fst u \<in> set spends) (created txs))"
    using mem by (subst set_eq_iff_mset_eq_distinct [symmetric]) auto
  then show ?thesis by simp
qed

end
