(* ===== verification/Zaino_Txout_Advance.thy ===== *)
theory Zaino_Txout_Advance
  imports Zaino_Txout_Update_Theorems
begin

text \<open>
  What the maintenance of the unspent-output accumulator promises: the incremental update
  gives what the bulk rebuild gives, and bringing the accumulator to the tip keeps the stored
  accumulator that of the chain up to the stored height, whichever path it takes.
\<close>

section \<open>The additive fields\<close>

lemma filter_mset_diff:
  "(\<And>x. x \<in># M \<Longrightarrow> Q x \<Longrightarrow> P x) \<Longrightarrow> filter_mset P M - filter_mset Q M = filter_mset (\<lambda>x. P x \<and> \<not> Q x) M"
  by (rule multiset_eqI) (auto simp: not_in_iff)

lemma filter_mset_subset:
  "(\<And>x. x \<in># M \<Longrightarrow> Q x \<Longrightarrow> P x) \<Longrightarrow> filter_mset Q M \<subseteq># filter_mset P M"
  by (rule mset_subset_eqI) (auto simp: count_eq_zero_iff)

lemma new_unspent:
  assumes "grows old new" and "u \<in> set (created new)"
  shows "fst u \<notin> set (chain_spends old)"
proof
  assume "fst u \<in> set (chain_spends old)"
  with assms(1) obtain tx where tx: "tx \<in> set old" "dop_prev_txid (fst u) = txid_of tx" by (auto simp: grows_def has_output_def)
  from assms(2) obtain tx' where "tx' \<in> set new" "dop_prev_txid (fst u) = txid_of tx'"
    by (auto simp: created_member dest: tx_utxos_txid)
  with tx have "txid_of tx \<in> txid_of ` set old \<inter> txid_of ` set new" by (metis IntI image_eqI)
  with assms(1) show False by (auto simp: grows_def txs_ok_def)
qed

lemma grown_live:
  assumes "grows old new"
  defines "before \<equiv> set (chain_spends old)" and "all \<equiv> set (chain_spends (old @ new))"
  shows "live before old + mset (created new) = filter_mset (\<lambda>u. fst u \<notin> before) (mset (created (old @ new)))"
    and "mset (taken (old @ new) (chain_spends new)) \<subseteq># live before old + mset (created new)"
    and "live before old + mset (created new) - mset (taken (old @ new) (chain_spends new)) = live all (old @ new)"
proof -
  from assms(1) have ok: "txs_ok (old @ new)" and d: "distinct (chain_spends (old @ new))"
    by (simp_all add: grows_def)
  have "fst u \<notin> before" if "u \<in> set (created new)" for u
    unfolding before_def by (rule new_unspent [OF assms(1) that])
  then have "filter_mset (\<lambda>u. fst u \<notin> before) (mset (created new)) = mset (created new)"
    by (simp add: filter_mset_eq_conv)
  then show start: "live before old + mset (created new) = filter_mset (\<lambda>u. fst u \<notin> before) (mset (created (old @ new)))"
    by (simp add: live_created)
  have later: "fst u \<notin> before" if "fst u \<in> set (chain_spends new)" for u :: utxo
    using d that by (auto simp: before_def)
  have out: "mset (taken (old @ new) (chain_spends new)) =
      filter_mset (\<lambda>u. fst u \<in> set (chain_spends new)) (mset (created (old @ new)))"
    by (rule taken_mset [OF ok]) (use d in simp)
  show "mset (taken (old @ new) (chain_spends new)) \<subseteq># live before old + mset (created new)"
    unfolding start out by (rule filter_mset_subset) (rule later)
  have "live all (old @ new) = filter_mset (\<lambda>u. fst u \<notin> before \<and> fst u \<notin> set (chain_spends new)) (mset (created (old @ new)))"
    unfolding live_created by (rule filter_mset_cong) (auto simp: all_def before_def)
  then show "live before old + mset (created new) - mset (taken (old @ new) (chain_spends new)) = live all (old @ new)"
    unfolding start out by (subst filter_mset_diff) (erule later, simp)
qed

section \<open>The count of transactions\<close>

lemma any_unspent_spec:
  "spent_gets txn spent \<Longrightarrow> \<forall>o1 \<in> set os. db_outpoint_ok o1 \<Longrightarrow> any_unspent txn os = Inr (\<exists>o1 \<in> set os. o1 \<notin> spent)"
  by (induction os) (simp_all add: unspent_in_txn)

lemma count_entering_spec:
  assumes "spent_gets txn spent" and "\<forall>os \<in> set oss. \<forall>o1 \<in> set os. db_outpoint_ok o1"
  shows "count_entering txn oss d = Inr (d + int (length (filter (\<lambda>os. \<exists>o1 \<in> set os. o1 \<notin> spent) oss)))"
  using assms(2)
proof (induction oss arbitrary: d)
  case (Cons os oss)
  then show ?case using any_unspent_spec [OF assms(1), of os] by auto
qed simp

lemma all_spent_spec:
  assumes "spent_gets txn spent" and "length txid = 32"
  shows "all_spent txn txid i outs = Inr (unspent spent (out_utxos txid i outs) = [])"
proof (induction outs arbitrary: i)
  case (Cons out outs)
  have "db_outpoint_ok \<lparr>dop_prev_txid = txid, dop_prev_index = of_nat i\<rparr>" using assms(2) by (simp add: db_outpoint_ok_def)
  from unspent_in_txn [OF assms(1) this] Cons.IH [of "i + 1"] show ?case by (simp add: unspent_def)
qed (simp add: unspent_def)

definition drained :: "db_outpoint set \<Rightarrow> chain_tx list \<Rightarrow> u8 list \<Rightarrow> bool" where
  "drained spent txs txid \<longleftrightarrow> (\<forall>tx \<in> set txs. txid_of tx = txid \<longrightarrow> unspent spent (tx_utxos tx) = [])"

lemma count_leaving_spec:
  assumes digest: "\<And>x. length (blake2b x) = 32" and chain: "holds_chain blake2b txn chain"
    and loc: "holds_locations blake2b txn chain" and spent: "spent_gets txn spent"
    and ok: "txs_ok (concat chain)"
    and "\<forall>txid \<in> set prior. \<exists>tx \<in> set (concat chain). txid_of tx = txid \<and> snd tx \<noteq> None"
  shows "count_leaving blake2b txn prior d = Inr (d - int (length (filter (drained spent (concat chain)) prior)))"
  using assms(6)
proof (induction prior arbitrary: d)
  case (Cons txid prior)
  then obtain tx t where tx: "tx \<in> set (concat chain)" "txid_of tx = txid" "snd tx = Some t" by auto
  have "get_transparent_tx_in_txn blake2b txn (fst tx) = Inr (snd tx)"
    by (rule chain_lookups(1) [where blake2b = blake2b, OF digest chain loc tx(1)])
  then have get: "get_transparent_tx_in_txn blake2b txn (DbTransactionHash txid) = Inr (Some t)"
    using tx(2,3) by (cases "fst tx") simp
  have "length txid = 32" using ok tx by (auto simp: txs_ok_def)
  from all_spent_spec [OF spent this, of 0 "tct_vout t"]
  have all: "all_spent txn txid 0 (tct_vout t) = Inr (unspent spent (tx_utxos tx) = [])"
    using tx(2,3) by (simp add: tx_utxos_def)
  have "drained spent (concat chain) txid \<longleftrightarrow> unspent spent (tx_utxos tx) = []"
    unfolding drained_def using txid_unique [OF ok tx(1)] tx(1,2) by metis
  then show ?case using get all Cons.IH Cons.prems by simp
qed simp

lemma fold_insert_set [simp]: "set (fold List.insert xs ys) = set xs \<union> set ys"
  by (induction xs arbitrary: ys) auto

lemma fold_insert_distinct: "distinct ys \<Longrightarrow> distinct (fold List.insert xs ys)"
  by (induction xs arbitrary: ys) simp_all

lemma filter_split_length:
  "(\<And>x. Q x \<Longrightarrow> P x) \<Longrightarrow> length (filter P xs) = length (filter Q xs) + length (filter (\<lambda>x. P x \<and> \<not> Q x) xs)"
  by (induction xs) auto

lemma touched_member:
  assumes ok: "txs_ok (old @ new)"
  shows "t \<in> set (touched old new spends) \<longleftrightarrow>
    (\<exists>tx \<in> set old. txid_of tx = t \<and> (\<exists>u \<in> set (tx_utxos tx). fst u \<in> set spends))"
proof
  assume "t \<in> set (touched old new spends)"
  then obtain o1 out where o1: "o1 \<in> set spends" "dop_prev_txid o1 = t" "t \<notin> txid_of ` set new" "output_of (old @ new) o1 = Some out"
    by (auto simp: touched_def)
  then obtain tx where tx: "tx \<in> set (old @ new)" "(o1, out) \<in> set (tx_utxos tx)"
    unfolding output_of_eq [OF ok] by (auto simp: created_member)
  have "txid_of tx = t" using tx_utxos_txid [OF tx(2)] o1(2) by simp
  moreover from this have "tx \<in> set old" using tx(1) o1(3) by auto
  ultimately show "\<exists>tx \<in> set old. txid_of tx = t \<and> (\<exists>u \<in> set (tx_utxos tx). fst u \<in> set spends)"
    using tx(2) o1(1) by force
next
  assume "\<exists>tx \<in> set old. txid_of tx = t \<and> (\<exists>u \<in> set (tx_utxos tx). fst u \<in> set spends)"
  then obtain tx u where tx: "tx \<in> set old" "txid_of tx = t" "u \<in> set (tx_utxos tx)" "fst u \<in> set spends" by blast
  then have "(fst u, snd u) \<in> set (created (old @ new))" by (auto simp: created_member)
  then have out: "output_of (old @ new) (fst u) = Some (snd u)" using output_of_eq [OF ok] by blast
  have t: "dop_prev_txid (fst u) = t" using tx_utxos_txid [OF tx(3)] tx(2) by simp
  have "txid_of ` set old \<inter> txid_of ` set new = {}" using ok by (auto simp: txs_ok_def)
  then have "t \<notin> txid_of ` set new" using tx(1,2) by blast
  then show "t \<in> set (touched old new spends)" using tx(4) out t by (force simp: touched_def)
qed

lemma touched_has_tx:
  assumes "txs_ok (old @ new)" and "t \<in> set (touched old new spends)"
  shows "\<exists>tx \<in> set (old @ new). txid_of tx = t \<and> snd tx \<noteq> None"
proof -
  from assms obtain tx u where "tx \<in> set old" "txid_of tx = t" "u \<in> set (tx_utxos tx)" by (auto simp: touched_member)
  then show ?thesis by (intro bexI [of _ tx]) (cases "snd tx"; simp add: tx_utxos_def)+
qed

lemma transactions_balance:
  assumes grow: "grows old new"
  defines "before \<equiv> set (chain_spends old)" and "all \<equiv> set (chain_spends (old @ new))"
  shows "live_txs before old = live_txs all old
    + length (filter (drained all (old @ new)) (fold List.insert (touched old new (chain_spends new)) []))"
proof -
  from grow have ok: "txs_ok (old @ new)" and d: "distinct (chain_spends (old @ new))" by (simp_all add: grows_def)
  let ?gone = "\<lambda>tx. unspent before (tx_utxos tx) \<noteq> [] \<and> unspent all (tx_utxos tx) = []"
  have sub: "unspent all us \<noteq> [] \<Longrightarrow> unspent before us \<noteq> []" for us
    by (auto simp: unspent_def filter_empty_conv all_def before_def)
  have "{t \<in> set (touched old new (chain_spends new)). drained all (old @ new) t} = txid_of ` set (filter ?gone old)"
    (is "?A = ?B")
  proof (intro set_eqI iffI)
    fix t assume "t \<in> ?A"
    then obtain tx u where tx: "tx \<in> set old" "txid_of tx = t" "u \<in> set (tx_utxos tx)" "fst u \<in> set (chain_spends new)"
      "drained all (old @ new) t" by (auto simp: touched_member [OF ok])
    then have "fst u \<notin> before" using d by (auto simp: before_def)
    then have "?gone tx" using tx by (auto simp: unspent_def drained_def filter_empty_conv)
    then show "t \<in> ?B" using tx(1,2) by auto
  next
    fix t assume "t \<in> ?B"
    then obtain tx where tx: "tx \<in> set old" "txid_of tx = t" "?gone tx" by auto
    then obtain u where u: "u \<in> set (tx_utxos tx)" "fst u \<notin> before" "fst u \<in> all"
      by (auto simp: unspent_def filter_empty_conv)
    then have "fst u \<in> set (chain_spends new)" by (auto simp: all_def before_def)
    moreover have "drained all (old @ new) t"
      unfolding drained_def
    proof (intro ballI impI)
      fix tx' assume "tx' \<in> set (old @ new)" and "txid_of tx' = t"
      with txid_unique [OF ok, of tx' tx] tx(1,2) have "tx' = tx" by simp
      with tx(3) show "unspent all (tx_utxos tx') = []" by simp
    qed
    ultimately show "t \<in> ?A" using tx(1,2) u(1) touched_member [OF ok] by blast
  qed
  moreover have "distinct (map txid_of (filter ?gone old))"
    using ok by (simp add: txs_ok_def distinct_map_filter)
  from distinct_card [OF this] have "card (txid_of ` set (filter ?gone old)) = length (filter ?gone old)" by simp
  moreover have "length (filter (drained all (old @ new)) (fold List.insert (touched old new (chain_spends new)) []))
      = card {t \<in> set (touched old new (chain_spends new)). drained all (old @ new) t}"
    using distinct_card [OF distinct_filter, OF fold_insert_distinct [of "[]" "touched old new (chain_spends new)"]] by simp
  ultimately show ?thesis
    unfolding live_txs_def using filter_split_length [of "\<lambda>tx. unspent all (tx_utxos tx) \<noteq> []" "\<lambda>tx. unspent before (tx_utxos tx) \<noteq> []" old] sub
    by simp
qed

lemma live_txs_le: "live_txs spent txs \<le> size (live spent txs)"
proof (induction txs)
  case (Cons tx txs)
  then show ?case by (cases "unspent spent (tx_utxos tx)") auto
qed simp

lemma live_txs_small: "commits blake2b acc (live spent txs) \<Longrightarrow> live_txs spent txs < 2 ^ 63"
  using live_txs_le [of spent txs] commits_fits by (fastforce simp: fits_def)

lemma entering_count:
  assumes "spent_gets txn spent" and ok: "txs_ok txs"
    and st: "rs_created st = map (\<lambda>tx. (txid_of tx, map fst (tx_utxos tx))) (filter (\<lambda>tx. tx_utxos tx \<noteq> []) txs)"
  shows "count_entering txn (hm_values (rs_created st)) 0 = Inr (int (live_txs spent txs))"
proof -
  let ?oss = "map (\<lambda>tx. map fst (tx_utxos tx)) (filter (\<lambda>tx. tx_utxos tx \<noteq> []) txs)"
  have "\<forall>os \<in> set ?oss. \<forall>o1 \<in> set os. db_outpoint_ok o1" using created_ok [OF ok] by (auto simp: created_member)
  from count_entering_spec [OF assms(1) this, of 0]
  have "count_entering txn ?oss 0 = Inr (int (length (filter (\<lambda>os. \<exists>o1 \<in> set os. o1 \<notin> spent) ?oss)))" by simp
  moreover have "hm_values (rs_created st) = ?oss" by (simp add: st hm_values_def comp_def)
  moreover have "length (filter (\<lambda>os. \<exists>o1 \<in> set os. o1 \<notin> spent) ?oss) = live_txs spent txs"
    unfolding live_txs_def filter_map length_map filter_filter
    by (intro arg_cong [where f = length] filter_cong) (auto simp: unspent_def filter_empty_conv)
  ultimately show ?thesis by simp
qed

lemma transactions_delta:
  assumes "unat a = kept + gone" and "kept + gone < 2 ^ 63" and "kept + entering < 2 ^ 63"
  shows "\<exists>b. apply_transactions_delta a (int entering - int gone) = Some b \<and> unat b = kept + entering"
proof -
  have "apply_transactions_delta a (int entering - int gone) = Some (of_nat (kept + entering))"
    using assms by (simp add: apply_transactions_delta_def Let_def)
  moreover have "unat (of_nat (kept + entering) :: u64) = kept + entering" using assms(3) by (simp only: unat_of_nat) simp
  ultimately show ?thesis by blast
qed

section \<open>The incremental update\<close>

definition spends :: "chain_tx list list \<Rightarrow> db_outpoint set" where
  "spends blocks = set (chain_spends (concat blocks))"

text \<open>The database holds the accumulator of the given blocks, and their last height as the height it was built to.\<close>

definition accumulator_of :: "(u8 list \<Rightarrow> u8 list) \<Rightarrow> lmdb_txn \<Rightarrow> chain_tx list list \<Rightarrow> finalised_accumulator \<Rightarrow> bool" where
  "accumulator_of blake2b txn blocks acc \<longleftrightarrow>
     get_tx_out_set_info_accumulator blake2b (Inr txn) = Inr acc
     \<and> read_tx_out_set_accumulator_built_height blake2b (Inr txn) = Inr (Some (DbHeight (of_nat (length blocks - 1))))
     \<and> commits blake2b acc (live (spends blocks) (concat blocks))
     \<and> unat (fta_transactions acc) = live_txs (spends blocks) (concat blocks)"

definition indexed :: "(u8 list \<Rightarrow> u8 list) \<Rightarrow> lmdb_txn \<Rightarrow> chain_tx list list \<Rightarrow> bool" where
  "indexed blake2b txn chain \<longleftrightarrow>
     holds_chain blake2b txn chain \<and> holds_locations blake2b txn chain \<and> spent_gets txn (spends chain)"

lemma load_accumulator_reads:
  "get_tx_out_set_info_accumulator blake2b (Inr txn) = Inr acc \<Longrightarrow> load_accumulator blake2b txn = Inr acc"
  by (auto simp: get_tx_out_set_info_accumulator_def load_accumulator_def bindE_eq_Inr split: sum.splits lmdb_error.splits if_splits)

lemma range_heights:
  assumes "holds_chain blake2b txn (ob @ nb)" and "ob \<noteq> []"
  shows "(of_nat (length ob - 1) :: u32) + 1 = of_nat (length ob)"
    and "unat (of_nat (length (ob @ nb) - 1) :: u32) - unat (of_nat (length ob - 1) :: u32) = length nb"
proof -
  show "(of_nat (length ob - 1) :: u32) + 1 = of_nat (length ob)" using assms(2) by (cases ob) simp_all
  have "length (ob @ nb) \<le> 2 ^ 31" by (rule holds_chain_length [OF assms(1)])
  then show "unat (of_nat (length (ob @ nb) - 1) :: u32) - unat (of_nat (length ob - 1) :: u32) = length nb"
    using assms(2) by (cases ob) (simp_all add: unat_of_nat del: of_nat_add of_nat_Suc)
qed

lemma scanned:
  fixes acc :: finalised_accumulator
  assumes "txs_ok txs"
  defines "st \<equiv> fold scan_tx txs \<lparr>rs_accumulator = acc, rs_txids = [], rs_outputs = [], rs_created = [], rs_spends = []\<rparr>"
  shows "set (rs_txids st) = txid_of ` set txs" and "rs_outputs st = noted (created txs) []" and "rs_spends st = chain_spends txs"
    and "rs_created st = map (\<lambda>tx. (txid_of tx, map fst (tx_utxos tx))) (filter (\<lambda>tx. tx_utxos tx \<noteq> []) txs)"
  using assms scan_created [of txs] by (simp_all add: scan_txids scan_outputs scan_spends txs_ok_def)

lemma update_additive:
  assumes grow: "grows old new" and acc: "commits blake2b acc (live (set (chain_spends old)) old)"
    and fit: "fits (live (set (chain_spends old)) old + mset (created new))" and digest: "\<And>x. length (blake2b x) = 32"
  obtains mid acc' where "add_all blake2b (created new) acc = Inr mid"
    and "remove_all blake2b (taken (old @ new) (chain_spends new)) mid = Inr acc'"
    and "commits blake2b acc' (live (set (chain_spends (old @ new))) (old @ new))" and "fta_transactions acc' = fta_transactions acc"
proof -
  let ?M = "live (set (chain_spends old)) old + mset (created new)"
  have ok: "list_all (\<lambda>u. length (utxo_digest blake2b u) = 32) (created new)"
    using digest by (simp add: list_all_iff tx_out_set_entry_digest_def entry_digest_parts_def)
  have start: "commits blake2b acc (live (set (chain_spends old)) old) \<and> fta_transactions acc = fta_transactions acc"
    using acc by simp
  obtain mid where mid: "foldE (\<lambda>u. apply_added_output blake2b (fst u) (snd u)) (created new) acc = Inr mid"
    using utxo_row.add_all_returns [OF start ok fit] by blast
  from utxo_row.add_all_Inr [OF start ok mid] have m: "commits blake2b mid ?M \<and> fta_transactions mid = fta_transactions acc" .
  from utxo_row.remove_all [OF m grown_live(2) [OF grow]] obtain acc' where
    "foldE (\<lambda>u. apply_removed_output blake2b (fst u) (snd u)) (taken (old @ new) (chain_spends new)) mid = Inr acc'"
    "commits blake2b acc' (?M - mset (taken (old @ new) (chain_spends new)))" "fta_transactions acc' = fta_transactions acc" by blast
  then show thesis using that [of mid acc'] mid grown_live(3) [OF grow] by simp
qed

lemma update_range_run:
  assumes digest: "\<And>x. length (blake2b x) = 32" and db: "indexed blake2b txn (ob @ nb)" and "ob \<noteq> []"
    and grow: "grows (concat ob) (concat nb)" and acc: "accumulator_of blake2b txn ob acc"
    and fit: "fits (live (spends ob) (concat ob) + mset (created (concat nb)))"
  obtains acc' where "update_tx_out_set_accumulator_for_range blake2b (Inr txn) (DbHeight (of_nat (length ob - 1)))
      (DbHeight (of_nat (length (ob @ nb) - 1))) = put_both blake2b (DbHeight (of_nat (length (ob @ nb) - 1))) acc'"
    and "commits blake2b acc' (live (spends (ob @ nb)) (concat (ob @ nb)))"
    and "unat (fta_transactions acc') = live_txs (spends (ob @ nb)) (concat (ob @ nb))"
proof -
  let ?old = "concat ob" and ?new = "concat nb" and ?all = "spends (ob @ nb)"
  from db have chain: "holds_chain blake2b txn (ob @ nb)" and loc: "holds_locations blake2b txn (ob @ nb)"
    and spent: "spent_gets txn ?all" by (simp_all add: indexed_def)
  have ok: "txs_ok (?old @ ?new)" "txs_ok ?new" using grow by (auto simp: grows_def txs_ok_def)
  from acc have load: "load_accumulator blake2b txn = Inr acc" by (simp add: accumulator_of_def load_accumulator_reads)
  have before: "commits blake2b acc (live (set (chain_spends ?old)) ?old)" using acc by (simp add: accumulator_of_def spends_def)
  obtain mid acc' where mid: "add_all blake2b (created ?new) acc = Inr mid"
    and acc': "remove_all blake2b (taken (?old @ ?new) (chain_spends ?new)) mid = Inr acc'"
      "commits blake2b acc' (live ?all (?old @ ?new))" "fta_transactions acc' = fta_transactions acc"
    using update_additive [where blake2b = blake2b, OF grow before fit [unfolded spends_def] digest] by (auto simp: spends_def)
  define st where "st = (fold scan_tx ?new \<lparr>rs_accumulator = acc, rs_txids = [], rs_outputs = [], rs_created = [], rs_spends = []\<rparr>)
    \<lparr>rs_accumulator := mid\<rparr>"
  have st: "set (rs_txids st) = txid_of ` set ?new" "rs_outputs st = noted (created ?new) []" "rs_spends st = chain_spends ?new"
    "rs_created st = map (\<lambda>tx. (txid_of tx, map fst (tx_utxos tx))) (filter (\<lambda>tx. tx_utxos tx \<noteq> []) ?new)"
    "rs_accumulator st = mid"
    using scanned [OF ok(2), where acc = acc] by (simp_all add: st_def)
  let ?prior = "fold List.insert (touched ?old ?new (chain_spends ?new)) []"
  let ?gone = "length (filter (drained ?all (?old @ ?new)) ?prior)"
  have scan: "range_blocks blake2b txn (length nb) (of_nat (length ob))
      \<lparr>rs_accumulator = acc, rs_txids = [], rs_outputs = [], rs_created = [], rs_spends = []\<rparr> = Inr st"
    using range_blocks_fold [where blake2b = blake2b, OF digest chain, of "length ob" "length nb"] mid by (simp add: st_def)
  have removed: "remove_spends blake2b txn st (chain_spends ?new) mid [] = Inr (acc', ?prior)"
    using remove_spends_fold [where blake2b = blake2b, OF digest chain loc concat_append grow st(1,2) subset_refl] acc'(1) by simp
  have entering: "count_entering txn (hm_values (rs_created st)) 0 = Inr (int (live_txs ?all ?new))"
    by (rule entering_count [OF spent ok(2) st(4)])
  have "\<forall>txid \<in> set ?prior. \<exists>tx \<in> set (?old @ ?new). txid_of tx = txid \<and> snd tx \<noteq> None"
    using touched_has_tx [OF ok(1)] by simp
  then have leaving: "count_leaving blake2b txn ?prior d = Inr (d - int ?gone)" for d
    using count_leaving_spec [where blake2b = blake2b, OF digest chain loc spent] ok(1) by simp
  have counts: "unat (fta_transactions acc') = live_txs (spends ob) ?old" "live_txs (spends ob) ?old = live_txs ?all ?old + ?gone"
    using acc acc'(3) transactions_balance [OF grow] by (simp_all add: accumulator_of_def spends_def)
  obtain n where n: "apply_transactions_delta (fta_transactions acc') (int (live_txs ?all ?new) - int ?gone) = Some n"
    "unat n = live_txs ?all ?old + live_txs ?all ?new"
    using transactions_delta [of "fta_transactions acc'" "live_txs ?all ?old" ?gone "live_txs ?all ?new"] counts
      live_txs_small [OF before [folded spends_def]] live_txs_small [OF acc'(2)] by auto
  have "update_tx_out_set_accumulator_for_range blake2b (Inr txn) (DbHeight (of_nat (length ob - 1)))
      (DbHeight (of_nat (length (ob @ nb) - 1))) = put_both blake2b (DbHeight (of_nat (length (ob @ nb) - 1))) (acc'\<lparr>fta_transactions := n\<rparr>)"
    unfolding update_tx_out_set_accumulator_for_range_def db_height.sel range_heights [OF chain assms(3)]
    using load scan removed entering leaving n(1) st(3,5) by (simp add: put_both_def)
  then show thesis
    by (rule that) (use acc'(2) n(2) in \<open>simp_all add: commits_def\<close>)
qed

lemma put_accumulator:
  assumes digest: "\<And>x. length (blake2b x) = 32" and chain: "holds_chain blake2b txn chain" "chain \<noteq> []"
    and acc: "commits blake2b acc (live (spends chain) (concat chain))"
      "unat (fta_transactions acc) = live_txs (spends chain) (concat chain)"
  obtains puts where "put_both blake2b (DbHeight (of_nat (length chain - 1))) acc = Inr puts"
    and "accumulator_of blake2b (committed puts txn) chain acc"
proof -
  from acc(1) have hash: "length (fta_hash_serialized acc) = 32" by (simp add: commits_def)
  from chain have "db_height_try_from (of_nat (length chain - 1)) = Inr (DbHeight (of_nat (length chain - 1)))"
    unfolding holds_chain_def row_at_def by (cases chain) auto
  then have tip: "db_height_ok (DbHeight (of_nat (length chain - 1)))"
    by (auto simp: db_height_try_from_def db_height_ok_def split: if_splits)
  show thesis
    by (rule put_both_reads [where blake2b = blake2b, OF hash tip digest])
      (rule that, assumption, simp add: accumulator_of_def acc)
qed

section \<open>The properties\<close>

text \<open>C4. The incremental update gives what the rebuild gives. Let the database hold a chain with its
  indexes, and the accumulator of its first blocks; let the blocks behind them spend only
  existing outputs, none twice. Then the update over those blocks succeeds and leaves the
  accumulator of the whole chain, transaction count included, and the new height; and
  whenever a rebuild from the same database succeeds, with whatever memory size, it leaves
  the very same accumulator.
\<close>

theorem update_matches_rebuild:
  assumes digest: "\<And>x. length (blake2b x) = 32" and db: "indexed blake2b txn (ob @ nb)" "ob \<noteq> []"
    and tables: "holds_tip txn (ob @ nb)" "holds_spent txn (spends (ob @ nb))"
    and grow: "grows (concat ob) (concat nb)" and acc: "accumulator_of blake2b txn ob before"
    and fit: "fits (live (spends ob) (concat ob) + mset (created (concat nb)))"
  shows "\<exists>puts acc. update_tx_out_set_accumulator_for_range blake2b (Inr txn) (DbHeight (of_nat (length ob - 1)))
        (DbHeight (of_nat (length (ob @ nb) - 1))) = Inr puts
    \<and> accumulator_of blake2b (committed puts txn) (ob @ nb) acc
    \<and> (\<forall>memory_size puts'. rebuild_tx_out_set_accumulator blake2b (Inr txn) memory_size = Some (Inr puts') \<longrightarrow>
         accumulator_of blake2b (committed puts' txn) (ob @ nb) acc)"
proof -
  let ?chain = "ob @ nb"
  from db have chain: "holds_chain blake2b txn ?chain" "?chain \<noteq> []" by (simp_all add: indexed_def)
  obtain acc' where run: "update_tx_out_set_accumulator_for_range blake2b (Inr txn) (DbHeight (of_nat (length ob - 1)))
        (DbHeight (of_nat (length ?chain - 1))) = put_both blake2b (DbHeight (of_nat (length ?chain - 1))) acc'"
    and acc': "commits blake2b acc' (live (spends ?chain) (concat ?chain))"
      "unat (fta_transactions acc') = live_txs (spends ?chain) (concat ?chain)"
    by (rule update_range_run [where blake2b = blake2b, OF digest db grow acc fit]) blast
  obtain puts where puts: "put_both blake2b (DbHeight (of_nat (length ?chain - 1))) acc' = Inr puts"
    "accumulator_of blake2b (committed puts txn) ?chain acc'"
    by (rule put_accumulator [where blake2b = blake2b, OF digest chain acc']) blast
  have "accumulator_of blake2b (committed puts' txn) ?chain acc'"
    if rebuilt: "rebuild_tx_out_set_accumulator blake2b (Inr txn) memory_size = Some (Inr puts')" for memory_size puts'
  proof -
    obtain r where r: "rebuild_tx_out_set_accumulator blake2b (Inr txn) memory_size =
        Some (bindE r (put_both blake2b (DbHeight (of_nat (length ?chain - 1)))))"
      "built blake2b (spends ?chain) (spent_cap memory_size) {..<256} (live (spends ?chain) (concat ?chain))
        (live_txs (spends ?chain) (concat ?chain)) r"
      by (rule rebuild_run [where blake2b = blake2b, OF digest chain(2,1) tables]) blast
    with rebuilt obtain acc2 where acc2: "r = Inr acc2" "put_both blake2b (DbHeight (of_nat (length ?chain - 1))) acc2 = Inr puts'"
      by (auto simp: bindE_eq_Inr)
    with r(2) have "acc2 = acc'"
      using acc' by (intro commits_unique) (auto simp: built_def described_def word_unat_eq_iff)
    with acc2(2) puts show ?thesis by simp
  qed
  with run puts show ?thesis by auto
qed

text \<open>What bringing the accumulator to the tip may leave behind.\<close>

definition advanced ::
  "(u8 list \<Rightarrow> u8 list) \<Rightarrow> lmdb_txn \<Rightarrow> u64 \<Rightarrow> chain_tx list list \<Rightarrow> store_error + put list \<Rightarrow> bool" where
  "advanced blake2b txn memory_size chain r \<longleftrightarrow>
     (case r of
        Inr puts \<Rightarrow> \<exists>acc. accumulator_of blake2b (committed puts txn) chain acc
      | Inl e \<Rightarrow> \<exists>b < 256. unat (spent_cap memory_size) < card (spent_in b (Suc b) (spends chain))
          \<and> e = over_budget b (spent_cap memory_size))"

lemma rebuild_advances:
  assumes digest: "\<And>x. length (blake2b x) = 32" and chain: "holds_chain blake2b txn chain" "chain \<noteq> []"
    and tables: "holds_tip txn chain" "holds_spent txn (spends chain)" and fit: "fits (live (spends chain) (concat chain))"
  shows "\<exists>r. rebuild_tx_out_set_accumulator blake2b (Inr txn) memory_size = Some r \<and> advanced blake2b txn memory_size chain r"
proof -
  obtain r where r: "rebuild_tx_out_set_accumulator blake2b (Inr txn) memory_size =
      Some (bindE r (put_both blake2b (DbHeight (of_nat (length chain - 1)))))"
    "built blake2b (spends chain) (spent_cap memory_size) {..<256} (live (spends chain) (concat chain))
      (live_txs (spends chain) (concat chain)) r"
    by (rule rebuild_run [where blake2b = blake2b, OF digest chain(2,1) tables]) blast
  show ?thesis
  proof (cases r)
    case (Inl e)
    with r fit show ?thesis by (auto simp: built_def advanced_def)
  next
    case (Inr acc)
    with r(2) have acc: "commits blake2b acc (live (spends chain) (concat chain))"
      "unat (fta_transactions acc) = live_txs (spends chain) (concat chain)" by (simp_all add: built_def described_def)
    obtain puts where "put_both blake2b (DbHeight (of_nat (length chain - 1))) acc = Inr puts"
      "accumulator_of blake2b (committed puts txn) chain acc"
      by (rule put_accumulator [where blake2b = blake2b, OF digest chain acc]) blast
    with r(1) Inr show ?thesis by (auto simp: advanced_def)
  qed
qed

lemma update_advances:
  assumes digest: "\<And>x. length (blake2b x) = 32" and db: "indexed blake2b txn (ob @ nb)" "ob \<noteq> []"
    and grow: "grows (concat ob) (concat nb)" and acc: "accumulator_of blake2b txn ob before"
    and fit: "fits (live (spends ob) (concat ob) + mset (created (concat nb)))"
  shows "advanced blake2b txn memory_size (ob @ nb) (update_tx_out_set_accumulator_for_range blake2b (Inr txn)
    (DbHeight (of_nat (length ob - 1))) (DbHeight (of_nat (length (ob @ nb) - 1))))"
proof -
  from db have chain: "holds_chain blake2b txn (ob @ nb)" "ob @ nb \<noteq> []" by (simp_all add: indexed_def)
  obtain acc' where run: "update_tx_out_set_accumulator_for_range blake2b (Inr txn) (DbHeight (of_nat (length ob - 1)))
        (DbHeight (of_nat (length (ob @ nb) - 1))) = put_both blake2b (DbHeight (of_nat (length (ob @ nb) - 1))) acc'"
    and acc': "commits blake2b acc' (live (spends (ob @ nb)) (concat (ob @ nb)))"
      "unat (fta_transactions acc') = live_txs (spends (ob @ nb)) (concat (ob @ nb))"
    by (rule update_range_run [where blake2b = blake2b, OF digest db grow acc fit]) blast
  obtain puts where "put_both blake2b (DbHeight (of_nat (length (ob @ nb) - 1))) acc' = Inr puts"
    "accumulator_of blake2b (committed puts txn) (ob @ nb) acc'"
    by (rule put_accumulator [where blake2b = blake2b, OF digest chain acc']) blast
  with run show ?thesis by (auto simp: advanced_def)
qed

text \<open>
  The state a bulk write leaves: no accumulator yet, or the accumulator of the first \<open>k\<close> blocks,
  with the rest of the chain growing from them.
\<close>

definition maintained :: "(u8 list \<Rightarrow> u8 list) \<Rightarrow> lmdb_txn \<Rightarrow> chain_tx list list \<Rightarrow> bool" where
  "maintained blake2b txn chain \<longleftrightarrow>
     read_tx_out_set_accumulator_built_height blake2b (Inr txn) = Inr None
     \<or> (\<exists>k acc. 0 < k \<and> k \<le> length chain \<and> accumulator_of blake2b txn (take k chain) acc
          \<and> grows (concat (take k chain)) (concat (drop k chain))
          \<and> fits (live (spends (take k chain)) (concat (take k chain)) + mset (created (concat (drop k chain)))))"

text \<open>C5. The stored accumulator follows the chain. Whatever height the stored accumulator was
  built to, or if there is none, bringing it to the tip returns; and unless the memory size
  is too small for a rebuild, which is reported, the database then holds the accumulator of
  exactly the chain's unspent outputs at the tip and the tip as the height it was built to,
  whether nothing was to be done, the range was added, or everything was rebuilt.
\<close>

theorem advance_follows_chain:
  assumes digest: "\<And>x. length (blake2b x) = 32" and db: "indexed blake2b txn chain" "chain \<noteq> []"
    and tables: "holds_tip txn chain" "holds_spent txn (spends chain)" and fit: "fits (live (spends chain) (concat chain))"
    and state: "maintained blake2b txn chain"
  shows "\<exists>r. advance_tx_out_set_accumulator_to_tip blake2b (Inr txn) memory_size (DbHeight (of_nat (length chain - 1))) = Some r
    \<and> advanced blake2b txn memory_size chain r"
proof -
  from db have chain: "holds_chain blake2b txn chain" by (simp add: indexed_def)
  note rebuilt = rebuild_advances [where blake2b = blake2b, OF digest chain db(2) tables fit]
  let ?tip = "of_nat (length chain - 1) :: u32"
  from state consider (none) "read_tx_out_set_accumulator_built_height blake2b (Inr txn) = Inr None"
    | (some) k acc where "0 < k" "k \<le> length chain" "accumulator_of blake2b txn (take k chain) acc"
      "grows (concat (take k chain)) (concat (drop k chain))"
      "fits (live (spends (take k chain)) (concat (take k chain)) + mset (created (concat (drop k chain))))"
    by (auto simp: maintained_def)
  then show ?thesis
  proof cases
    case none
    then show ?thesis using rebuilt by (simp add: advance_tx_out_set_accumulator_to_tip_def)
  next
    case some
    have built: "read_tx_out_set_accumulator_built_height blake2b (Inr txn) = Inr (Some (DbHeight (of_nat (k - 1))))"
      using some(2,3) by (simp add: accumulator_of_def min_def)
    show ?thesis
    proof (cases "k = length chain")
      case True
      then have "advance_tx_out_set_accumulator_to_tip blake2b (Inr txn) memory_size (DbHeight ?tip) = Some (Inr [])"
        using built by (simp add: advance_tx_out_set_accumulator_to_tip_def)
      moreover have "accumulator_of blake2b (committed [] txn) chain acc" using some(3) True by (simp add: committed_def)
      ultimately show ?thesis by (auto simp: advanced_def)
    next
      case False
      have "length chain \<le> 2 ^ 31" by (rule holds_chain_length [OF chain])
      moreover have "unat (of_nat n :: u32) = n" if "n < 2 ^ 32" for n using that by (simp add: unat_of_nat)
      ultimately have "unat ?tip = length chain - 1" "unat (of_nat (k - 1) :: u32) = k - 1"
        using some(1,2) by (simp_all del: of_nat_diff)
      then have "\<not> of_nat (k - 1) \<ge> ?tip" unfolding word_le_nat_alt using some(1,2) False by linarith
      moreover have "take k chain @ drop k chain = chain" "take k chain \<noteq> []" "length (take k chain) = k" using some(1,2) by auto
      moreover from update_advances [where blake2b = blake2b, OF digest _ this(2) some(4,3,5)] this(1,3) db(1)
      have "advanced blake2b txn memory_size chain
          (update_tx_out_set_accumulator_for_range blake2b (Inr txn) (DbHeight (of_nat (k - 1))) (DbHeight ?tip))" by metis
      ultimately show ?thesis
        using built rebuilt by (simp add: advance_tx_out_set_accumulator_to_tip_def)
    qed
  qed
qed

section \<open>Two blocks\<close>

text \<open>
  A database with two blocks of one transaction each; the second spends the output of the
  first. The accumulator stored is that of the first block.
\<close>

definition two_tx0 :: chain_tx where
  "two_tx0 = (DbTransactionHash (replicate 32 7), Some \<lparr>tct_vin = [],
     tct_vout = [\<lparr>toc_value = 5, toc_script_hash = replicate 20 3, toc_script_type = 0\<rparr>]\<rparr>)"

definition two_tx1 :: chain_tx where
  "two_tx1 = (DbTransactionHash (replicate 32 8), Some \<lparr>
     tct_vin = [\<lparr>tic_prevout_txid = replicate 32 7, tic_prevout_index = 0\<rparr>],
     tct_vout = [\<lparr>toc_value = 4, toc_script_hash = replicate 20 3, toc_script_type = 0\<rparr>]\<rparr>)"

definition two_spent :: db_outpoint where
  "two_spent = \<lparr>dop_prev_txid = replicate 32 7, dop_prev_index = 0\<rparr>"

definition two_block :: "u8 list \<Rightarrow> chain_tx list option" where
  "two_block key = (if key = [1, 0, 0, 0, 0] then Some [two_tx0] else if key = [1, 0, 0, 0, 1] then Some [two_tx1] else None)"

definition stored_bytes :: "io_error + u8 list \<Rightarrow> lmdb_error + u8 list" where
  "stored_bytes r = (case r of Inl _ \<Rightarrow> Inl NotFound | Inr raw \<Rightarrow> Inr raw)"

definition var_bytes :: "'a serde \<Rightarrow> u8 list \<Rightarrow> 'a \<Rightarrow> lmdb_error + u8 list" where
  "var_bytes S key item = stored_bytes (bindE (var_new zero_digest S key item) (to_bytes (var_serde S)))"

definition location_bytes :: "u8 list \<Rightarrow> tx_location \<Rightarrow> lmdb_error + u8 list" where
  "location_bytes key loc = stored_bytes (bindE (fixed_new zero_digest tx_location_serde key loc)
     (to_bytes (fixed_serde tx_location_serde tx_location_encoded_len)))"

definition two_db :: lmdb_txn where
  "two_db = \<lparr>txn_get = (\<lambda>table key. case table of
       TbTxids \<Rightarrow> (case two_block key of None \<Rightarrow> Inl NotFound | Some b \<Rightarrow> var_bytes txid_list_serde key (TxidList (map fst b)))
     | TbTransparent \<Rightarrow> (case two_block key of None \<Rightarrow> Inl NotFound
         | Some b \<Rightarrow> var_bytes transparent_list_serde key (TransparentTxList (map snd b)))
     | TbTxidLocation \<Rightarrow>
         (if key = replicate 32 7 then location_bytes key \<lparr>tl_block_height = 0, tl_tx_index = 0\<rparr>
          else if key = replicate 32 8 then location_bytes key \<lparr>tl_block_height = 1, tl_tx_index = 0\<rparr>
          else Inl NotFound)
     | TbSpent \<Rightarrow> (if key = spent_key two_spent then Inr [] else Inl NotFound)
     | _ \<Rightarrow> Inl NotFound),
     txn_first = (\<lambda>table. first_key (if table = TbSpent then [spent_key two_spent] else [])),
     txn_set_range = (\<lambda>table k. first_key (dropWhile (\<lambda>k'. k' < k) (if table = TbSpent then [spent_key two_spent] else []))),
     txn_next = (\<lambda>table k. first_key (dropWhile (\<lambda>k'. k' \<le> k) (if table = TbSpent then [spent_key two_spent] else []))),
     txn_last = (\<lambda>table. if table = TbHeaders then Inr [1, 0, 0, 0, 1] else Inl NotFound)\<rparr>"

lemma var_bytes_row:
  assumes "serialize S item = Inr body" and "length body \<le> unat MAX_COMPACT_SIZE"
    and "db_height_try_from h = Inr (DbHeight h)" and "to_bytes height_serde (DbHeight h) = Inr key"
    and "txn_get txn table key = var_bytes S key item"
  shows "row_at zero_digest S txn table h item"
proof -
  obtain e raw where "var_new zero_digest S key item = Inr e" "to_bytes (var_serde S) e = Inr raw"
    using assms(1) by (simp add: var_new_def var_serde_def to_bytes_def to_bytes_with_version_def
        serialize_with_version_def encode_body_def serde_v1_def var_encode_v1_def V1_def write_fixed_le_def)
  moreover from this have "txn_get txn table key = Inr raw" using assms(5) by (simp add: var_bytes_def stored_bytes_def)
  ultimately show ?thesis using assms(1-4) by (auto simp: row_at_def stored_row_def)
qed

lemma two_heights:
  "db_height_try_from 0 = Inr (DbHeight 0)" "to_bytes height_serde (DbHeight 0) = Inr [1, 0, 0, 0, 0]"
  "db_height_try_from 1 = Inr (DbHeight 1)" "to_bytes height_serde (DbHeight 1) = Inr [1, 0, 0, 0, 1]"
  by code_simp+

lemma two_rows:
  "row_at zero_digest txid_list_serde two_db TbTxids 0 (TxidList [fst two_tx0])"
  "row_at zero_digest txid_list_serde two_db TbTxids 1 (TxidList [fst two_tx1])"
  "row_at zero_digest transparent_list_serde two_db TbTransparent 0 (TransparentTxList [snd two_tx0])"
  "row_at zero_digest transparent_list_serde two_db TbTransparent 1 (TransparentTxList [snd two_tx1])"
proof -
  have body: "\<exists>body. serialize txid_list_serde (TxidList [fst two_tx0]) = Inr body \<and> length body \<le> unat MAX_COMPACT_SIZE"
    "\<exists>body. serialize txid_list_serde (TxidList [fst two_tx1]) = Inr body \<and> length body \<le> unat MAX_COMPACT_SIZE"
    "\<exists>body. serialize transparent_list_serde (TransparentTxList [snd two_tx0]) = Inr body \<and> length body \<le> unat MAX_COMPACT_SIZE"
    "\<exists>body. serialize transparent_list_serde (TransparentTxList [snd two_tx1]) = Inr body \<and> length body \<le> unat MAX_COMPACT_SIZE"
    by (simp_all add: example_encoding two_tx0_def two_tx1_def txid_list_serde_def txid_list_encode_v1_def
        transaction_hash_serde_def transaction_hash_encode_v1_def transparent_list_serde_def transparent_list_encode_v1_def
        transparent_serde_def transparent_encode_v1_def tx_out_serde_def tx_out_encode_v1_def tx_in_serde_def tx_in_encode_v1_def
        write_u32_le_def MAX_COMPACT_SIZE_def)
  show "row_at zero_digest txid_list_serde two_db TbTxids 0 (TxidList [fst two_tx0])"
    using body(1) two_heights(1,2) by (auto intro!: var_bytes_row simp: two_db_def two_block_def)
  show "row_at zero_digest txid_list_serde two_db TbTxids 1 (TxidList [fst two_tx1])"
    using body(2) two_heights(3,4) by (auto intro!: var_bytes_row simp: two_db_def two_block_def)
  show "row_at zero_digest transparent_list_serde two_db TbTransparent 0 (TransparentTxList [snd two_tx0])"
    using body(3) two_heights(1,2) by (auto intro!: var_bytes_row simp: two_db_def two_block_def)
  show "row_at zero_digest transparent_list_serde two_db TbTransparent 1 (TransparentTxList [snd two_tx1])"
    using body(4) two_heights(3,4) by (auto intro!: var_bytes_row simp: two_db_def two_block_def)
qed

text \<open>Writing the accumulator and its height leaves the chain's tables and their indexes alone.\<close>

lemma put_both_tables:
  "put_both blake2b tip acc = Inr puts \<Longrightarrow> p \<in> set puts \<Longrightarrow> fst p \<in> {TbTxOutSetInfoAccumulator, TbMetadata}"
  by (auto simp: put_both_def put_tx_out_set_accumulator_def put_tx_out_set_accumulator_watermark_def bindE_eq_Inr)

lemma committed_other:
  "table \<notin> fst ` set puts \<Longrightarrow> txn_get (committed puts txn) table = txn_get txn table"
  by (induction puts arbitrary: txn) (auto simp: committed_def)

lemma committed_cursors [simp]:
  "txn_first (committed puts txn) = txn_first txn" "txn_set_range (committed puts txn) = txn_set_range txn"
  "txn_next (committed puts txn) = txn_next txn" "txn_last (committed puts txn) = txn_last txn"
  by (induction puts arbitrary: txn) (auto simp: committed_def)

lemma committed_keeps:
  assumes "put_both blake2b tip acc = Inr puts"
  shows "indexed blake2b txn chain \<Longrightarrow> indexed blake2b (committed puts txn) chain"
    and "holds_tip txn chain \<Longrightarrow> holds_tip (committed puts txn) chain"
    and "holds_spent txn spent \<Longrightarrow> holds_spent (committed puts txn) spent"
proof -
  have "txn_get (committed puts txn) table = txn_get txn table"
    if "table \<notin> {TbTxOutSetInfoAccumulator, TbMetadata}" for table
    using put_both_tables [OF assms] that by (intro committed_other) auto
  then show "indexed blake2b txn chain \<Longrightarrow> indexed blake2b (committed puts txn) chain"
    by (simp add: indexed_def holds_chain_def row_at_def holds_locations_def location_row_def spent_gets_def)
  show "holds_tip txn chain \<Longrightarrow> holds_tip (committed puts txn) chain" unfolding holds_tip_def committed_cursors .
  show "holds_spent txn spent \<Longrightarrow> holds_spent (committed puts txn) spent" by (simp add: holds_spent_def walks_def)
qed

definition two_acc :: finalised_accumulator where
  "two_acc = (case add_all zero_digest (created [two_tx0]) fta_empty of Inl _ \<Rightarrow> fta_empty
     | Inr acc \<Rightarrow> acc\<lparr>fta_transactions := 1\<rparr>)"

definition two_state :: lmdb_txn where
  "two_state = (case put_both zero_digest (DbHeight 0) two_acc of Inl _ \<Rightarrow> two_db | Inr puts \<Rightarrow> committed puts two_db)"

lemmas two_values = two_tx0_def two_tx1_def two_spent_def tx_utxos_def unspent_def is_unspendable_tx_out_def script_type_enum_def
  script_type_try_from_def spends_of_def spent_outpoints_def chain_spends_def is_null_prevout_def

lemma two_utxos:
  "tx_utxos two_tx0 = [(two_spent, \<lparr>toc_value = 5, toc_script_hash = replicate 20 3, toc_script_type = 0\<rparr>)]"
  "tx_utxos two_tx1 = [(\<lparr>dop_prev_txid = replicate 32 8, dop_prev_index = 0\<rparr>,
     \<lparr>toc_value = 4, toc_script_hash = replicate 20 3, toc_script_type = 0\<rparr>)]"
  by (simp_all add: two_values)

lemma two_spends: "spends_of two_tx0 = []" "spends_of two_tx1 = [two_spent]"
  by (simp_all add: two_values)

lemma location_bytes_row:
  obtains e row where "fixed_new zero_digest tx_location_serde key loc = Inr e"
    and "to_bytes (fixed_serde tx_location_serde tx_location_encoded_len) e = Inr row" and "location_bytes key loc = Inr row"
  using that by (simp add: location_bytes_def stored_bytes_def fixed_new_def tx_location_serde_def
      fixed_serde_def to_bytes_def to_bytes_with_version_def serialize_def serialize_with_version_def encode_body_def
      serde_v1_def fixed_encode_v1_def tx_location_encode_v1_def tx_location_encoded_len_def latest_versioned_len_def
      versioned_len_def V1_def VERSION_TAG_LEN_def write_fixed_le_def)

lemma two_db_indexed: "indexed zero_digest two_db [[two_tx0], [two_tx1]]"
proof -
  have ok: "txid_list_ok (TxidList [fst two_tx0])" "txid_list_ok (TxidList [fst two_tx1])"
    "transparent_list_ok (TransparentTxList [snd two_tx0])" "transparent_list_ok (TransparentTxList [snd two_tx1])"
    by (simp_all add: two_tx0_def two_tx1_def txid_list_ok_def transaction_hash_ok_def transparent_list_ok_def transparent_ok_def
        tx_in_ok_def tx_out_ok_def script_type_try_from_def vec_ok_def MAX_COMPACT_SIZE_def)
  have "location_row zero_digest two_db (replicate 32 7) \<lparr>tl_block_height = 0, tl_tx_index = 0\<rparr>"
    by (rule location_bytes_row [of "replicate 32 7" "\<lparr>tl_block_height = 0, tl_tx_index = 0\<rparr>"]) (simp add: location_row_def two_db_def)
  moreover have "location_row zero_digest two_db (replicate 32 8) \<lparr>tl_block_height = 1, tl_tx_index = 0\<rparr>"
    by (rule location_bytes_row [of "replicate 32 8" "\<lparr>tl_block_height = 1, tl_tx_index = 0\<rparr>"]) (simp add: location_row_def two_db_def)
  ultimately have "holds_locations zero_digest two_db [[two_tx0], [two_tx1]]"
    by (simp add: holds_locations_def less_Suc_eq all_conj_distrib two_tx0_def two_tx1_def)
  moreover have "holds_chain zero_digest two_db [[two_tx0], [two_tx1]]"
    using two_rows ok by (simp add: holds_chain_def less_Suc_eq all_conj_distrib)
  moreover have "db_outpoint_ok two_spent" by (simp add: db_outpoint_ok_def two_spent_def)
  then have "spent_gets two_db (spends [[two_tx0], [two_tx1]])"
    by (auto simp: spent_gets_def spends_def chain_spends_def two_spends two_db_def spent_key_inject)
  ultimately show ?thesis by (simp add: indexed_def)
qed

lemma two_db_tables:
  "holds_tip two_db [[two_tx0], [two_tx1]]" "holds_spent two_db (spends [[two_tx0], [two_tx1]])"
proof -
  show "holds_tip two_db [[two_tx0], [two_tx1]]" using two_heights by (simp add: holds_tip_def two_db_def)
  show "holds_spent two_db (spends [[two_tx0], [two_tx1]])"
    unfolding holds_spent_def
    by (intro conjI exI [of _ "[spent_key two_spent]"])
      (simp_all add: walks_def two_db_def db_outpoint_ok_def spends_def chain_spends_def two_spends, simp add: two_spent_def)
qed

lemma two_acc_reads:
  "indexed zero_digest two_state [[two_tx0], [two_tx1]]" "holds_tip two_state [[two_tx0], [two_tx1]]"
  "holds_spent two_state (spends [[two_tx0], [two_tx1]])" "accumulator_of zero_digest two_state [[two_tx0]] two_acc"
proof -
  have digest: "length (zero_digest x) = 32" for x by (simp add: zero_digest_def)
  have "fits (mset (created [two_tx0]))" by (simp add: fits_def two_utxos)
  from fold_added [where blake2b = zero_digest, OF digest this] have
    acc: "commits zero_digest two_acc (live (spends [[two_tx0]]) (concat [[two_tx0]]))"
      "unat (fta_transactions two_acc) = live_txs (spends [[two_tx0]]) (concat [[two_tx0]])"
    by (auto simp: two_acc_def commits_def live_def live_txs_def spends_def chain_spends_def two_spends unspent_def two_utxos)
  have one: "holds_chain zero_digest two_db [[two_tx0]]"
    using two_db_indexed by (auto simp: indexed_def holds_chain_def)
  obtain puts where puts: "put_both zero_digest (DbHeight (of_nat (length [[two_tx0]] - 1))) two_acc = Inr puts"
    "accumulator_of zero_digest (committed puts two_db) [[two_tx0]] two_acc"
    by (rule put_accumulator [where blake2b = zero_digest, OF digest one _ acc]) blast
  then have state: "two_state = committed puts two_db" by (simp add: two_state_def)
  show "accumulator_of zero_digest two_state [[two_tx0]] two_acc" using puts(2) by (simp add: state)
  show "indexed zero_digest two_state [[two_tx0], [two_tx1]]" "holds_tip two_state [[two_tx0], [two_tx1]]"
    "holds_spent two_state (spends [[two_tx0], [two_tx1]])"
    unfolding state by (rule committed_keeps [OF puts(1)], rule two_db_indexed two_db_tables)+
qed

lemma two_grows: "grows [two_tx0] [two_tx1]"
  by (simp add: grows_def txs_ok_def chain_spends_def two_spends has_output_def) (simp add: two_values)

lemma two_fits:
  "fits (live (spends [[two_tx0]]) (concat [[two_tx0]]) + mset (created (concat [[two_tx1]])))"
  "fits (live (spends [[two_tx0], [two_tx1]]) (concat [[two_tx0], [two_tx1]]))"
  by (simp_all add: fits_def spends_def chain_spends_def two_spends two_utxos unspent_def)

lemma two_outcome:
  assumes "accumulator_of zero_digest txn [[two_tx0], [two_tx1]] acc"
  shows "fta_total_zatoshis acc = 4 \<and> fta_transaction_outputs acc = 1 \<and> fta_transactions acc = 1"
  using assms
  by (simp add: accumulator_of_def commits_def spends_def chain_spends_def two_spends two_utxos unspent_def live_txs_def
      word_unat_eq_iff) (simp add: two_spent_def)

theorem update_matches_rebuild_witness:
  "\<exists>puts acc. update_tx_out_set_accumulator_for_range zero_digest (Inr two_state) (DbHeight 0) (DbHeight 1) = Inr puts
    \<and> accumulator_of zero_digest (committed puts two_state) [[two_tx0], [two_tx1]] acc
    \<and> fta_total_zatoshis acc = 4 \<and> fta_transaction_outputs acc = 1 \<and> fta_transactions acc = 1"
proof -
  have digest: "length (zero_digest x) = 32" for x by (simp add: zero_digest_def)
  from update_matches_rebuild [of zero_digest two_state "[[two_tx0]]" "[[two_tx1]]" two_acc]
    digest two_acc_reads two_grows two_fits(1) obtain puts acc where
    "update_tx_out_set_accumulator_for_range zero_digest (Inr two_state) (DbHeight 0) (DbHeight 1) = Inr puts"
    "accumulator_of zero_digest (committed puts two_state) [[two_tx0], [two_tx1]] acc" by auto
  with two_outcome show ?thesis by blast
qed

theorem advance_follows_chain_witness:
  "\<exists>puts acc. advance_tx_out_set_accumulator_to_tip zero_digest (Inr two_state) 1024 (DbHeight 1) = Some (Inr puts)
    \<and> accumulator_of zero_digest (committed puts two_state) [[two_tx0], [two_tx1]] acc
    \<and> fta_total_zatoshis acc = 4 \<and> fta_transaction_outputs acc = 1 \<and> fta_transactions acc = 1"
proof -
  have digest: "length (zero_digest x) = 32" for x by (simp add: zero_digest_def)
  have "maintained zero_digest two_state [[two_tx0], [two_tx1]]"
    unfolding maintained_def
    by (rule disjI2, rule exI [of _ 1], rule exI [of _ two_acc]) (use two_acc_reads(4) two_grows two_fits(1) in simp)
  with advance_follows_chain [of zero_digest two_state "[[two_tx0], [two_tx1]]" 1024] digest two_acc_reads(1-3) two_fits(2)
  obtain r where r: "advance_tx_out_set_accumulator_to_tip zero_digest (Inr two_state) 1024 (DbHeight 1) = Some r"
    "advanced zero_digest two_state 1024 [[two_tx0], [two_tx1]] r" by auto
  have "card (spent_in b (Suc b) (spends [[two_tx0], [two_tx1]])) \<le> unat (spent_cap 1024)" for b
  proof -
    have "card (spent_in b (Suc b) (spends [[two_tx0], [two_tx1]])) \<le> card (spends [[two_tx0], [two_tx1]])"
      by (rule card_mono) (auto simp: spent_in_def spends_def)
    then show ?thesis by (simp add: spends_def chain_spends_def two_spends spent_cap_def SPENT_SET_ENTRY_BYTES_ESTIMATE_def)
  qed
  with r(2) obtain puts acc where "r = Inr puts" "accumulator_of zero_digest (committed puts two_state) [[two_tx0], [two_tx1]] acc"
    by (auto simp: advanced_def not_less [symmetric] split: sum.splits)
  with r(1) two_outcome show ?thesis by blast
qed

end
