(* ===== verification/Spec2Isabelle.thy ===== *)
theory Spec2Isabelle
  imports Zaino_Difficulty Zaino_Finality Zaino_Status Zaino_Chain_Queries Zaino_Chain_Head_Theorems Zaino_Db_Theorems
    Zaino_Txout_Advance
begin

text \<open>
  Zaino is an indexer for the Zcash chain. It follows a validator, keeps the recent blocks that
  may still be reorganised in memory (the \<^emph>\<open>chain head\<close>, the volatile tier), writes blocks
  below the reorganisation depth to an LMDB database (the \<^emph>\<open>finalised store\<close>, the durable
  tier), and answers queries over both. Between the tiers lies the \<^emph>\<open>finality seam\<close>: the
  volatile tier publishes the horizon below which blocks are final, the durable tier publishes
  the watermark up to which it has committed. This library models the parts below in the order
  the program builds them up and proves what makes each correct. File names are under
  \<^verbatim>\<open>src/packages\<close>.

  \<^bold>\<open>Conventions.\<close> A struct is a \<open>record\<close>, an enum a \<open>datatype\<close>, a machine integer a word of its
  width; checked, saturating and wrapping arithmetic are the definitions of \<open>Zaino_Prelude\<close>. A
  \<^verbatim>\<open>Result\<close> is a sum with the error on the left, sequenced by \<open>bindE\<close>; a panic is an error of its
  own. A \<^verbatim>\<open>HashMap\<close> is an association list without repeated keys (\<open>hmap\<close>); a statement about
  one never depends on its order. A loop whose end is not evident is a \<open>partial_function\<close> into
  \<open>option\<close>, where \<open>None\<close> is not returning, and is shown to return. Code outside the
  repository is a parameter: the validator is the record of calls \<open>chain_source\<close>, the digest
  BLAKE2b-256 is a function \<open>blake2b\<close> on byte lists of which only the length of its results is
  assumed, and an LMDB read transaction is the record \<open>lmdb_txn\<close>. Log lines and metrics are
  left out.

  \<^bold>\<open>Primitives\<close> (\<^verbatim>\<open>zaino-primitives/src/types\<close>). \<open>Zaino_Primitives\<close>: heights, amounts, flow sums,
  tree sizes and pool activations, each operation exact or refused at its bound. \<open>Zaino_U256\<close>
  and \<open>Zaino_Difficulty\<close>: the 256-bit arithmetic of \<^verbatim>\<open>compact_difficulty/u256.rs\<close>, whose restoring
  division is shown to be integer division, the acceptance set of \<open>nBits\<close>, the work of a block,
  and the accumulation and wire form of chain work. \<open>Zaino_Block\<close> and \<open>Zaino_Chain_Types\<close>: the
  block and reference records the tiers exchange.

  \<^bold>\<open>Finality seam\<close> (\<^verbatim>\<open>zaino-finality/src\<close>). \<open>Zaino_Finality\<close>: the two halves as operations on one
  state and the executions as a step relation. Every reachable state keeps the chain of
  inequalities, both legs only move up (through the locale \<open>ratchet\<close>), each publish is refused
  exactly when it breaks its link, and the durable tier can always catch up.

  \<^bold>\<open>Status\<close> (\<^verbatim>\<open>zaino-status/src\<close>). \<open>Zaino_Status\<close>: the algebra of statuses, the probes and the
  shared cell.

  \<^bold>\<open>Chain head\<close> (\<^verbatim>\<open>zaino-chain-head/src\<close>, \<^verbatim>\<open>zaino-chain-head-service/src\<close>). \<open>Zaino_Chain_Graph\<close>: the
  map-backed graph of \<^verbatim>\<open>graph.rs\<close> with its invariant, and the refinement of its moves to a list
  of canonical blocks (the contract \<^verbatim>\<open>ChainGraph\<close> is the locale \<open>canonical_chain\<close>, interpreted on
  the graph).
  \<open>Zaino_Chain_Queries\<close>: the questions a snapshot answers, each against a specification over the
  canonical chain. \<open>Zaino_Source\<close>: the errors of the validator ports and the retry loop of
  \<^verbatim>\<open>zaino-source\<close>. \<open>Zaino_Chain_Head\<close>: the writer of \<^verbatim>\<open>service.rs\<close>, from anchoring to the tick with
  its reorganisation walk, the horizon publish, the snapshot publish and the run loop.
  \<open>Zaino_Chain_Head_Writer\<close>: what holds whatever the validator answers from one ledger.
  \<open>Zaino_Chain_Head_Converges\<close>: a validator that stands still. \<open>Zaino_Chain_Head_Theorems\<close>: what a
  run publishes, that a tick returns and reaches the validator's tip, what it leaves when it
  fails, and that every run is an execution of the finality seam.

  \<^bold>\<open>Finalised store\<close> (\<^verbatim>\<open>zaino-encoding/src\<close>, \<^verbatim>\<open>zaino-chain-store/src\<close>,
  \<^verbatim>\<open>zaino-chain-store-zainodb/src\<close>). \<open>Zaino_Encoding\<close>: readers, writers, compact sizes and the
  versioned encoding trait, as the locales \<open>codec\<close>, \<open>versioned_serde\<close> and \<open>fixed_encoded_len\<close>.
  \<open>Zaino_Db_Types\<close> and \<open>Zaino_Db_Rows\<close>: every row type of \<^verbatim>\<open>types/db\<close> with every version of its
  encoding; \<open>Zaino_Db_Codecs\<close> interprets the locales for each. \<open>Zaino_Stored_Entry\<close>: the checksummed
  wrappers of \<^verbatim>\<open>entry.rs\<close>. \<open>Zaino_Db_Theorems\<close>: round trips, typing of whatever decodes,
  verification of old and new rows, detection of changed ones, and the order of keys.
  \<open>Zaino_Row_Scan\<close> and \<open>Zaino_Row_Scan_Theorems\<close>: the lookups that walk a row's bytes
  (\<^verbatim>\<open>block_core.rs\<close>, \<^verbatim>\<open>block_transparent.rs\<close>, \<^verbatim>\<open>block_shielded.rs\<close>,
  \<^verbatim>\<open>transparent_address_history.rs\<close>) against decoding the row, with the locale \<open>entry_skip\<close> for the
  entry skippers. \<open>Zaino_Txout_Set\<close>: the accumulator of unspent outputs (\<^verbatim>\<open>txout_set.rs\<close>,
  \<^verbatim>\<open>types/db/metadata.rs\<close>) as an image of a multiset, through the locale \<open>set_accumulator\<close>.
  \<open>Zaino_Txout_Rebuild\<close>, \<open>Zaino_Txout_Rebuild_Theorems\<close> and \<open>Zaino_Txout_Rebuild_Correct\<close>: the
  sharded bulk rebuild of \<^verbatim>\<open>v1/tx_out_set_accumulator.rs\<close> and its proof on a database that holds a
  chain. \<open>Zaino_Txout_Update\<close>, \<open>Zaino_Txout_Update_Theorems\<close> and \<open>Zaino_Txout_Advance\<close>: the update over
  a range of heights, which reads spent outputs through the location index and counts the
  transactions that gain their first or lose their last unspent output, and the step that
  brings the accumulator to the tip by one of the two; the update is shown to leave what the
  rebuild leaves.

  \<^bold>\<open>Bounds and fuel.\<close> No definition takes fuel. The walks of the writer end because each step
  goes one block down or the depth limit is met; the tick is shown to return for every
  configured depth below the largest machine word. The fork walks end because heights fall
  along parent links. The cursor walks end on a table with finitely many keys. The rebuild's
  work list ends because the halves of a range are smaller than the range. Heights are at most
  \<open>2 ^ 31 - 1\<close> and counted lists at most \<open>MAX_COMPACT_SIZE\<close>, as the code enforces; where a total
  could leave 64 bits the statement says that it fits.

  \<^bold>\<open>Not modelled.\<close> Async scheduling: a call is the value it gives, and concurrency is the
  interleaving of the steps of the two tiers. The waiting read of the seam
  (\<^verbatim>\<open>await_released\<close>) only sleeps on a channel. Of the store, the block write and delete paths,
  migrations, the ephemeral backend, the address-history index, the background validation and
  the adapter are not reached; the commit and sync of a write transaction are taken to succeed,
  and its rows are the result of the model. The servers (\<^verbatim>\<open>zaino-serve\<close>, \<^verbatim>\<open>zaino-lightserve\<close>,
  \<^verbatim>\<open>zaino-noderpc\<close>), the validator clients (\<^verbatim>\<open>zaino-source-zebra*\<close>, \<^verbatim>\<open>zaino-rpc\<close>), the LMDB backend,
  logging, configuration, supervision and the binary are I/O over third-party packages; the
  port crates declare signatures only; the macro and protocol crates generate code at build
  time. The mempool, the sync engine and its indexes, and the older \<^verbatim>\<open>zaino-state\<close> are not
  reached.
\<close>

end
